(* ===== verification/Prelude.thy ===== *)
theory Prelude
  imports Main "HOL-Library.Word" "HOL-Library.AList" "HOL-Library.Multiset"
begin

text \<open>
  Shared vocabulary of the development.

  \<^item> Sizes and offsets of type \<^verbatim>\<open>size_t\<close> are natural numbers below \<open>size_mod\<close>
    (\<open>2 ^ 64\<close>); additions, subtractions and multiplications that the code performs on them
    go through \<open>add64\<close>, \<open>sub64\<close> and \<open>mul64\<close>, which write the wrap-around out.
  \<^item> A C \<^verbatim>\<open>int\<close> is an \<open>int\<close>; \<open>is_int32\<close> is its range.
  \<^item> Raw memory is a function from addresses to bytes; the null pointer is address \<open>0\<close>;
    \<open>memcpy\<close> copies a range.
  \<^item> A \<^verbatim>\<open>std::unordered_map\<close> is an association list with distinct keys, in the
    (unspecified) iteration order of the container.
\<close>

named_theorems size_simps \<open>reading the wrapped size operations when they do not wrap\<close>
named_theorems span_simps \<open>facts on half-open address ranges\<close>
named_theorems mem_simps \<open>reading memory after a copy\<close>

section \<open>Machine sizes\<close>

definition size_mod :: nat where
  "size_mod = 2 ^ 64"

definition npos :: nat where
  "npos = size_mod - 1"

definition add64 :: "nat \<Rightarrow> nat \<Rightarrow> nat" where
  "add64 a b = (a + b) mod size_mod"

definition sub64 :: "nat \<Rightarrow> nat \<Rightarrow> nat" where
  "sub64 a b = (a + (size_mod - b mod size_mod)) mod size_mod"

definition mul64 :: "nat \<Rightarrow> nat \<Rightarrow> nat" where
  "mul64 a b = (a * b) mod size_mod"

definition is_int32 :: "int \<Rightarrow> bool" where
  "is_int32 x \<longleftrightarrow> - (2 ^ 31) \<le> x \<and> x < 2 ^ 31"

text \<open>The conversion of a wider integer to a C \<^verbatim>\<open>int\<close>.\<close>

definition to_int32 :: "int \<Rightarrow> int" where
  "to_int32 x = (x + 2 ^ 31) mod 2 ^ 32 - 2 ^ 31"

lemma to_int32_id [size_simps]: "is_int32 x \<Longrightarrow> to_int32 x = x"
  by (simp add: to_int32_def is_int32_def)

lemma is_int32_to_int32 [simp]: "is_int32 (to_int32 x)"
  by (simp add: is_int32_def to_int32_def)

lemma size_mod_pos [simp]: "0 < size_mod"
  by (simp add: size_mod_def)

lemma add64_nowrap [size_simps]: "a + b < size_mod \<Longrightarrow> add64 a b = a + b"
  by (simp add: add64_def)

lemma mul64_nowrap [size_simps]: "a * b < size_mod \<Longrightarrow> mul64 a b = a * b"
  by (simp add: mul64_def)

lemma sub64_nowrap [size_simps]:
  assumes "b \<le> a" and "a < size_mod"
  shows "sub64 a b = a - b"
proof -
  have "a + (size_mod - b mod size_mod) = (a - b) + size_mod"
    using assms by simp
  then have "sub64 a b = ((a - b) + size_mod) mod size_mod"
    by (simp only: sub64_def)
  also have "\<dots> = (a - b) mod size_mod"
    by (rule mod_add_self2)
  finally show ?thesis
    using assms by (simp only: mod_less less_imp_diff_less)
qed

lemma add64_less [simp]: "add64 a b < size_mod"
  by (simp add: add64_def)

lemma sub64_less [simp]: "sub64 a b < size_mod"
  by (simp add: sub64_def)

lemma less_npos_iff: "x < npos \<longleftrightarrow> x + 1 < size_mod"
  by (auto simp: npos_def)

section \<open>Exceptions\<close>

text \<open>The standard exceptions that the code throws or lets escape.\<close>

datatype exn = Invalid_argument | Out_of_range | Length_error | Bad_alloc

section \<open>Half-open address ranges\<close>

definition span :: "nat \<Rightarrow> nat \<Rightarrow> nat set" where
  "span start len = {start ..< start + len}"

lemma mem_span [simp]: "x \<in> span a n \<longleftrightarrow> a \<le> x \<and> x < a + n"
  by (simp add: span_def)

lemma finite_span [simp]: "finite (span a n)"
  by (simp add: span_def)

lemma card_span [simp]: "card (span a n) = n"
  by (simp add: span_def)

lemma span_empty_iff [simp]: "span a n = {} \<longleftrightarrow> n = 0"
  by (auto simp: span_def)

lemma span_split [span_simps]: "m \<le> n \<Longrightarrow> span a n = span a m \<union> span (a + m) (n - m)"
  by auto

lemma span_append [span_simps]: "span a m \<union> span (a + m) n = span a (m + n)"
  by auto

lemma span_disjointD:
  assumes "span a m \<inter> span b n = {}" and "0 < m" and "0 < n"
  shows "a + m \<le> b \<or> b + n \<le> a"
proof (rule ccontr)
  assume "\<not> ?thesis"
  then have "max a b \<in> span a m \<inter> span b n" using assms(2,3) by auto
  with assms(1) show False by blast
qed

lemma span_disjointI: "a + m \<le> b \<or> b + n \<le> a \<Longrightarrow> span a m \<inter> span b n = {}"
  by auto

lemma span_disjoint_iff:
  "0 < m \<Longrightarrow> 0 < n \<Longrightarrow> span a m \<inter> span b n = {} \<longleftrightarrow> a + m \<le> b \<or> b + n \<le> a"
  by (meson span_disjointD span_disjointI)

lemma span_shift_disjoint:
  "span (c + a) m \<inter> span (c + b) n = {} \<longleftrightarrow> span a m \<inter> span b n = {}"
proof (cases "m = 0 \<or> n = 0")
  case True
  then show ?thesis by (auto simp: span_def)
next
  case False
  then show ?thesis by (simp add: span_disjoint_iff)
qed

section \<open>Raw memory\<close>

type_synonym byte = "8 word"
type_synonym memory = "nat \<Rightarrow> byte"

abbreviation (input) nullptr :: nat where
  "nullptr \<equiv> 0"

definition memcpy :: "memory \<Rightarrow> nat \<Rightarrow> nat \<Rightarrow> nat \<Rightarrow> memory" where
  "memcpy m dst src n = (\<lambda>a. if a \<in> span dst n then m (src + (a - dst)) else m a)"

definition same_bytes :: "memory \<Rightarrow> nat \<Rightarrow> nat \<Rightarrow> nat \<Rightarrow> bool" where
  "same_bytes m p q n \<longleftrightarrow> (\<forall>i < n. m (p + i) = m (q + i))"

lemma memcpy_outside [mem_simps]: "a \<notin> span dst n \<Longrightarrow> memcpy m dst src n a = m a"
  by (auto simp: memcpy_def)

lemma memcpy_inside [mem_simps]: "i < n \<Longrightarrow> memcpy m dst src n (dst + i) = m (src + i)"
  by (simp add: memcpy_def)

lemma memcpy_same_bytes:
  assumes "span src n \<inter> span dst n = {}"
  shows "same_bytes (memcpy m dst src n) dst src n"
proof -
  have "src + i \<notin> span dst n" if "i < n" for i
  proof -
    have "src + i \<in> span src n" using that by simp
    with assms show ?thesis by blast
  qed
  then show ?thesis
    by (simp add: same_bytes_def memcpy_inside memcpy_outside del: mem_span)
qed

lemma memcpy_frame:
  assumes "same_bytes m p q k"
    and "span p k \<inter> span dst n = {}" and "span q k \<inter> span dst n = {}"
  shows "same_bytes (memcpy m dst src n) p q k"
proof -
  have "p + i \<notin> span dst n \<and> q + i \<notin> span dst n" if "i < k" for i
  proof -
    have "p + i \<in> span p k" and "q + i \<in> span q k" using that by auto
    with assms(2,3) show ?thesis by blast
  qed
  then show ?thesis
    using assms(1) by (simp add: same_bytes_def memcpy_outside del: mem_span)
qed

section \<open>Association lists\<close>

lemma map_of_distinct_iff:
  "distinct (map fst xs) \<Longrightarrow> map_of xs k = Some v \<longleftrightarrow> (k, v) \<in> set xs"
  by simp

lemma set_AList_delete:
  "distinct (map fst xs) \<Longrightarrow> set (AList.delete k xs) = {p \<in> set xs. fst p \<noteq> k}"
  by (auto simp: AList.delete_eq)

lemma set_AList_update:
  assumes "distinct (map fst xs)"
  shows "set (AList.update k v xs) = insert (k, v) {p \<in> set xs. fst p \<noteq> k}"
  using assms by (induction xs) force+

lemma update_fresh: "k \<notin> fst ` set xs \<Longrightarrow> AList.update k v xs = xs @ [(k, v)]"
  by (induction xs) auto

lemma length_delete_less:
  "k \<in> fst ` set xs \<Longrightarrow> length (AList.delete k xs) < length xs"
  by (auto simp: AList.delete_eq intro!: length_filter_less)

lemma map_ext_Some: "(\<And>k v. m k = Some v \<longleftrightarrow> m' k = Some v) \<Longrightarrow> m = m'"
  by (rule ext) (metis not_None_eq)

lemma perm_distinct_map: "mset xs = mset ys \<Longrightarrow> distinct (map f xs) = distinct (map f ys)"
  by (intro mset_eq_imp_distinct_iff) simp

section \<open>Lists\<close>

lemma map_update_same: "i < length xs \<Longrightarrow> f y = f (xs ! i) \<Longrightarrow> map f (xs[i := y]) = map f xs"
  by (metis list_update_id map_update)

end
