(* ===== verification/Dtype.thy ===== *)
theory Dtype
  imports Complex_Main Prelude
begin

unbundle bit_operations_syntax

text \<open>
  The scalar types of \<^verbatim>\<open>include/dee/weight_mmap.h\<close> and their conversions to \<^verbatim>\<open>float\<close> in
  \<^verbatim>\<open>src/weight_mmap.cpp\<close>. A \<^verbatim>\<open>float\<close> is its 32-bit pattern, since the code builds the pattern and
  copies it; \<open>f32_value\<close> reads a pattern as the real number it denotes.
\<close>

section \<open>The conversions\<close>

datatype DType = F32 | F16 | BF16 | UNKNOWN

definition dtype_from_string :: "string \<Rightarrow> DType" where
  "dtype_from_string s =
     (if s = ''F32'' \<or> s = ''F32E4M3'' \<or> s = ''F32E5M2'' then F32
      else if s = ''F16'' then F16
      else if s = ''BF16'' then BF16
      else UNKNOWN)"

definition dtype_to_string :: "DType \<Rightarrow> string" where
  "dtype_to_string d = (case d of F32 \<Rightarrow> ''F32'' | F16 \<Rightarrow> ''F16'' | BF16 \<Rightarrow> ''BF16'' | UNKNOWN \<Rightarrow> ''UNKNOWN'')"

definition bf16_to_f32 :: "16 word \<Rightarrow> 32 word" where
  "bf16_to_f32 h = push_bit 16 (ucast h)"

text \<open>The loop that shifts a subnormal mantissa up to its implicit bit; \<open>e\<close> counts down.\<close>

partial_function (option) normalise_loop :: "32 word \<Rightarrow> int \<Rightarrow> (32 word \<times> int) option" where
  [code]: "normalise_loop mant e =
     (if mant AND 0x400 = 0 then normalise_loop (push_bit 1 mant) (e - 1) else Some (mant, e))"

definition f16_to_f32 :: "16 word \<Rightarrow> 32 word option" where
  "f16_to_f32 h =
     (let sign = ucast (drop_bit 15 h) AND 0x1;
          expo = ucast (drop_bit 10 h) AND 0x1f;
          mant = ucast h AND 0x3ff :: 32 word
      in if expo = 0
         then if mant = 0 then Some (push_bit 31 sign)
              else case normalise_loop mant 0 of
                     None \<Rightarrow> None
                   | Some (m, e) \<Rightarrow>
                       let m' = m AND 0x3ff
                       in Some (push_bit 31 sign OR push_bit 23 (word_of_int (127 - 15 - e)) OR push_bit 13 m')
         else if expo = 0x1f then Some (push_bit 31 sign OR push_bit 23 0xff OR push_bit 13 mant)
         else Some (push_bit 31 sign OR push_bit 23 (expo - 15 + 127) OR push_bit 13 mant))"

section \<open>What the patterns denote\<close>

text \<open>A binary format with \<open>eb\<close> exponent bits and \<open>mb\<close> mantissa bits; infinities and NaNs have no value.\<close>

definition float_value :: "nat \<Rightarrow> nat \<Rightarrow> nat \<Rightarrow> nat \<Rightarrow> nat \<Rightarrow> real option" where
  "float_value eb mb s e m =
     (let bias = 2 ^ (eb - 1) - 1 :: int; sg = (if s = 0 then 1 else - 1)
      in if e = 2 ^ eb - 1 then None
         else if e = 0 then Some (sg * (real m / 2 ^ mb) * 2 powi (1 - bias))
         else Some (sg * (1 + real m / 2 ^ mb) * 2 powi (int e - bias)))"

definition f32_value :: "32 word \<Rightarrow> real option" where
  "f32_value u = float_value 8 23 (unat (drop_bit 31 u)) (unat (take_bit 8 (drop_bit 23 u))) (unat (take_bit 23 u))"

definition f16_value :: "16 word \<Rightarrow> real option" where
  "f16_value h = float_value 5 10 (unat (drop_bit 15 h)) (unat (take_bit 5 (drop_bit 10 h))) (unat (take_bit 10 h))"

definition bf16_value :: "16 word \<Rightarrow> real option" where
  "bf16_value h = float_value 8 7 (unat (drop_bit 15 h)) (unat (take_bit 8 (drop_bit 7 h))) (unat (take_bit 7 h))"

lemma f32_fields:
  fixes s e m :: "32 word"
  assumes "take_bit 1 s = s" "take_bit 8 e = e" "take_bit 23 m = m"
  defines "u \<equiv> push_bit 31 s OR push_bit 23 e OR m"
  shows "drop_bit 31 u = s" "take_bit 8 (drop_bit 23 u) = e" "take_bit 23 u = m"
proof -
  have b: "bit s n \<Longrightarrow> n < 1" "bit e n \<Longrightarrow> n < 8" "bit m n \<Longrightarrow> n < 23" for n
    using assms(1-3) by (metis bit_take_bit_iff)+
  show "drop_bit 31 u = s" 
    by (rule bit_word_eqI) (auto simp: u_def bit_simps dest: b)
  show "take_bit 8 (drop_bit 23 u) = e"
    by (rule bit_word_eqI) (auto simp: u_def bit_simps dest: b)
  show "take_bit 23 u = m"
    by (rule bit_word_eqI) (auto simp: u_def bit_simps dest: b)
qed

lemma unat_ucast_up: "unat (ucast (h :: 16 word) :: 32 word) = unat h"
  by (simp add: unsigned_ucast_eq unsigned_take_bit_eq [symmetric] take_bit_word_eq_self)

lemma unat_push_bit:
  fixes m :: "32 word"
  assumes "unat m * 2 ^ k < 2 ^ 32"
  shows "unat (push_bit k m) = unat m * 2 ^ k"
  unfolding unsigned_push_bit_eq using assms by (simp add: push_bit_eq_mult take_bit_eq_mod)

lemma unat_take_bit_less: "unat (take_bit k (w :: 'a :: len word)) < 2 ^ k"
  by (simp add: unsigned_take_bit_eq)

lemma bf16_fields:
  "drop_bit 31 (bf16_to_f32 h) = ucast (drop_bit 15 h)"
  "take_bit 8 (drop_bit 23 (bf16_to_f32 h)) = ucast (take_bit 8 (drop_bit 7 h))"
  "take_bit 23 (bf16_to_f32 h) = push_bit 16 (ucast (take_bit 7 h))"
  by (rule bit_word_eqI; auto simp: bf16_to_f32_def bit_simps dest: bit_imp_le_length)+

lemma and_0x400: "unat (m :: 32 word) < 2048 \<Longrightarrow> m AND 0x400 = 0 \<longleftrightarrow> unat m < 1024"
proof -
  assume m: "unat m < 2048"
  have "(0x400 :: 32 word) = 2 ^ 10" by simp
  then have "m AND 0x400 = 0 \<longleftrightarrow> \<not> bit m 10" by (simp only: and_exp_eq_0_iff_not_bit)
  also have "bit m 10 \<longleftrightarrow> odd (unat m div 1024)"
    using bit_unsigned_iff [of m 10, where 'a = nat] by (simp add: bit_iff_odd)
  also have "\<dots> \<longleftrightarrow> unat m div 1024 = 1" using m by (auto simp: less_mult_imp_div_less elim!: oddE)
  finally show ?thesis using m by auto
qed

lemma normalise_loop_returns:
  "0 < unat m \<Longrightarrow> unat m < 2048 \<Longrightarrow> 1024 \<le> unat m * 2 ^ d \<Longrightarrow>
     \<exists>j \<le> d. normalise_loop m e = Some (push_bit j m, e - int j) \<and> 1024 \<le> unat m * 2 ^ j \<and> unat m * 2 ^ j < 2048 \<and>
       (unat m < 1024 \<longrightarrow> 1 \<le> j)"
proof (induction d arbitrary: m e)
  case 0
  then show ?case using and_0x400 [of m] by (subst normalise_loop.simps) auto
next
  case (Suc d)
  show ?case
  proof (cases "unat m < 1024")
    case False
    then show ?thesis using and_0x400 [of m] Suc.prems by (subst normalise_loop.simps) (auto intro!: exI [of _ 0])
  next
    case True
    have u: "unat (push_bit 1 m) = 2 * unat m" using unat_push_bit [of m 1] True by simp
    have "\<exists>j \<le> d. normalise_loop (push_bit 1 m) (e - 1) = Some (push_bit j (push_bit 1 m), e - 1 - int j) \<and>
        1024 \<le> unat (push_bit 1 m) * 2 ^ j \<and> unat (push_bit 1 m) * 2 ^ j < 2048 \<and> (unat (push_bit 1 m) < 1024 \<longrightarrow> 1 \<le> j)"
      by (rule Suc.IH) (use Suc.prems True u in simp_all)
    then obtain j where j: "j \<le> d" "normalise_loop (push_bit 1 m) (e - 1) = Some (push_bit j (push_bit 1 m), e - 1 - int j)"
      "1024 \<le> 2 * unat m * 2 ^ j" "2 * unat m * 2 ^ j < 2048" unfolding u by blast
    have "normalise_loop m e = Some (push_bit (Suc j) m, e - int (Suc j))"
      using j(2) and_0x400 [of m] True Suc.prems(2)
      by (subst normalise_loop.simps) (simp add: algebra_simps)
    then show ?thesis using j by (intro exI [of _ "Suc j"]) (simp add: mult.assoc)
  qed
qed

text \<open>The fields the code extracts from a half.\<close>

abbreviation half_sign :: "16 word \<Rightarrow> 32 word" where
  "half_sign h \<equiv> ucast (drop_bit 15 h)"

abbreviation half_exp :: "16 word \<Rightarrow> 32 word" where
  "half_exp h \<equiv> ucast (take_bit 5 (drop_bit 10 h))"

abbreviation half_mant :: "16 word \<Rightarrow> 32 word" where
  "half_mant h \<equiv> ucast (take_bit 10 h)"

lemma and_masks:
  "(w :: 32 word) AND 0x1f = take_bit 5 w" "w AND 0x3ff = take_bit 10 w" "w AND 0x1 = take_bit 1 w"
  by (simp_all add: take_bit_eq_mask mask_eq_exp_minus_1)

lemma take_bit_small: "unat (w :: 32 word) < 2 ^ k \<Longrightarrow> take_bit k w = w"
  by (simp add: word_unat_eq_iff unsigned_take_bit_eq take_bit_nat_eq_self)

lemma unat_sign: "unat (drop_bit 15 (h :: 16 word)) < 2"
  unfolding unsigned_drop_bit_eq using unsigned_less [of h, where 'a = nat]
  by (simp add: drop_bit_eq_div take_bit_nat_eq_self less_mult_imp_div_less)

lemma half_fields:
  "take_bit 1 (ucast (drop_bit 15 h)) = half_sign h"
  "take_bit 5 (ucast (drop_bit 10 h)) = half_exp h"
  "take_bit 10 (ucast h) = half_mant h"
proof -
  show "take_bit 1 (ucast (drop_bit 15 h)) = half_sign h"
    by (rule take_bit_small) (use unat_sign [of h] in \<open>simp add: unat_ucast_up\<close>)
  show "take_bit 5 (ucast (drop_bit 10 h)) = half_exp h" "take_bit 10 (ucast h) = half_mant h"
    by (rule bit_word_eqI; auto simp: bit_simps dest: bit_imp_le_length)+
qed

lemma f16_to_f32_cases:
  "f16_to_f32 h =
     (if half_exp h = 0
      then if half_mant h = 0 then Some (push_bit 31 (half_sign h))
           else case normalise_loop (half_mant h) 0 of
                  None \<Rightarrow> None
                | Some (m, e) \<Rightarrow> Some (push_bit 31 (half_sign h) OR push_bit 23 (word_of_int (112 - e)) OR push_bit 13 (take_bit 10 m))
      else if half_exp h = 0x1f then Some (push_bit 31 (half_sign h) OR push_bit 23 0xff OR push_bit 13 (half_mant h))
      else Some (push_bit 31 (half_sign h) OR push_bit 23 (half_exp h + 112) OR push_bit 13 (half_mant h)))"
proof -
  have "(127 :: int) - 15 - e = 112 - e" "(w :: 32 word) - 15 + 127 = w + 112" for e w by simp_all
  then show ?thesis unfolding f16_to_f32_def and_masks half_fields Let_def by (simp only:)
qed

lemma half_bounds:
  "unat (half_sign h) = unat (drop_bit 15 h)" "unat (half_exp h) = unat (take_bit 5 (drop_bit 10 h))"
  "unat (half_mant h) = unat (take_bit 10 h)" "unat (half_exp h) < 32" "unat (half_mant h) < 1024"
  "take_bit 1 (half_sign h) = half_sign h"
  using unat_take_bit_less [of 5 "drop_bit 10 h"] unat_take_bit_less [of 10 h]
  by (simp_all only: unat_ucast_up half_fields) simp_all

text \<open>The value of a pattern that the code assembles from a sign, an exponent and a 10-bit mantissa.\<close>

lemma assembled_value:
  assumes "unat e < 256" and "unat m < 1024"
  shows "f32_value (push_bit 31 (half_sign h) OR push_bit 23 e OR push_bit 13 m) =
    float_value 8 23 (unat (drop_bit 15 h)) (unat e) (unat m * 2 ^ 13)"
proof -
  have m: "unat (push_bit 13 m) = unat m * 2 ^ 13" using unat_push_bit [of m 13] assms(2) by simp
  have "take_bit 8 e = e" "take_bit 23 (push_bit 13 m) = push_bit 13 m"
    using assms m by (simp_all add: take_bit_small)
  note f = f32_fields [OF half_bounds(6) this]
  show ?thesis unfolding f32_value_def f using m half_bounds(1) by simp
qed

lemma float_value_widen:
  assumes "e \<noteq> 0" and "e < 31"
  shows "float_value 8 23 s (e + 112) (m * 2 ^ 13) = float_value 5 10 s e m"
proof -
  have "int (e + 112) - 127 = int e - 15" by simp
  then show ?thesis using assms by (simp add: float_value_def Let_def)
qed

lemma unat_exp_shift: "unat (w :: 32 word) < 32 \<Longrightarrow> unat (w + 112) = unat w + 112"
  by (simp add: unat_word_ariths)

lemma f16_normal_value:
  assumes "half_exp h = 0 \<Longrightarrow> half_mant h = 0"
  shows "\<exists>u. f16_to_f32 h = Some u \<and> f32_value u = f16_value h"
proof -
  note b = half_bounds [of h]
  have z: "half_exp h = 0 \<longleftrightarrow> unat (take_bit 5 (drop_bit 10 h)) = 0"
    "half_exp h = 31 \<longleftrightarrow> unat (take_bit 5 (drop_bit 10 h)) = 31"
    unfolding word_unat_eq_iff b(2) by simp_all
  consider "half_exp h = 0" | "half_exp h = 31" | "half_exp h \<noteq> 0" "half_exp h \<noteq> 31" by blast
  then show ?thesis
  proof cases
    case 1
    then have m: "half_mant h = 0" using assms by simp
    then have m0: "unat (take_bit 10 h) = 0" using b(3) by simp
    have "f16_to_f32 h = Some (push_bit 31 (half_sign h) OR push_bit 23 0 OR push_bit 13 0)"
      using f16_to_f32_cases [of h] 1 m by simp
    moreover have "f32_value (push_bit 31 (half_sign h) OR push_bit 23 0 OR push_bit 13 0) = f16_value h"
      using assembled_value [of 0 0 h] 1 z m0 by (simp add: f16_value_def float_value_def)
    ultimately show ?thesis by blast
  next
    case 2
    then have "f16_to_f32 h = Some (push_bit 31 (half_sign h) OR push_bit 23 0xff OR push_bit 13 (half_mant h))"
      using f16_to_f32_cases [of h] by simp
    moreover have "f32_value (push_bit 31 (half_sign h) OR push_bit 23 0xff OR push_bit 13 (half_mant h)) = f16_value h"
      using assembled_value [of "0xff" "half_mant h" h] b(5) 2 z by (simp add: f16_value_def float_value_def)
    ultimately show ?thesis by blast
  next
    case 3
    let ?e = "unat (take_bit 5 (drop_bit 10 h))"
    have "?e \<noteq> 0" "?e \<noteq> 31" using 3 z by (simp_all only: not_False_eq_True)
    moreover have "?e < 32" using b(2,4) by (simp only:)
    ultimately have e: "?e \<noteq> 0" "?e < 31" by linarith+
    have ue: "unat (half_exp h + 112) = ?e + 112"
      using unat_exp_shift [OF b(4)] b(2) by (simp only:)
    have "f16_to_f32 h = Some (push_bit 31 (half_sign h) OR push_bit 23 (half_exp h + 112) OR push_bit 13 (half_mant h))"
      using f16_to_f32_cases [of h] 3 by simp
    moreover have "f32_value (push_bit 31 (half_sign h) OR push_bit 23 (half_exp h + 112) OR push_bit 13 (half_mant h)) = f16_value h"
      using assembled_value [of "half_exp h + 112" "half_mant h" h] b(3,5) ue e float_value_widen [OF e]
      by (simp add: f16_value_def)
    ultimately show ?thesis by blast
  qed
qed

lemma scale_aux:
  fixes g M P Q r t d k :: real
  assumes "M = r * t / d" and "t * P = k * Q"
  shows "g * M * P = k * (g * (r / d) * Q)"
proof -
  have "g * M * P = g * (r / d) * (t * P)" by (simp add: assms(1))
  then show ?thesis unfolding assms(2) by simp
qed

lemma f16_subnormal_value:
  assumes "half_exp h = 0" and "half_mant h \<noteq> 0"
  shows "\<exists>u x y j. f16_to_f32 h = Some u \<and> f16_value h = Some x \<and> f32_value u = Some y \<and>
    x \<noteq> 0 \<and> 1 \<le> j \<and> j \<le> (10 :: nat) \<and> y = 2 ^ (2 * j - 1) * x"
proof -
  note b = half_bounds [of h]
  let ?m = "unat (take_bit 10 h)" and ?s = "unat (drop_bit 15 h)"
  have m: "0 < unat (half_mant h)" "unat (half_mant h) < 2048" "1024 \<le> unat (half_mant h) * 2 ^ 10"
    using assms(2) b(5) by (auto simp: word_unat_eq_iff)
  obtain j where j: "j \<le> 10" "normalise_loop (half_mant h) 0 = Some (push_bit j (half_mant h), 0 - int j)"
    "1024 \<le> ?m * 2 ^ j" "?m * 2 ^ j < 2048" "1 \<le> j"
    using normalise_loop_returns [OF m, of 0] b(3,5) by auto
  let ?e = "word_of_int (112 + int j) :: 32 word" and ?t = "take_bit 10 (push_bit j (half_mant h))"
  have e: "unat ?e = 112 + j"
  proof -
    have "?e = word_of_nat (112 + j)" by simp
    then show ?thesis using j(1) by (simp only: unsigned_of_nat) (simp add: take_bit_nat_eq_self)
  qed
  have "unat (push_bit j (half_mant h)) = ?m * 2 ^ j"
    using unat_push_bit [of "half_mant h" j] j(4) b(3) by simp
  moreover have "take_bit 10 k = k - 1024" if "1024 \<le> k" "k < 2048" for k :: nat
    using that by (simp add: take_bit_eq_mod mod_if)
  moreover have "unat ?t = take_bit 10 (unat (push_bit j (half_mant h)))" by (rule unsigned_take_bit_eq)
  ultimately have t: "unat ?t = ?m * 2 ^ j - 1024" using j(3,4) by (simp only:)
  let ?u = "push_bit 31 (half_sign h) OR push_bit 23 ?e OR push_bit 13 ?t"
  have u: "f16_to_f32 h = Some ?u"
    using f16_to_f32_cases [of h] assms j(2) by simp
  define g :: real where "g = (if ?s = 0 then 1 else - 1)"
  have y: "f32_value ?u = Some (g * (1 + real ((?m * 2 ^ j - 1024) * 2 ^ 13) / 2 ^ 23) * 2 powi (int j - 15))"
    using assembled_value [of ?e ?t h] e t j(1,3,4) by (simp add: float_value_def g_def Let_def)
  have e0: "unat (take_bit 5 (drop_bit 10 h)) = 0" using assms(1) b(2) by simp
  have x: "f16_value h = Some (g * (real ?m / 2 ^ 10) * 2 powi (- 14))"
    using e0 by (simp add: f16_value_def float_value_def g_def)
  have "1 + real ((?m * 2 ^ j - 1024) * 2 ^ 13) / 2 ^ 23 = real ?m * 2 ^ j / 2 ^ 10"
    using j(3) by (simp add: of_nat_diff field_simps)
  moreover have "2 ^ j * 2 powi (int j - 15) = (2 ^ (2 * j - 1) * 2 powi (- 14) :: real)"
  proof -
    obtain i where i: "j = Suc i" using j(5) by (cases j) auto
    define q :: real where "q = 2 powi (- 14)"
    have "2 powi (int i + (- 14)) = (2 powi int i * 2 powi (- 14) :: real)" by (rule power_int_add) simp
    moreover have "int j - 15 = int i + (- 14)" using i by simp
    ultimately have P: "2 powi (int j - 15) = 2 ^ i * q" unfolding q_def by (simp only: power_int_of_nat)
    have J: "2 * j - 1 = j + i" using i by simp
    show ?thesis unfolding q_def [symmetric] P J power_add by (simp only: mult_ac)
  qed
  ultimately have "g * (1 + real ((?m * 2 ^ j - 1024) * 2 ^ 13) / 2 ^ 23) * 2 powi (int j - 15) =
      2 ^ (2 * j - 1) * (g * (real ?m / 2 ^ 10) * 2 powi (- 14))" by (rule scale_aux)
  moreover have "g * (real ?m / 2 ^ 10) * 2 powi (- 14) \<noteq> 0"
  proof -
    have "0 < ?m" using m(1) b(3) by (simp only:)
    then have "0 < real ?m" by (simp only: of_nat_0_less_iff)
    moreover have "g \<noteq> 0" by (simp add: g_def)
    ultimately have "g \<noteq> 0 \<and> 0 < real ?m / 2 ^ 10 \<and> 0 < (2 powi (- 14) :: real)" by (simp only: zero_less_divide_iff) simp
    then show ?thesis by (metis less_irrefl mult_eq_0_iff)
  qed
  ultimately show ?thesis using u x y j(1,5) by (intro exI conjI) (rule u, rule x, rule y, assumption+)
qed


lemma bf16_value_eq: "f32_value (bf16_to_f32 h) = bf16_value h"
proof -
  have m: "unat (take_bit 7 h) < 2 ^ 7" by (rule unat_take_bit_less)
  then have "unat (push_bit 16 (ucast (take_bit 7 h) :: 32 word)) = unat (take_bit 7 h) * 2 ^ 16"
    using unat_push_bit [of "ucast (take_bit 7 h)" 16] by (simp add: unat_ucast_up)
  then show ?thesis
    unfolding f32_value_def bf16_value_def bf16_fields unat_ucast_up by (simp add: float_value_def Let_def)
qed

section \<open>Properties\<close>

text \<open>
  The conversion of a bfloat16 is exact: the resulting \<^verbatim>\<open>float\<close> denotes the same number, and
  infinities and NaNs stay without a value.
\<close>

theorem bf16_exact: "f32_value (bf16_to_f32 h) = bf16_value h"
  by (rule bf16_value_eq)

text \<open>
  C31: the conversion of an IEEE half returns, and it is exact for every half that is not subnormal.
\<close>

theorem f16_exact_unless_subnormal:
  assumes "take_bit 5 (drop_bit 10 h) = 0 \<longrightarrow> take_bit 10 h = 0"
  shows "\<exists>u. f16_to_f32 h = Some u \<and> f32_value u = f16_value h"
proof (rule f16_normal_value)
  assume "half_exp h = 0"
  then have "take_bit 5 (drop_bit 10 h) = 0" using half_bounds(2) [of h] by (simp add: word_unat_eq_iff)
  then show "half_mant h = 0" using assms by simp
qed

theorem f16_exact_unless_subnormal_witness:
  "\<exists>u. f16_to_f32 0xC100 = Some u \<and> f32_value u = f16_value 0xC100"
  by (rule f16_exact_unless_subnormal) simp

text \<open>
  C32: every subnormal half is converted to a wrong number: the exponent is built with the wrong sign
  (\<^verbatim>\<open>127 - 15 - e\<close> with a negative \<^verbatim>\<open>e\<close>), and the result is \<open>2 ^ (2 j - 1)\<close> times too large, where \<open>j\<close>
  is the number of shifts that normalise the mantissa.
\<close>

theorem f16_subnormal_too_large:
  assumes "take_bit 5 (drop_bit 10 h) = 0" and "take_bit 10 h \<noteq> 0"
  shows "\<exists>u x y j. f16_to_f32 h = Some u \<and> f16_value h = Some x \<and> f32_value u = Some y \<and>
    x \<noteq> 0 \<and> 1 \<le> j \<and> j \<le> (10 :: nat) \<and> y = 2 ^ (2 * j - 1) * x"
proof (rule f16_subnormal_value)
  show "half_exp h = 0" using assms(1) by simp
  show "half_mant h \<noteq> 0" using half_bounds(3) [of h] assms(2) by (simp add: word_unat_eq_iff)
qed

theorem f16_subnormal_too_large_witness:
  "\<exists>u x y j. f16_to_f32 1 = Some u \<and> f16_value 1 = Some x \<and> f32_value u = Some y \<and>
    x \<noteq> 0 \<and> 1 \<le> j \<and> j \<le> (10 :: nat) \<and> y = 2 ^ (2 * j - 1) * x"
  by (rule f16_subnormal_too_large) simp_all

end
