(* ===== verification/Floats.thy ===== *)
theory Floats
  imports Dtype Prelude
begin

text \<open>
  Floats in memory and in byte buffers. The host is little-endian. Arithmetic on \<^verbatim>\<open>float\<close> is
  idealised: a number is the real it denotes.
\<close>

section \<open>Reading and writing\<close>

definition read_u16 :: "memory \<Rightarrow> nat \<Rightarrow> 16 word" where
  "read_u16 m a = word_of_nat (unat (m a) + 256 * unat (m (a + 1)))"

definition read_u32 :: "memory \<Rightarrow> nat \<Rightarrow> 32 word" where
  "read_u32 m a = word_of_nat (unat (m a) + 256 * unat (m (a + 1)) + 65536 * unat (m (a + 2)) + 16777216 * unat (m (a + 3)))"

definition u32_byte :: "32 word \<Rightarrow> nat \<Rightarrow> byte" where
  "u32_byte w i = word_of_nat (unat w div 256 ^ i)"

text \<open>Writing the elements of a \<^verbatim>\<open>std::vector<float>\<close> to its storage.\<close>

definition store_floats :: "memory \<Rightarrow> nat \<Rightarrow> 32 word list \<Rightarrow> memory" where
  "store_floats m p ws =
     (\<lambda>a. if a \<in> span p (4 * length ws) then u32_byte (ws ! ((a - p) div 4)) ((a - p) mod 4) else m a)"

text \<open>Infinities and NaNs do not occur in weights; they are read as zero.\<close>

definition f32_real :: "32 word \<Rightarrow> real" where
  "f32_real w = (case f32_value w of None \<Rightarrow> 0 | Some r \<Rightarrow> r)"

definition load_floats :: "memory \<Rightarrow> nat \<Rightarrow> nat \<Rightarrow> real list" where
  "load_floats m p n = map (\<lambda>i. f32_real (read_u32 m (p + 4 * i))) [0 ..< n]"

text \<open>The same for a buffer held as a list of bytes.\<close>

definition buffer_floats :: "byte list \<Rightarrow> nat \<Rightarrow> real list" where
  "buffer_floats bs n = load_floats (\<lambda>a. bs ! a) 0 n"

section \<open>Lemmas\<close>

lemma load_floats_length [simp]: "length (load_floats m p n) = n"
  by (simp add: load_floats_def)

lemma buffer_floats_length [simp]: "length (buffer_floats bs n) = n"
  by (simp add: buffer_floats_def)

lemma load_floats_cong:
  assumes "\<And>i. i < 4 * k \<Longrightarrow> m (p + i) = m' (q + i)"
  shows "load_floats m p k = load_floats m' q k"
proof -
  have "read_u32 m (p + 4 * i) = read_u32 m' (q + 4 * i)" if "i < k" for i
    using assms [of "4 * i"] assms [of "4 * i + 1"] assms [of "4 * i + 2"] assms [of "4 * i + 3"] that
    by (simp add: read_u32_def add.assoc)
  then show ?thesis by (simp add: load_floats_def)
qed

lemma unat_byte: "unat (word_of_nat k :: byte) = k mod 256"
  by (simp add: unsigned_of_nat take_bit_eq_mod)

lemma digits_256: "(\<Sum>i \<leftarrow> [0 ..< k]. (n div 256 ^ i mod 256) * 256 ^ i) = n mod 256 ^ k" for n :: nat
proof (induction k)
  case (Suc k)
  have "n mod 256 ^ Suc k = 256 ^ k * (n div 256 ^ k mod 256) + n mod 256 ^ k"
    by (simp only: power_Suc2 mod_mult2_eq)
  then show ?case using Suc by simp
qed simp

lemma bytes_of_nat32:
  fixes n :: nat
  assumes "n < 4294967296"
  shows "n mod 256 + 256 * (n div 256 mod 256) + 65536 * (n div 65536 mod 256) + 16777216 * (n div 16777216 mod 256) = n"
proof -
  have "[0 ..< 4] = [0, 1, 2, 3 :: nat]" by (simp add: upt_rec)
  then show ?thesis using digits_256 [of n 4] assms by (simp del: upt_rec_numeral)
qed

lemma read_u32_bytes:
  assumes "\<And>i. i < 4 \<Longrightarrow> m (p + i) = u32_byte w i"
  shows "read_u32 m p = w"
proof -
  have w: "unat w < 4294967296" using unsigned_less [of w] by simp
  have b: "unat (m (p + i)) = unat w div 256 ^ i mod 256" if "i < 4" for i
    using assms [OF that] by (simp only: u32_byte_def unat_byte)
  have "unat (m p) + 256 * unat (m (p + 1)) + 65536 * unat (m (p + 2)) + 16777216 * unat (m (p + 3)) =
      unat w mod 256 + 256 * (unat w div 256 mod 256) + 65536 * (unat w div 65536 mod 256) + 16777216 * (unat w div 16777216 mod 256)"
    using b [of 0] b [of 1] b [of 2] b [of 3] by simp
  then show ?thesis unfolding read_u32_def bytes_of_nat32 [OF w] by simp
qed

lemma load_store_floats: "load_floats (store_floats m p ws) p (length ws) = map f32_real ws"
proof -
  have "read_u32 (store_floats m p ws) (p + 4 * j) = ws ! j" if "j < length ws" for j
  proof (rule read_u32_bytes)
    fix i :: nat assume i: "i < 4"
    have d: "(p + 4 * j + i - p) div 4 = j" "(p + 4 * j + i - p) mod 4 = i" using i by simp_all
    have "p + 4 * j + i \<in> span p (4 * length ws)" using that i by simp
    then show "store_floats m p ws (p + 4 * j + i) = u32_byte (ws ! j) i"
      unfolding store_floats_def d by (simp only: if_True)
  qed
  then show ?thesis by (intro nth_equalityI) (simp_all add: load_floats_def)
qed

lemma store_floats_outside: "a \<notin> span p (4 * length ws) \<Longrightarrow> store_floats m p ws a = m a"
  by (simp add: store_floats_def del: mem_span)

end
