(* ===== verification/JsonMin.thy ===== *)
theory JsonMin
  imports Complex_Main Prelude
begin

text \<open>
  The JSON reader \<^verbatim>\<open>dee::json\<close> of \<^verbatim>\<open>include/dee/json_min.h\<close> and \<^verbatim>\<open>src/json_min.cpp\<close>. The
  parser's position is the unread suffix of the text (a position at or past the end is the empty
  suffix, where \<^verbatim>\<open>peek\<close> returns the null character); its sticky \<^verbatim>\<open>error\<close> flag is threaded through.
  \<^verbatim>\<open>std::stoll\<close> and \<^verbatim>\<open>std::stod\<close> throw, nothing catches, so an exception is an outcome of its own.
  The value of a \<^verbatim>\<open>Float\<close> is kept before its rounding to \<^verbatim>\<open>double\<close>.
\<close>

section \<open>Values\<close>

datatype Value =
    JNull
  | JBool bool
  | JInt int
  | JFloat rat
  | JStr string
  | JArray "Value list"
  | JObject "(string \<times> Value) list"

definition is_object :: "Value \<Rightarrow> bool" where
  "is_object v = (case v of JObject _ \<Rightarrow> True | _ \<Rightarrow> False)"

definition is_array :: "Value \<Rightarrow> bool" where
  "is_array v = (case v of JArray _ \<Rightarrow> True | _ \<Rightarrow> False)"

definition is_string :: "Value \<Rightarrow> bool" where
  "is_string v = (case v of JStr _ \<Rightarrow> True | _ \<Rightarrow> False)"

definition is_int :: "Value \<Rightarrow> bool" where
  "is_int v = (case v of JInt _ \<Rightarrow> True | _ \<Rightarrow> False)"

text \<open>Reading a field of the struct that the value's type does not set gives the field's default.\<close>

definition val_i :: "Value \<Rightarrow> int" where
  "val_i v = (case v of JInt i \<Rightarrow> i | _ \<Rightarrow> 0)"

definition val_s :: "Value \<Rightarrow> string" where
  "val_s v = (case v of JStr s \<Rightarrow> s | _ \<Rightarrow> [])"

definition val_arr :: "Value \<Rightarrow> Value list" where
  "val_arr v = (case v of JArray xs \<Rightarrow> xs | _ \<Rightarrow> [])"

definition val_obj :: "Value \<Rightarrow> (string \<times> Value) list" where
  "val_obj v = (case v of JObject kvs \<Rightarrow> kvs | _ \<Rightarrow> [])"

definition json_find :: "Value \<Rightarrow> string \<Rightarrow> Value option" where
  "json_find v key = (case v of JObject kvs \<Rightarrow> map_of kvs key | _ \<Rightarrow> None)"

text \<open>\<^verbatim>\<open>std::map<std::string, ...>\<close>: entries in the order of \<^verbatim>\<open>std::string\<close>, one per key.\<close>

abbreviation code_of :: "char \<Rightarrow> nat" where
  "code_of c \<equiv> of_char c"

fun str_less :: "string \<Rightarrow> string \<Rightarrow> bool" where
  "str_less _ [] = False"
| "str_less [] (_ # _) = True"
| "str_less (a # as) (b # bs) = (code_of a < code_of b \<or> a = b \<and> str_less as bs)"

fun map_set :: "string \<Rightarrow> 'v \<Rightarrow> (string \<times> 'v) list \<Rightarrow> (string \<times> 'v) list" where
  "map_set k v [] = [(k, v)]"
| "map_set k v ((k', v') # kvs) =
     (if k = k' then (k, v) # kvs
      else if str_less k k' then (k, v) # (k', v') # kvs
      else (k', v') # map_set k v kvs)"

section \<open>Characters and numbers\<close>

definition isspace :: "char \<Rightarrow> bool" where
  "isspace c \<longleftrightarrow> code_of c = 32 \<or> 9 \<le> code_of c \<and> code_of c \<le> 13"

definition isdigit :: "char \<Rightarrow> bool" where
  "isdigit c \<longleftrightarrow> 48 \<le> code_of c \<and> code_of c \<le> 57"

definition digits_value :: "string \<Rightarrow> nat" where
  "digits_value ds = foldl (\<lambda>a c. 10 * a + (code_of c - 48)) 0 ds"

definition is_int64 :: "int \<Rightarrow> bool" where
  "is_int64 x \<longleftrightarrow> - (2 ^ 63) \<le> x \<and> x < 2 ^ 63"

definition split_sign :: "string \<Rightarrow> bool \<times> string" where
  "split_sign s =
     (case s of
        [] \<Rightarrow> (False, [])
      | c # r \<Rightarrow> if c = CHR ''-'' then (True, r) else if c = CHR ''+'' then (False, r) else (False, s))"

text \<open>\<^verbatim>\<open>std::stoll\<close>: an optional sign and the longest prefix of digits.\<close>

definition stoll :: "string \<Rightarrow> exn + int" where
  "stoll s =
     (case split_sign s of (neg, r) \<Rightarrow>
        let ds = takeWhile isdigit r;
            v = (if neg then - int (digits_value ds) else int (digits_value ds))
        in if ds = [] then Inl Invalid_argument
           else if is_int64 v then Inr v else Inl Out_of_range)"

text \<open>
  \<^verbatim>\<open>std::stod\<close> on the characters a number token can hold (no hexadecimal, infinity or NaN):
  sign, digits with an optional point, and an exponent if it has digits. Overflow, and a
  subnormal result that is not exact, set \<^verbatim>\<open>ERANGE\<close> and throw.
\<close>

definition read_exponent :: "string \<Rightarrow> int" where
  "read_exponent s =
     (case s of
        [] \<Rightarrow> 0
      | c # r \<Rightarrow>
          if c = CHR ''e'' \<or> c = CHR ''E''
          then case split_sign r of (neg, r') \<Rightarrow>
                 let x = int (digits_value (takeWhile isdigit r')) in if neg then - x else x
          else 0)"

definition double_range :: "rat \<Rightarrow> bool" where
  "double_range v \<longleftrightarrow> \<bar>v\<bar> < 2 ^ 1024 - 2 ^ 970 \<and>
     (1 \<le> \<bar>v\<bar> * 2 ^ 1022 \<or> snd (quotient_of (v * 2 ^ 1074)) = 1)"

definition stod :: "string \<Rightarrow> exn + rat" where
  "stod s =
     (case split_sign s of (neg, r) \<Rightarrow>
        let ip = takeWhile isdigit r;
            r1 = dropWhile isdigit r;
            pt = (r1 \<noteq> [] \<and> hd r1 = CHR ''.'');
            fp = (if pt then takeWhile isdigit (tl r1) else []);
            r2 = (if pt then dropWhile isdigit (tl r1) else r1);
            x = read_exponent r2 - int (length fp);
            m = of_nat (digits_value (ip @ fp)) * (if 0 \<le> x then 10 ^ nat x else 1 / 10 ^ nat (- x));
            v = (if neg then - m else m)
        in if ip = [] \<and> fp = [] then Inl Invalid_argument
           else if double_range v then Inr v else Inl Out_of_range)"

section \<open>The parser\<close>

datatype 'a parsed = Out_of_fuel | Throws exn | Returns 'a string bool

definition peek :: "string \<Rightarrow> char" where
  "peek s = (case s of [] \<Rightarrow> CHR 0x00 | c # _ \<Rightarrow> c)"

definition skip_ws :: "string \<Rightarrow> string" where
  "skip_ws s = dropWhile isspace s"

definition unescape :: "char \<Rightarrow> char" where
  "unescape e =
     (if e = CHR ''n'' then CHR 0x0A else if e = CHR ''t'' then CHR 0x09
      else if e = CHR ''r'' then CHR 0x0D else e)"

text \<open>
  The loop of \<^verbatim>\<open>parse_string\<close>. A backslash at the very end of the text reads the terminating null
  character of the \<^verbatim>\<open>std::string\<close>; a missing closing quote is not an error.
\<close>

fun string_loop :: "string \<Rightarrow> string \<times> string" where
  "string_loop [] = ([], [])"
| "string_loop (c # s) =
     (if c = CHR 0x22 then ([], s)
      else if c = CHR 0x5C
      then case s of
             [] \<Rightarrow> ([CHR 0x00], [])
           | e # s' \<Rightarrow> (case string_loop s' of (out, r) \<Rightarrow> (unescape e # out, r))
      else case string_loop s of (out, r) \<Rightarrow> (c # out, r))"

definition parse_string :: "string \<Rightarrow> string \<times> string" where
  "parse_string s = string_loop (tl s)"

definition starts_with :: "string \<Rightarrow> string \<Rightarrow> bool" where
  "starts_with p s \<longleftrightarrow> take (length p) s = p"

definition parse_bool :: "string \<Rightarrow> bool \<Rightarrow> Value parsed" where
  "parse_bool s err =
     (if starts_with ''true'' s then Returns (JBool True) (drop 4 s) err
      else if starts_with ''false'' s then Returns (JBool False) (drop 5 s) err
      else Returns JNull s True)"

definition number_char :: "char \<Rightarrow> bool" where
  "number_char c \<longleftrightarrow> isdigit c \<or> c \<in> {CHR ''.'', CHR ''e'', CHR ''E'', CHR ''+'', CHR ''-''}"

definition parse_number :: "string \<Rightarrow> bool \<Rightarrow> Value parsed" where
  "parse_number s err =
     (let (sgn, r) = (if peek s = CHR ''-'' then ([CHR ''-''], tl s) else ([], s));
          num = sgn @ takeWhile number_char r;
          rest = dropWhile number_char r;
          is_float = (CHR ''.'' \<in> set num \<or> CHR ''e'' \<in> set num \<or> CHR ''E'' \<in> set num)
      in if is_float
         then case stod num of Inl e \<Rightarrow> Throws e | Inr v \<Rightarrow> Returns (JFloat v) rest err
         else case stoll num of Inl e \<Rightarrow> Throws e | Inr v \<Rightarrow> Returns (JInt v) rest err)"

text \<open>
  \<^verbatim>\<open>parse_value\<close> and the loops of \<^verbatim>\<open>parse_object\<close> and \<^verbatim>\<open>parse_array\<close>. Fuel bounds the recursion;
  \<open>parse_value_fuel\<close> shows that two units per character are enough.
\<close>

fun parse_value :: "nat \<Rightarrow> string \<Rightarrow> bool \<Rightarrow> Value parsed"
  and object_loop :: "nat \<Rightarrow> (string \<times> Value) list \<Rightarrow> string \<Rightarrow> bool \<Rightarrow> Value parsed"
  and array_loop :: "nat \<Rightarrow> Value list \<Rightarrow> string \<Rightarrow> bool \<Rightarrow> Value parsed" where
  "parse_value 0 s err = Out_of_fuel"
| "parse_value (Suc n) s0 err =
     (let s = skip_ws s0; c = peek s
      in if c = CHR ''{''
         then let r = skip_ws (tl s)
              in if peek r = CHR ''}'' then Returns (JObject []) (tl r) err else object_loop n [] r err
         else if c = CHR ''[''
         then let r = skip_ws (tl s)
              in if peek r = CHR '']'' then Returns (JArray []) (tl r) err else array_loop n [] r err
         else if c = CHR 0x22 then (case parse_string s of (str, r) \<Rightarrow> Returns (JStr str) r err)
         else if c = CHR ''t'' \<or> c = CHR ''f'' then parse_bool s err
         else if c = CHR ''-'' \<or> isdigit c then parse_number s err
         else Returns JNull s True)"
| "object_loop 0 kvs s err = Out_of_fuel"
| "object_loop (Suc n) kvs s0 err =
     (let s = skip_ws s0
      in if peek s \<noteq> CHR 0x22 then Returns (JObject kvs) s True
         else case parse_string s of (key, s1) \<Rightarrow>
           let s2 = skip_ws s1
           in if peek s2 \<noteq> CHR '':'' then Returns (JObject kvs) s2 True
              else case parse_value n (tl s2) err of
                     Out_of_fuel \<Rightarrow> Out_of_fuel
                   | Throws e \<Rightarrow> Throws e
                   | Returns val s3 err' \<Rightarrow>
                       let s4 = skip_ws s3; kvs' = map_set key val kvs
                       in if peek s4 = CHR '','' then object_loop n kvs' (tl s4) err'
                          else if peek s4 = CHR ''}'' then Returns (JObject kvs') (tl s4) err'
                          else Returns (JObject kvs') s4 True)"
| "array_loop 0 xs s err = Out_of_fuel"
| "array_loop (Suc n) xs s err =
     (case parse_value n s err of
        Out_of_fuel \<Rightarrow> Out_of_fuel
      | Throws e \<Rightarrow> Throws e
      | Returns val s1 err' \<Rightarrow>
          let s2 = skip_ws s1; xs' = xs @ [val]
          in if peek s2 = CHR '','' then array_loop n xs' (tl s2) err'
             else if peek s2 = CHR '']'' then Returns (JArray xs') (tl s2) err'
             else Returns (JArray xs') s2 True)"

text \<open>The entry point; by \<open>parse_value_fuel\<close> the first case cannot occur.\<close>

definition json_parse :: "string \<Rightarrow> exn + Value \<times> bool" where
  "json_parse text =
     (case parse_value (2 * length text + 1) text False of
        Out_of_fuel \<Rightarrow> Inl Invalid_argument
      | Throws e \<Rightarrow> Inl e
      | Returns v _ err \<Rightarrow> Inr (v, \<not> err))"

section \<open>Termination\<close>

lemma skip_ws_length: "length (skip_ws s) \<le> length s"
  by (simp add: skip_ws_def length_dropWhile_le)

lemma peek_nonempty: "peek s = c \<Longrightarrow> c \<noteq> CHR 0x00 \<Longrightarrow> s = c # tl s"
  by (auto simp: peek_def split: list.splits)

lemma string_loop_length: "length (snd (string_loop s)) \<le> length s"
proof (induction "length s" arbitrary: s rule: less_induct)
  case less
  then have "length (snd (string_loop t)) \<le> length s" if "length t < length s" for t
    using that by fastforce
  then show ?case
    by (cases s) (auto simp: case_prod_unfold split: list.split)
qed

lemma parse_string_length: "parse_string s = (x, r) \<Longrightarrow> length r \<le> length s - 1"
  using string_loop_length [of "tl s"] by (simp add: parse_string_def)

text \<open>The parser has returned or thrown, and it has not moved backwards.\<close>

definition settled :: "nat \<Rightarrow> 'a parsed \<Rightarrow> bool" where
  "settled k r = (case r of Out_of_fuel \<Rightarrow> False | Throws _ \<Rightarrow> True | Returns _ s _ \<Rightarrow> length s \<le> k)"

lemma settled_simps [simp]:
  "settled k (Returns v s e) \<longleftrightarrow> length s \<le> k" "settled k (Throws x)" "\<not> settled k Out_of_fuel"
  by (simp_all add: settled_def)

lemma settled_mono: "settled j r \<Longrightarrow> j \<le> k \<Longrightarrow> settled k r"
  by (auto simp: settled_def split: parsed.splits)

lemma parse_bool_settled: "settled (length s) (parse_bool s err)"
  by (simp add: parse_bool_def)

lemma parse_number_settled: "settled (length s) (parse_number s err)"
  using length_dropWhile_le [of number_char "tl s"] length_dropWhile_le [of number_char s]
  by (auto simp: parse_number_def Let_def split: sum.split)

lemma tl_ws_length: "peek (skip_ws s) = c \<Longrightarrow> c \<noteq> CHR 0x00 \<Longrightarrow> Suc (length (tl (skip_ws s))) \<le> length s"
  using skip_ws_length [of s] peek_nonempty [of "skip_ws s" c] by (metis length_Cons)

lemma object_step_settled:
  assumes v: "\<And>t. 2 * length t + 1 \<le> n \<Longrightarrow> settled (length t) (parse_value n t err)"
    and l: "\<And>kvs t err. 2 * length t + 1 \<le> n \<Longrightarrow> settled (length t) (object_loop n kvs t err)"
    and n: "2 * length s + 1 \<le> Suc n"
  shows "settled (length s) (object_loop (Suc n) kvs s err)"
proof (cases "peek (skip_ws s) = CHR 0x22")
  case False
  then show ?thesis by (simp add: skip_ws_length)
next
  case True
  obtain key s1 where ps: "parse_string (skip_ws s) = (key, s1)" by fastforce
  have s1: "length s1 + 1 \<le> length s"
    using parse_string_length [OF ps] tl_ws_length [OF True] by simp
  show ?thesis
  proof (cases "peek (skip_ws s1) = CHR '':''")
    case False
    then show ?thesis using True ps s1 skip_ws_length [of s1] by simp
  next
    case colon: True
    let ?t = "tl (skip_ws s1)"
    have t: "length ?t + 2 \<le> length s" using tl_ws_length [OF colon] s1 by simp
    have sv: "settled (length ?t) (parse_value n ?t err)" using v [of ?t] t n by simp
    show ?thesis
    proof (cases "parse_value n ?t err")
      case Out_of_fuel
      then show ?thesis using sv by simp
    next
      case (Throws x)
      then show ?thesis using True ps colon by simp
    next
      case (Returns val s3 err')
      then have s3: "length s3 \<le> length ?t" using sv by simp
      show ?thesis
      proof (cases "peek (skip_ws s3) = CHR '',''")
        case comma: True
        have r: "length (tl (skip_ws s3)) + 3 \<le> length s" using tl_ws_length [OF comma] s3 t by simp
        have "settled (length s) (object_loop n (map_set key val kvs) (tl (skip_ws s3)) err')"
          by (rule settled_mono [OF l]) (use r n in simp_all)
        then show ?thesis using True ps colon Returns comma by simp
      next
        case False
        then show ?thesis using True ps colon Returns s3 t skip_ws_length [of s3] by (auto simp: Let_def)
      qed
    qed
  qed
qed

lemma array_step_settled:
  assumes v: "settled (length s) (parse_value n s err)"
    and l: "\<And>xs t err. 2 * length t + 2 \<le> n \<Longrightarrow> settled (length t) (array_loop n xs t err)"
    and n: "2 * length s + 2 \<le> Suc n"
  shows "settled (length s) (array_loop (Suc n) xs s err)"
proof (cases "parse_value n s err")
  case (Returns val s1 err')
  then have s1: "length s1 \<le> length s" using v by simp
  show ?thesis
  proof (cases "peek (skip_ws s1) = CHR '',''")
    case comma: True
    have r: "length (tl (skip_ws s1)) + 1 \<le> length s" using tl_ws_length [OF comma] s1 by simp
    have "settled (length s) (array_loop n (xs @ [val]) (tl (skip_ws s1)) err')"
      by (rule settled_mono [OF l]) (use r n in simp_all)
    then show ?thesis using Returns comma by simp
  next
    case False
    then show ?thesis using Returns s1 skip_ws_length [of s1] by (auto simp: Let_def)
  qed
qed (use v in auto)

lemma value_step_settled:
  assumes o: "\<And>kvs t err. 2 * length t + 1 \<le> n \<Longrightarrow> settled (length t) (object_loop n kvs t err)"
    and a: "\<And>xs t err. 2 * length t + 2 \<le> n \<Longrightarrow> settled (length t) (array_loop n xs t err)"
    and n: "2 * length s + 1 \<le> Suc n"
  shows "settled (length s) (parse_value (Suc n) s err)"
proof -
  let ?s = "skip_ws s" and ?r = "skip_ws (tl (skip_ws s))"
  have r: "length ?r + 1 \<le> length s" if "peek ?s = CHR ''{'' \<or> peek ?s = CHR ''[''"
    using tl_ws_length [of s "peek ?s"] that skip_ws_length [of "tl ?s"] by auto
  consider "peek ?s = CHR ''{''" | "peek ?s = CHR ''[''" | "peek ?s = CHR 0x22"
    | "peek ?s = CHR ''t'' \<or> peek ?s = CHR ''f''"
    | "peek ?s = CHR ''-'' \<or> isdigit (peek ?s)"  "peek ?s \<notin> {CHR ''{'', CHR ''['', CHR 0x22, CHR ''t'', CHR ''f''}"
    | "peek ?s \<notin> {CHR ''{'', CHR ''['', CHR 0x22, CHR ''t'', CHR ''f'', CHR ''-''}" "\<not> isdigit (peek ?s)"
    by auto
  then show ?thesis
  proof cases
    case 1
    have "settled (length s) (object_loop n [] ?r err)"
      by (rule settled_mono [OF o]) (use r 1 n in simp_all)
    then show ?thesis using 1 r by (auto simp: Let_def)
  next
    case 2
    have "settled (length s) (array_loop n [] ?r err)"
      by (rule settled_mono [OF a]) (use r 2 n in simp_all)
    then show ?thesis using 2 r by (auto simp: Let_def)
  next
    case 3
    then show ?thesis using parse_string_length [of ?s] skip_ws_length [of s] by (auto split: prod.split)
  next
    case 4
    then show ?thesis using settled_mono [OF parse_bool_settled skip_ws_length] by auto
  next
    case 5
    then show ?thesis using settled_mono [OF parse_number_settled skip_ws_length] by auto
  next
    case 6
    then show ?thesis using skip_ws_length [of s] by simp
  qed
qed

lemma parse_fuel:
  "(2 * length s + 1 \<le> n \<longrightarrow> settled (length s) (parse_value n s err)) \<and>
   (2 * length s + 1 \<le> n \<longrightarrow> settled (length s) (object_loop n kvs s err)) \<and>
   (2 * length s + 2 \<le> n \<longrightarrow> settled (length s) (array_loop n xs s err))"
proof (induction n arbitrary: s err kvs xs)
  case 0
  then show ?case by simp
next
  case (Suc n)
  then have v: "\<And>t err. 2 * length t + 1 \<le> n \<Longrightarrow> settled (length t) (parse_value n t err)"
    and o: "\<And>kvs t err. 2 * length t + 1 \<le> n \<Longrightarrow> settled (length t) (object_loop n kvs t err)"
    and a: "\<And>xs t err. 2 * length t + 2 \<le> n \<Longrightarrow> settled (length t) (array_loop n xs t err)" by blast+
  show ?case
  proof (intro conjI impI)
    show "settled (length s) (parse_value (Suc n) s err)" if "2 * length s + 1 \<le> Suc n"
      by (rule value_step_settled [OF o a that])
    show "settled (length s) (object_loop (Suc n) kvs s err)" if "2 * length s + 1 \<le> Suc n"
      by (rule object_step_settled [OF v o that])
    show "settled (length s) (array_loop (Suc n) xs s err)" if "2 * length s + 2 \<le> Suc n"
      by (rule array_step_settled [OF v a that]) (use that in simp)
  qed
qed

lemmas parse_value_fuel = parse_fuel [THEN conjunct1, rule_format]

text \<open>More fuel does not change a result.\<close>

lemma array_step_more:
  assumes "\<And>s err. parse_value n s err \<noteq> Out_of_fuel \<Longrightarrow> parse_value (Suc n) s err = parse_value n s err"
    and "\<And>xs s err. array_loop n xs s err \<noteq> Out_of_fuel \<Longrightarrow> array_loop (Suc n) xs s err = array_loop n xs s err"
    and "array_loop (Suc n) xs s err \<noteq> Out_of_fuel"
  shows "array_loop (Suc (Suc n)) xs s err = array_loop (Suc n) xs s err"
proof (cases "parse_value n s err")
  case Out_of_fuel
  then show ?thesis using assms(3) by simp
next
  case (Throws x)
  then have "parse_value (Suc n) s err = Throws x" using assms(1) by simp
  then show ?thesis using Throws by (simp only: array_loop.simps parsed.case)
next
  case (Returns v r e)
  then have v: "parse_value (Suc n) s err = Returns v r e" using assms(1) by simp
  have "array_loop (Suc n) (xs @ [v]) (tl (skip_ws r)) e = array_loop n (xs @ [v]) (tl (skip_ws r)) e"
    if "peek (skip_ws r) = CHR '',''"
    by (rule assms(2)) (use assms(3) Returns that in \<open>simp add: Let_def\<close>)
  then show ?thesis
    unfolding array_loop.simps(2) [of "Suc n"] array_loop.simps(2) [of n xs s] v Returns parsed.case Let_def by auto
qed

lemma object_step_more:
  assumes "\<And>s err. parse_value n s err \<noteq> Out_of_fuel \<Longrightarrow> parse_value (Suc n) s err = parse_value n s err"
    and "\<And>kvs s err. object_loop n kvs s err \<noteq> Out_of_fuel \<Longrightarrow> object_loop (Suc n) kvs s err = object_loop n kvs s err"
    and "object_loop (Suc n) kvs s err \<noteq> Out_of_fuel"
  shows "object_loop (Suc (Suc n)) kvs s err = object_loop (Suc n) kvs s err"
proof (cases "peek (skip_ws s) = CHR 0x22 \<and> peek (skip_ws (snd (parse_string (skip_ws s)))) = CHR '':''")
  case False
  then show ?thesis by (auto simp: Let_def case_prod_unfold)
next
  case True
  let ?key = "fst (parse_string (skip_ws s))"
  let ?t = "tl (skip_ws (snd (parse_string (skip_ws s))))"
  have obj: "object_loop (Suc k) kvs s err =
      (case parse_value k ?t err of
         Out_of_fuel \<Rightarrow> Out_of_fuel
       | Throws e \<Rightarrow> Throws e
       | Returns val s3 err' \<Rightarrow>
           if peek (skip_ws s3) = CHR '','' then object_loop k (map_set ?key val kvs) (tl (skip_ws s3)) err'
           else if peek (skip_ws s3) = CHR ''}'' then Returns (JObject (map_set ?key val kvs)) (tl (skip_ws s3)) err'
           else Returns (JObject (map_set ?key val kvs)) (skip_ws s3) True)" for k
    using True by (auto simp: Let_def case_prod_unfold split: parsed.split)
  show ?thesis
  proof (cases "parse_value n ?t err")
    case Out_of_fuel
    then show ?thesis using assms(3) unfolding obj by simp
  next
    case (Throws x)
    then have "parse_value (Suc n) ?t err = Throws x" using assms(1) by simp
    then show ?thesis unfolding obj Throws by simp
  next
    case (Returns v r e)
    then have v: "parse_value (Suc n) ?t err = Returns v r e" using assms(1) by simp
    have "object_loop (Suc n) (map_set ?key v kvs) (tl (skip_ws r)) e = object_loop n (map_set ?key v kvs) (tl (skip_ws r)) e"
      if "peek (skip_ws r) = CHR '',''"
      by (rule assms(2)) (use assms(3) Returns that in \<open>simp add: obj del: object_loop.simps\<close>)
    then show ?thesis unfolding obj v Returns parsed.case by presburger
  qed
qed

lemma parse_more_fuel:
  "(parse_value n s err \<noteq> Out_of_fuel \<longrightarrow> parse_value (Suc n) s err = parse_value n s err) \<and>
   (object_loop n kvs s err \<noteq> Out_of_fuel \<longrightarrow> object_loop (Suc n) kvs s err = object_loop n kvs s err) \<and>
   (array_loop n xs s err \<noteq> Out_of_fuel \<longrightarrow> array_loop (Suc n) xs s err = array_loop n xs s err)"
proof (induction n arbitrary: s err kvs xs)
  case 0
  then show ?case by simp
next
  case (Suc n)
  then have v: "\<And>s err. parse_value n s err \<noteq> Out_of_fuel \<Longrightarrow> parse_value (Suc n) s err = parse_value n s err"
    and o: "\<And>kvs s err. object_loop n kvs s err \<noteq> Out_of_fuel \<Longrightarrow> object_loop (Suc n) kvs s err = object_loop n kvs s err"
    and a: "\<And>xs s err. array_loop n xs s err \<noteq> Out_of_fuel \<Longrightarrow> array_loop (Suc n) xs s err = array_loop n xs s err"
    by blast+
  have "parse_value (Suc (Suc n)) s err = parse_value (Suc n) s err" if "parse_value (Suc n) s err \<noteq> Out_of_fuel"
  proof -
    let ?r = "skip_ws (tl (skip_ws s))"
    consider "peek (skip_ws s) = CHR ''{''" | "peek (skip_ws s) = CHR ''[''"
      | "peek (skip_ws s) \<noteq> CHR ''{''" "peek (skip_ws s) \<noteq> CHR ''[''" by blast
    then show ?thesis
    proof cases
      case 1
      then show ?thesis
        using that o [of "[]" ?r err] by (cases "peek ?r = CHR ''}''") (simp_all add: Let_def del: object_loop.simps)
    next
      case 2
      then show ?thesis
        using that a [of "[]" ?r err] by (cases "peek ?r = CHR '']''") (simp_all add: Let_def del: array_loop.simps)
    next
      case 3
      then show ?thesis by (simp add: Let_def)
    qed
  qed
  then show ?case using array_step_more [OF v a] object_step_more [OF v o] by blast
qed

lemma parse_value_stable:
  assumes "parse_value n s err \<noteq> Out_of_fuel" and "n \<le> m"
  shows "parse_value m s err = parse_value n s err"
  using assms(2)
proof (induction m rule: dec_induct)
  case base
  then show ?case by simp
next
  case (step m)
  then show ?case using parse_more_fuel [of m s err] assms(1) by simp
qed

section \<open>A printer\<close>

text \<open>
  The canonical text of a value, as a safetensors writer produces it; nulls and floats do not
  occur in such headers. Objects hold their entries in key order, as the parser stores them.
\<close>

definition digit :: "nat \<Rightarrow> char" where
  "digit d = char_of (48 + d)"

fun show_nat :: "nat \<Rightarrow> string" where
  "show_nat n = (if n < 10 then [digit n] else show_nat (n div 10) @ [digit (n mod 10)])"

declare show_nat.simps [simp del]

definition show_int :: "int \<Rightarrow> string" where
  "show_int i = (if i < 0 then CHR ''-'' # show_nat (nat (- i)) else show_nat (nat i))"

definition escape :: "char \<Rightarrow> string" where
  "escape c = (if c = CHR 0x22 \<or> c = CHR 0x5C then [CHR 0x5C, c] else [c])"

definition quote :: "string \<Rightarrow> string" where
  "quote s = CHR 0x22 # concat (map escape s) @ [CHR 0x22]"

fun join :: "string list \<Rightarrow> string" where
  "join [] = []"
| "join [x] = x"
| "join (x # y # xs) = x @ CHR '','' # join (y # xs)"

fun render :: "Value \<Rightarrow> string" where
  "render JNull = ''null''"
| "render (JBool b) = (if b then ''true'' else ''false'')"
| "render (JInt i) = show_int i"
| "render (JFloat f) = []"
| "render (JStr s) = quote s"
| "render (JArray xs) = CHR ''['' # join (map render xs) @ '']''"
| "render (JObject kvs) = CHR ''{'' # join (map (\<lambda>kv. quote (fst kv) @ CHR '':'' # render (snd kv)) kvs) @ ''}''"

fun printable :: "Value \<Rightarrow> bool" where
  "printable JNull = False"
| "printable (JBool b) = True"
| "printable (JInt i) = is_int64 i"
| "printable (JFloat f) = False"
| "printable (JStr s) = True"
| "printable (JArray xs) = list_all printable xs"
| "printable (JObject kvs) = (sorted_wrt str_less (map fst kvs) \<and> list_all (\<lambda>kv. printable (snd kv)) kvs)"

lemma str_less_irrefl: "\<not> str_less a a"
  by (induction a) auto

lemma str_less_asym: "str_less a b \<Longrightarrow> \<not> str_less b a"
  by (induction a b rule: str_less.induct) auto

lemma map_set_last:
  "\<forall>k' \<in> fst ` set kvs. str_less k' k \<Longrightarrow> map_set k v kvs = kvs @ [(k, v)]"
  by (induction kvs) (auto simp: str_less_irrefl dest: str_less_asym)

lemma map_of_map_set: "map_of (map_set k v kvs) = (map_of kvs)(k \<mapsto> v)"
  by (induction kvs) auto

lemma code_digit: "d < 10 \<Longrightarrow> code_of (digit d) = 48 + d"
  by (simp add: digit_def)

lemma show_nat_digits: "\<forall>c \<in> set (show_nat n). isdigit c"
proof (induction n rule: show_nat.induct)
  case (1 n)
  have "isdigit (digit d)" if "d < 10" for d using code_digit [OF that] that by (simp add: isdigit_def)
  then show ?case using 1 by (auto simp: show_nat.simps [of n])
qed

lemma show_nat_nonempty: "show_nat n \<noteq> []"
  by (simp add: show_nat.simps [of n])

lemma digits_value_snoc: "digits_value (ds @ [c]) = 10 * digits_value ds + (code_of c - 48)"
  by (simp add: digits_value_def)

lemma digits_value_show: "digits_value (show_nat n) = n"
proof (induction n rule: show_nat.induct)
  case (1 n)
  show ?case
  proof (cases "n < 10")
    case True
    then show ?thesis using code_digit [OF True] by (simp add: show_nat.simps [of n] digits_value_def)
  next
    case False
    then show ?thesis
      using 1 code_digit [of "n mod 10"] by (simp add: show_nat.simps [of n] digits_value_snoc)
  qed
qed

lemma digit_not_special:
  assumes "isdigit c"
  shows "c \<notin> {CHR ''-'', CHR ''+'', CHR ''.'', CHR ''e'', CHR ''E'', CHR ''{'', CHR ''['', CHR 0x22, CHR ''t'', CHR ''f''}"
    and "\<not> isspace c" and "number_char c"
  using assms by (auto simp: isdigit_def isspace_def number_char_def)

lemma stoll_show: "is_int64 i \<Longrightarrow> stoll (show_int i) = Inr i"
proof -
  assume i: "is_int64 i"
  have tw: "takeWhile isdigit (show_nat n) = show_nat n" for n
    using show_nat_digits [of n] by (simp add: takeWhile_eq_all_conv)
  have "split_sign (show_nat n) = (False, show_nat n)" for n
    using show_nat_digits [of n] show_nat_nonempty [of n] digit_not_special(1)
    by (cases "show_nat n") (auto simp: split_sign_def)
  moreover have "split_sign (CHR ''-'' # show_nat n) = (True, show_nat n)" for n by (simp add: split_sign_def)
  ultimately show ?thesis
    using i by (auto simp: stoll_def show_int_def tw digits_value_show show_nat_nonempty Let_def)
qed

lemma string_loop_escape: "string_loop (concat (map escape s) @ CHR 0x22 # r) = (s, r)"
  by (induction s) (auto simp: escape_def unescape_def)

lemma parse_string_quote: "parse_string (quote s @ r) = (s, r)"
  by (simp add: parse_string_def quote_def string_loop_escape)

text \<open>What may follow a printed value: the end, or a character that does not continue a number.\<close>

definition clean :: "string \<Rightarrow> bool" where
  "clean r \<longleftrightarrow> r = [] \<or> \<not> number_char (hd r)"

lemma parse_number_show:
  assumes "is_int64 i" and "clean r"
  shows "parse_number (show_int i @ r) err = Returns (JInt i) r err"
proof -
  have num: "takeWhile number_char (show_nat n @ r) = show_nat n" "dropWhile number_char (show_nat n @ r) = r" for n
  proof -
    have "\<forall>c \<in> set (show_nat n). number_char c" using show_nat_digits digit_not_special(3) by blast
    then show "takeWhile number_char (show_nat n @ r) = show_nat n" "dropWhile number_char (show_nat n @ r) = r"
      using assms(2) by (cases r; simp add: clean_def)+
  qed
  have pk: "peek (show_nat n @ r) \<noteq> CHR ''-''" for n
    using show_nat_digits [of n] show_nat_nonempty [of n] digit_not_special(1) by (cases "show_nat n") (auto simp: peek_def)
  have fl: "CHR ''.'' \<notin> set (show_int i)" "CHR ''e'' \<notin> set (show_int i)" "CHR ''E'' \<notin> set (show_int i)"
    using show_nat_digits digit_not_special(1) by (fastforce simp: show_int_def split: if_splits)+
  show ?thesis
  proof (cases "i < 0")
    case True
    then show ?thesis
      using stoll_show [OF assms(1)] fl num by (simp add: parse_number_def show_int_def peek_def)
  next
    case False
    then show ?thesis
      using stoll_show [OF assms(1)] fl num pk by (simp add: parse_number_def show_int_def)
  qed
qed

section \<open>Parsing printed text\<close>

lemma show_int_head: "\<exists>c t. show_int i = c # t \<and> (c = CHR ''-'' \<or> isdigit c)"
proof (cases "i < 0")
  case True
  then show ?thesis by (simp add: show_int_def)
next
  case False
  then show ?thesis
    using show_nat_nonempty [of "nat i"] show_nat_digits [of "nat i"] by (cases "show_nat (nat i)") (simp_all add: show_int_def)
qed

lemma number_head: "c = CHR ''-'' \<or> isdigit c \<Longrightarrow> \<not> isspace c \<and> c \<noteq> CHR '']''"
  by (auto simp: isspace_def isdigit_def)

lemma render_head:
  assumes "printable v"
  shows "\<exists>c t. render v = c # t \<and> \<not> isspace c \<and> c \<noteq> CHR '']''"
proof (cases v)
  case (JInt i)
  then show ?thesis using show_int_head [of i] number_head by auto
next
  case (JBool b)
  then show ?thesis by (cases b) (simp_all add: isspace_def)
qed (use assms in \<open>simp_all add: quote_def isspace_def\<close>)

lemma skip_ws_head: "\<not> isspace c \<Longrightarrow> skip_ws (c # s) = c # s"
  by (simp add: skip_ws_def)

lemma peek_Cons [simp]: "peek (c # s) = c"
  by (simp add: peek_def)

lemma punct_not_space [simp]:
  "\<not> isspace CHR '',''" "\<not> isspace CHR '']''" "\<not> isspace CHR ''}''" "\<not> isspace CHR '':''"
  "\<not> isspace CHR ''{''" "\<not> isspace CHR ''[''" "\<not> isspace CHR 0x22"
  by (simp_all add: isspace_def)

lemma clean_punct [simp]: "clean (CHR '','' # r)" "clean (CHR '']'' # r)" "clean (CHR ''}'' # r)"
  by (simp_all add: clean_def number_char_def isdigit_def)

definition parses :: "Value \<Rightarrow> bool" where
  "parses v \<longleftrightarrow> (\<forall>r n err. clean r \<longrightarrow> 2 * length (render v @ r) + 1 \<le> n \<longrightarrow>
     parse_value n (render v @ r) err = Returns v r err)"

lemma parsesD: "parses v \<Longrightarrow> clean r \<Longrightarrow> 2 * length (render v @ r) + 1 \<le> n \<Longrightarrow>
    parse_value n (render v @ r) err = Returns v r err"
  by (simp add: parses_def)

lemma array_loop_render:
  assumes "xs \<noteq> []" and "\<forall>x \<in> set xs. parses x"
    and "2 * length (join (map render xs) @ CHR '']'' # r) + 2 \<le> n"
  shows "array_loop n acc (join (map render xs) @ CHR '']'' # r) err = Returns (JArray (acc @ xs)) r err"
  using assms
proof (induction xs arbitrary: acc n rule: induct_list012)
  case 1
  then show ?case by simp
next
  case (2 x)
  then obtain n' where n: "n = Suc n'" by (cases n) auto
  have "parse_value n' (render x @ CHR '']'' # r) err = Returns x (CHR '']'' # r) err"
    by (rule parsesD) (use 2 n in auto)
  then show ?case by (simp add: n skip_ws_head)
next
  case (3 x y xs)
  then obtain n' where n: "n = Suc n'" by (cases n) auto
  let ?t = "join (map render (y # xs)) @ CHR '']'' # r"
  have "parse_value n' (render x @ CHR '','' # ?t) err = Returns x (CHR '','' # ?t) err"
    by (rule parsesD) (use 3 n in auto)
  moreover have "array_loop n' (acc @ [x]) ?t err = Returns (JArray ((acc @ [x]) @ y # xs)) r err"
    by (rule "3.IH"(2)) (use "3.prems" n in auto)
  ultimately show ?case by (simp add: n skip_ws_head)
qed

abbreviation render_entry :: "string \<times> Value \<Rightarrow> string" where
  "render_entry kv \<equiv> quote (fst kv) @ CHR '':'' # render (snd kv)"

lemma quote_head: "skip_ws (quote s @ r) = quote s @ r" "peek (quote s @ r) = CHR 0x22"
  by (simp_all add: quote_def skip_ws_head)

lemma object_loop_entry:
  assumes "parses (snd kv)" and "clean r" and "2 * length (render_entry kv @ r) + 1 \<le> Suc n"
  shows "object_loop (Suc n) acc (render_entry kv @ r) err =
    (let s4 = skip_ws r; kvs' = map_set (fst kv) (snd kv) acc
     in if peek s4 = CHR '','' then object_loop n kvs' (tl s4) err
        else if peek s4 = CHR ''}'' then Returns (JObject kvs') (tl s4) err
        else Returns (JObject kvs') s4 True)"
proof -
  have "parse_value n (render (snd kv) @ r) err = Returns (snd kv) r err"
    by (rule parsesD [OF assms(1,2)]) (use assms(3) in simp)
  then show ?thesis
    using quote_head [of "fst kv"] parse_string_quote [of "fst kv"] by (simp add: skip_ws_head)
qed

lemma object_loop_render:
  assumes "kvs \<noteq> []" and "\<forall>kv \<in> set kvs. parses (snd kv)"
    and "sorted_wrt str_less (map fst (acc @ kvs))"
    and "2 * length (join (map render_entry kvs) @ CHR ''}'' # r) + 1 \<le> n"
  shows "object_loop n acc (join (map render_entry kvs) @ CHR ''}'' # r) err = Returns (JObject (acc @ kvs)) r err"
  using assms
proof (induction kvs arbitrary: acc n rule: induct_list012)
  case 1
  then show ?case by simp
next
  case (2 kv)
  then obtain n' where n: "n = Suc n'" by (cases n) auto
  have "map_set (fst kv) (snd kv) acc = acc @ [kv]"
    using 2(3) map_set_last [of acc "fst kv" "snd kv"] by (auto simp: sorted_wrt_append)
  then show ?case
    using object_loop_entry [of kv "CHR ''}'' # r" n' acc err] 2 n by (simp add: skip_ws_head)
next
  case (3 kv kv' kvs)
  then obtain n' where n: "n = Suc n'" by (cases n) auto
  let ?t = "join (map render_entry (kv' # kvs)) @ CHR ''}'' # r"
  have ms: "map_set (fst kv) (snd kv) acc = acc @ [kv]"
    using 3(5) map_set_last [of acc "fst kv" "snd kv"] by (auto simp: sorted_wrt_append)
  have "object_loop n' (acc @ [kv]) ?t err = Returns (JObject ((acc @ [kv]) @ kv' # kvs)) r err"
    by (rule "3.IH"(2)) (use "3.prems" n in auto)
  then show ?case
    using object_loop_entry [of kv "CHR '','' # ?t" n' acc err] 3 n ms by (simp add: skip_ws_head)
qed

lemma parses_array:
  assumes xs: "\<forall>x \<in> set xs. parses x" and p: "printable (JArray xs)"
  shows "parses (JArray xs)"
  unfolding parses_def
proof (intro allI impI)
  fix r err n
  assume "clean r" and len: "2 * length (render (JArray xs) @ r) + 1 \<le> n"
  then obtain n' where n: "n = Suc n'" by (cases n) auto
  show "parse_value n (render (JArray xs) @ r) err = Returns (JArray xs) r err"
  proof (cases xs)
    case Nil
    then show ?thesis by (simp add: n skip_ws_head)
  next
    case (Cons x ys)
    let ?t = "join (map render xs) @ CHR '']'' # r"
    have "printable x" using p Cons by simp
    then obtain c t where "?t = c # t" "\<not> isspace c" "c \<noteq> CHR '']''"
      using render_head [of x] Cons by (cases ys) fastforce+
    moreover have "array_loop n' [] ?t err = Returns (JArray ([] @ xs)) r err"
      by (rule array_loop_render) (use Cons xs len n in auto)
    ultimately show ?thesis by (simp add: n skip_ws_head)
  qed
qed

lemma parses_object:
  assumes kvs: "\<forall>kv \<in> set kvs. parses (snd kv)" and p: "printable (JObject kvs)"
  shows "parses (JObject kvs)"
  unfolding parses_def
proof (intro allI impI)
  fix r err n
  assume "clean r" and len: "2 * length (render (JObject kvs) @ r) + 1 \<le> n"
  then obtain n' where n: "n = Suc n'" by (cases n) auto
  show "parse_value n (render (JObject kvs) @ r) err = Returns (JObject kvs) r err"
  proof (cases kvs)
    case Nil
    then show ?thesis by (simp add: n skip_ws_head)
  next
    case (Cons kv kvs')
    let ?t = "join (map render_entry kvs) @ CHR ''}'' # r"
    obtain t where "?t = CHR 0x22 # t"
      using Cons by (cases kvs') (simp_all add: quote_def)
    moreover have "object_loop n' [] ?t err = Returns (JObject ([] @ kvs)) r err"
      by (rule object_loop_render) (use Cons kvs len n p in auto)
    ultimately show ?thesis by (simp add: n skip_ws_head)
  qed
qed

lemma parse_render: "printable v \<Longrightarrow> parses v"
proof (induction v)
  case JNull
  then show ?case by simp
next
  case (JBool b)
  show ?case unfolding parses_def
  proof (intro allI impI)
    fix r err n
    assume "2 * length (render (JBool b) @ r) + 1 \<le> n"
    then obtain n' where "n = Suc n'" by (cases n) auto
    then show "parse_value n (render (JBool b) @ r) err = Returns (JBool b) r err"
      by (cases b) (simp_all add: skip_ws_def isspace_def parse_bool_def starts_with_def)
  qed
next
  case (JInt i)
  show ?case unfolding parses_def
  proof (intro allI impI)
    fix r err n
    assume c: "clean r" and "2 * length (render (JInt i) @ r) + 1 \<le> n"
    then obtain n' where n: "n = Suc n'" by (cases n) auto
    obtain c t where ct: "show_int i = c # t" "\<not> isspace c" "c = CHR ''-'' \<or> isdigit c"
      using show_int_head [of i] number_head by blast
    then show "parse_value n (render (JInt i) @ r) err = Returns (JInt i) r err"
      using parse_number_show [of i r err] JInt.prems c digit_not_special(1) [of c]
      by (auto simp: n skip_ws_head)
  qed
next
  case (JFloat f)
  then show ?case by simp
next
  case (JStr s)
  show ?case unfolding parses_def
  proof (intro allI impI)
    fix r err n
    assume "2 * length (render (JStr s) @ r) + 1 \<le> n"
    then obtain n' where "n = Suc n'" by (cases n) auto
    then show "parse_value n (render (JStr s) @ r) err = Returns (JStr s) r err"
      using quote_head [of s r] parse_string_quote [of s r] by simp
  qed
next
  case (JArray xs)
  then have xs: "\<forall>x \<in> set xs. parses x" by (auto simp: list_all_iff)
  show ?case by (rule parses_array [OF xs JArray.prems])
next
  case (JObject kvs)
  then have kvs: "\<forall>kv \<in> set kvs. parses (snd kv)" by (fastforce simp: list_all_iff)
  show ?case by (rule parses_object [OF kvs JObject.prems])
qed

lemma json_parse_render:
  assumes "printable v" and "clean r"
  shows "json_parse (render v @ r) = Inr (v, True)"
proof -
  have "parse_value (2 * length (render v @ r) + 1) (render v @ r) False = Returns v r False"
    by (rule parsesD [OF parse_render [OF assms(1)] assms(2)]) simp
  then show ?thesis unfolding json_parse_def by simp
qed

section \<open>Properties\<close>

lemmas json_eval = skip_ws_def isspace_def isdigit_def parse_number_def number_char_def stoll_def
  split_sign_def digits_value_def is_int64_def peek_def parse_string_def quote_def escape_def unescape_def

lemma json_parse_short:
  assumes "parse_value n s False = r" and "r \<noteq> Out_of_fuel" and "n \<le> 2 * length s + 1"
  shows "json_parse s = (case r of Out_of_fuel \<Rightarrow> Inl Invalid_argument | Throws e \<Rightarrow> Inl e | Returns v _ err \<Rightarrow> Inr (v, \<not> err))"
  using parse_value_stable [of n s False "2 * length s + 1"] assms by (simp add: json_parse_def)

text \<open>
  C29: the parser terminates on every text: with two units of fuel per character it has returned
  or thrown, it never moves backwards, and any larger bound gives the same result.
\<close>

theorem json_parser_terminates:
  "(case parse_value (2 * length text + 1) text err of
      Out_of_fuel \<Rightarrow> False | Throws _ \<Rightarrow> True | Returns _ rest _ \<Rightarrow> length rest \<le> length text) \<and>
   parse_value (2 * length text + 1 + k) text err = parse_value (2 * length text + 1) text err"
proof -
  have s: "settled (length text) (parse_value (2 * length text + 1) text err)"
    by (rule parse_value_fuel) simp
  then have "parse_value (2 * length text + 1) text err \<noteq> Out_of_fuel" by (auto simp: settled_def)
  then show ?thesis
    using s parse_value_stable [of "2 * length text + 1" "text" err "2 * length text + 1 + k"] unfolding settled_def by simp
qed


definition example_json :: Value where
  "example_json = JObject [(''dtype'', JStr ''F32''), (''shape'', JArray [JInt 2, JInt (- 3)]), (''x'', JBool True)]"


text \<open>
  Malformed input is not reported uniformly: an unclosed object is returned as a partial object
  (not as \<^verbatim>\<open>Null\<close>), while a lone minus sign and an integer beyond 64 bits end in an uncaught
  exception instead of \<^verbatim>\<open>ok = false\<close>.
\<close>

theorem json_errors_not_uniform:
  "json_parse (''{'' @ quote ''a'' @ '':1'') = Inr (JObject [(''a'', JInt 1)], False) \<and>
   json_parse ''[-]'' = Inl Invalid_argument \<and>
   json_parse ''9223372036854775808'' = Inl Out_of_range"
proof (intro conjI)
  show "json_parse (''{'' @ quote ''a'' @ '':1'') = Inr (JObject [(''a'', JInt 1)], False)"
    by (subst json_parse_short [where n = "Suc (Suc (Suc 0))", OF refl]) (simp_all add: json_eval)
  show "json_parse ''[-]'' = Inl Invalid_argument"
    by (subst json_parse_short [where n = "Suc (Suc (Suc 0))", OF refl]) (simp_all add: json_eval)
  show "json_parse ''9223372036854775808'' = Inl Out_of_range"
    by (subst json_parse_short [where n = "Suc 0", OF refl]) (simp_all add: json_eval)
qed

end
