(* ===== verification/CText.thy ===== *)
theory CText
  imports JsonMin
begin

text \<open>
  What the sources use of the C and C++ library on text and what an operation can do besides
  returning: throw, run into undefined behaviour, or not return.
\<close>

section \<open>Outcomes\<close>

datatype 'a outcome = Ret 'a | Throw exn | Undefined | Diverges

fun bind_out :: "'a outcome \<Rightarrow> ('a \<Rightarrow> 'b outcome) \<Rightarrow> 'b outcome" where
  "bind_out (Ret x) f = f x"
| "bind_out (Throw e) f = Throw e"
| "bind_out Undefined f = Undefined"
| "bind_out Diverges f = Diverges"

named_theorems ret_iff \<open>when an operation returns a value\<close>

lemma bind_out_Ret [ret_iff]: "bind_out m f = Ret y \<longleftrightarrow> (\<exists>x. m = Ret x \<and> f x = Ret y)"
  by (cases m) simp_all

lemma if_Ret [ret_iff]: "(if b then Undefined else m) = Ret y \<longleftrightarrow> \<not> b \<and> m = Ret y"
  by simp

definition of_option :: "'a option \<Rightarrow> 'a outcome" where
  "of_option m = (case m of None \<Rightarrow> Diverges | Some x \<Rightarrow> Ret x)"

definition of_exn :: "exn + 'a \<Rightarrow> 'a outcome" where
  "of_exn m = (case m of Inl e \<Rightarrow> Throw e | Inr x \<Rightarrow> Ret x)"

section \<open>Numbers in text\<close>

text \<open>The integer at the head of a text: white space, a sign, the longest run of digits.\<close>

definition leading_int :: "string \<Rightarrow> int" where
  "leading_int s =
     (case split_sign (dropWhile isspace s) of (neg, r) \<Rightarrow>
        let v = int (digits_value (takeWhile isdigit r)) in if neg then - v else v)"

text \<open>\<^verbatim>\<open>std::atoi\<close> is undefined when the number is not an \<^verbatim>\<open>int\<close>; \<^verbatim>\<open>std::strtol\<close> saturates.\<close>

definition atoi :: "string \<Rightarrow> int outcome" where
  "atoi s = (if is_int32 (leading_int s) then Ret (leading_int s) else Undefined)"

definition strtol :: "string \<Rightarrow> int" where
  "strtol s = max (- (2 ^ 63)) (min (2 ^ 63 - 1) (leading_int s))"

section \<open>Searching\<close>

text \<open>\<^verbatim>\<open>s.find(t) != npos\<close>; \<^verbatim>\<open>s.rfind(t, 0) == 0\<close> is \<open>starts_with\<close>.\<close>

fun contains :: "string \<Rightarrow> string \<Rightarrow> bool" where
  "contains t [] = (t = [])"
| "contains t (c # s) = (starts_with t (c # s) \<or> contains t s)"

section \<open>Lemmas\<close>

lemma digits_value_nil [simp]: "digits_value [] = 0"
  by (simp add: digits_value_def)

lemma split_sign_show_nat: "split_sign (show_nat n) = (False, show_nat n)"
  using show_nat_digits [of n] show_nat_nonempty [of n] digit_not_special(1)
  by (cases "show_nat n") (auto simp: split_sign_def)

lemma dropWhile_digits: "\<forall>c \<in> set s. isdigit c \<Longrightarrow> dropWhile isspace s = s"
  by (cases s) (simp_all add: digit_not_special(2))

lemma leading_int_show: "leading_int (show_int i) = i"
proof -
  have tw: "takeWhile isdigit (show_nat n) = show_nat n" for n
    using show_nat_digits [of n] by (simp add: takeWhile_eq_all_conv)
  have "split_sign (CHR ''-'' # show_nat n) = (True, show_nat n)" for n by (simp add: split_sign_def)
  moreover have "\<not> isspace CHR ''-''" by (simp add: isspace_def)
  ultimately show ?thesis
    by (simp add: leading_int_def show_int_def digits_value_show dropWhile_digits [OF show_nat_digits] split_sign_show_nat tw)
qed

lemma atoi_show: "is_int32 i \<Longrightarrow> atoi (show_int i) = Ret i"
  by (simp add: atoi_def leading_int_show)

lemma strtol_show: "is_int64 i \<Longrightarrow> strtol (show_int i) = i"
  by (simp add: strtol_def leading_int_show is_int64_def)

lemma starts_with_append [simp]: "starts_with t (t @ s)"
  by (simp add: starts_with_def)

lemma contains_starts: "starts_with t s \<Longrightarrow> contains t s"
  by (cases s) (simp_all add: starts_with_def)

lemma contains_append: "contains t s \<Longrightarrow> contains t (r @ s)"
  by (induction r) simp_all

lemma show_int_no_dot: "CHR ''.'' \<notin> set (show_int i)"
  using show_nat_digits digit_not_special(1) by (fastforce simp: show_int_def split: if_splits)

lemma show_int_inj: "show_int i = show_int j \<Longrightarrow> i = j"
  by (metis leading_int_show)

lemma show_nat_length: "n < 10 ^ Suc k \<Longrightarrow> length (show_nat n) \<le> Suc k"
proof (induction k arbitrary: n)
  case 0
  then show ?case by (simp add: show_nat.simps [of n])
next
  case (Suc k)
  then have "n div 10 < 10 ^ Suc k" by (simp add: less_mult_imp_div_less mult.commute)
  then show ?case using Suc.IH [of "n div 10"] by (simp add: show_nat.simps [of n])
qed

lemma show_int_length: "is_int32 i \<Longrightarrow> length (show_int i) \<le> 11"
proof -
  assume i: "is_int32 i"
  have "nat (- i) < 10 ^ Suc 9" "nat i < 10 ^ Suc 9" using i by (auto simp: is_int32_def nat_less_iff)
  then have "length (show_nat (nat (- i))) \<le> 10" "length (show_nat (nat i)) \<le> 10"
    using show_nat_length [of "nat (- i)" 9] show_nat_length [of "nat i" 9] by simp_all
  then show ?thesis by (simp add: show_int_def)
qed

lemma split_at_dot:
  "CHR ''.'' \<notin> set x \<Longrightarrow> CHR ''.'' \<notin> set y \<Longrightarrow> x @ CHR ''.'' # r = y @ CHR ''.'' # r' \<Longrightarrow> x = y \<and> r = r'"
proof (induction x arbitrary: y)
  case Nil
  then show ?case by (cases y) auto
next
  case (Cons c x)
  then show ?case by (cases y) auto
qed

end
