(* ===== verification/WeightMmap.thy ===== *)
theory WeightMmap
  imports Floats CText
begin

text \<open>
  The classes \<^verbatim>\<open>dee::WeightMmap\<close> (one memory-mapped safetensors shard) and \<^verbatim>\<open>dee::TensorResolver\<close>
  (which shard holds an expert's projection) of \<^verbatim>\<open>include/dee/weight_mmap.h\<close> and
  \<^verbatim>\<open>src/weight_mmap.cpp\<close>. The operating system is a parameter: what \<^verbatim>\<open>open\<close>, \<^verbatim>\<open>fstat\<close> and \<^verbatim>\<open>mmap\<close>
  return; the mapped bytes are read from memory. The host is little-endian.
\<close>

section \<open>State\<close>

record TensorView =
  v_data :: nat
  v_nbytes :: nat
  v_dtype :: DType
  v_shape :: "int list"

definition view_ok :: "TensorView \<Rightarrow> bool" where
  "view_ok v \<longleftrightarrow> v_data v \<noteq> nullptr \<and> 0 < v_nbytes v"

definition no_view :: TensorView where
  "no_view = \<lparr>v_data = nullptr, v_nbytes = 0, v_dtype = UNKNOWN, v_shape = []\<rparr>"

record TensorMeta =
  m_data_offset :: nat
  m_nbytes :: nat
  m_dtype :: DType
  m_shape :: "int list"

record WeightMmap =
  wm_fd :: int
  wm_base :: nat
  wm_size :: nat
  wm_header_json :: string
  wm_tensors :: "(string \<times> TensorMeta) list"

definition mmap_new :: WeightMmap where
  "mmap_new = \<lparr>wm_fd = - 1, wm_base = nullptr, wm_size = 0, wm_header_json = [], wm_tensors = []\<rparr>"

record OS =
  os_open :: "string \<Rightarrow> int"
  os_fstat :: "int \<Rightarrow> nat option"
  os_mmap :: "int \<Rightarrow> nat \<Rightarrow> nat option"

section \<open>Operations\<close>

definition mmap_close :: "WeightMmap \<Rightarrow> WeightMmap" where
  "mmap_close w = w\<lparr>wm_base := nullptr, wm_size := 0, wm_fd := - 1, wm_tensors := [], wm_header_json := []\<rparr>"

definition map_file :: "OS \<Rightarrow> WeightMmap \<Rightarrow> string \<Rightarrow> bool \<times> WeightMmap" where
  "map_file os w path =
     (let w1 = w\<lparr>wm_fd := os_open os path\<rparr>
      in if wm_fd w1 < 0 then (False, w1)
         else case os_fstat os (wm_fd w1) of
                None \<Rightarrow> (False, w1)
              | Some st_size \<Rightarrow>
                  let w2 = w1\<lparr>wm_size := st_size\<rparr>
                  in if wm_size w2 < 8 then (False, w2)
                     else case os_mmap os (wm_fd w2) (wm_size w2) of
                            None \<Rightarrow> (False, w2\<lparr>wm_base := nullptr\<rparr>)
                          | Some b \<Rightarrow> (True, w2\<lparr>wm_base := b\<rparr>))"

text \<open>\<^verbatim>\<open>memcpy(&hlen, base_, 8)\<close> on a little-endian host.\<close>

definition read_u64 :: "memory \<Rightarrow> nat \<Rightarrow> nat" where
  "read_u64 m a = (\<Sum>i \<leftarrow> [0 ..< 8]. unat (m (a + i)) * 256 ^ i)"

definition read_string :: "memory \<Rightarrow> nat \<Rightarrow> nat \<Rightarrow> string" where
  "read_string m a n = map (\<lambda>i. char_of (unat (m (a + i)))) [0 ..< n]"

text \<open>\<^verbatim>\<open>std::string::assign\<close> throws \<^verbatim>\<open>std::length_error\<close> beyond \<^verbatim>\<open>max_size()\<close>.\<close>

definition max_string :: nat where
  "max_string = 2 ^ 63 - 1"

text \<open>The body of the loop over the header's entries; \<open>None\<close> stands for \<^verbatim>\<open>continue\<close>.\<close>

definition entry_meta :: "string \<Rightarrow> Value \<Rightarrow> TensorMeta option" where
  "entry_meta name v =
     (if name = ''__metadata__'' then None
      else if \<not> is_object v then None
      else case (json_find v ''dtype'', json_find v ''data_offsets'') of
             (Some dtype_v, Some off_v) \<Rightarrow>
               if \<not> is_string dtype_v \<or> \<not> is_array off_v \<or> length (val_arr off_v) < 2 then None
               else
                 let shape = (case json_find v ''shape'' of
                                None \<Rightarrow> []
                              | Some shape_v \<Rightarrow>
                                  if is_array shape_v then map val_i (filter is_int (val_arr shape_v)) else []);
                     start = val_i (val_arr off_v ! 0);
                     end = val_i (val_arr off_v ! 1)
                 in Some \<lparr>m_data_offset = nat (start mod 2 ^ 64), m_nbytes = nat ((end - start) mod 2 ^ 64),
                          m_dtype = dtype_from_string (val_s dtype_v), m_shape = shape\<rparr>
           | _ \<Rightarrow> None)"

definition add_entry :: "(string \<times> TensorMeta) list \<Rightarrow> string \<times> Value \<Rightarrow> (string \<times> TensorMeta) list" where
  "add_entry ts kv =
     (case entry_meta (fst kv) (snd kv) of None \<Rightarrow> ts | Some m \<Rightarrow> AList.update (fst kv) m ts)"

definition parse_header_json :: "WeightMmap \<Rightarrow> string \<Rightarrow> exn + bool \<times> WeightMmap" where
  "parse_header_json w json =
     (case json_parse json of
        Inl e \<Rightarrow> Inl e
      | Inr (rt, ok) \<Rightarrow>
          if \<not> ok \<or> \<not> is_object rt then Inr (False, w)
          else Inr (True, w\<lparr>wm_tensors := foldl add_entry (wm_tensors w) (val_obj rt)\<rparr>))"

definition mmap_open :: "OS \<Rightarrow> memory \<Rightarrow> WeightMmap \<Rightarrow> string \<Rightarrow> exn + bool \<times> WeightMmap" where
  "mmap_open os m w path =
     (case map_file os (mmap_close w) path of
        (False, w1) \<Rightarrow> Inr (False, w1)
      | (True, w1) \<Rightarrow>
          let hlen = read_u64 m (wm_base w1)
          in if hlen = 0 \<or> wm_size w1 < add64 8 hlen then Inr (False, w1)
             else if max_string < hlen then Inl Length_error
             else let w2 = w1\<lparr>wm_header_json := read_string m (wm_base w1 + 8) hlen\<rparr>
                  in parse_header_json w2 (wm_header_json w2))"

definition mmap_open_with_header :: "OS \<Rightarrow> WeightMmap \<Rightarrow> string \<Rightarrow> string \<Rightarrow> exn + bool \<times> WeightMmap" where
  "mmap_open_with_header os w path json_header =
     (case map_file os (mmap_close w) path of
        (False, w1) \<Rightarrow> Inr (False, w1)
      | (True, w1) \<Rightarrow> parse_header_json (w1\<lparr>wm_header_json := json_header\<rparr>) json_header)"

definition parse_header :: "WeightMmap \<Rightarrow> exn + bool \<times> WeightMmap" where
  "parse_header w = parse_header_json w (wm_header_json w)"

definition mmap_lookup :: "memory \<Rightarrow> WeightMmap \<Rightarrow> string \<Rightarrow> TensorView" where
  "mmap_lookup m w tensor_name =
     (case map_of (wm_tensors w) tensor_name of
        None \<Rightarrow> no_view
      | Some meta \<Rightarrow>
          if wm_header_json w = [] then no_view
          else let hlen = read_u64 m (wm_base w);
                   off = add64 (add64 8 hlen) (m_data_offset meta)
               in \<lparr>v_data = wm_base w + off, v_nbytes = m_nbytes meta, v_dtype = m_dtype meta,
                   v_shape = m_shape meta\<rparr>)"

section \<open>Resolving experts\<close>

datatype Kind = GATE_PROJ | UP_PROJ | DOWN_PROJ

definition kind_name :: "Kind \<Rightarrow> string" where
  "kind_name k = (case k of GATE_PROJ \<Rightarrow> ''gate_proj'' | UP_PROJ \<Rightarrow> ''up_proj'' | DOWN_PROJ \<Rightarrow> ''down_proj'')"

text \<open>\<^verbatim>\<open>snprintf\<close> into a buffer of 256 bytes keeps at most 255 characters.\<close>

definition expert_tensor_name :: "int \<Rightarrow> int \<Rightarrow> Kind \<Rightarrow> string" where
  "expert_tensor_name layer expert kind =
     take 255 (''model.language_model.layers.'' @ show_int layer @ ''.mlp.experts.'' @ show_int expert @ ''.'' @
       kind_name kind @ ''.weight'')"

definition register_shard :: "WeightMmap list \<Rightarrow> WeightMmap option \<Rightarrow> WeightMmap list" where
  "register_shard shards mmap = (case mmap of None \<Rightarrow> shards | Some w \<Rightarrow> shards @ [w])"

fun first_ok :: "memory \<Rightarrow> WeightMmap list \<Rightarrow> string \<Rightarrow> TensorView" where
  "first_ok m [] name = no_view"
| "first_ok m (sh # shs) name = (let v = mmap_lookup m sh name in if view_ok v then v else first_ok m shs name)"

definition resolve_expert :: "memory \<Rightarrow> WeightMmap list \<Rightarrow> int \<Rightarrow> int \<Rightarrow> Kind \<Rightarrow> TensorView" where
  "resolve_expert m shards layer expert kind = first_ok m shards (expert_tensor_name layer expert kind)"

section \<open>A safetensors writer\<close>

text \<open>The file format: the header's length in 8 little-endian bytes, the JSON header, the data.\<close>

record StTensor =
  st_name :: string
  st_dtype :: string
  st_shape :: "int list"
  st_start :: nat
  st_end :: nat

definition st_entry :: "StTensor \<Rightarrow> string \<times> Value" where
  "st_entry t = (st_name t,
     JObject [(''data_offsets'', JArray [JInt (int (st_start t)), JInt (int (st_end t))]),
              (''dtype'', JStr (st_dtype t)), (''shape'', JArray (map JInt (st_shape t)))])"

definition st_header :: "StTensor list \<Rightarrow> string" where
  "st_header ts = render (JObject (map st_entry ts))"

definition le64 :: "nat \<Rightarrow> byte list" where
  "le64 n = map (\<lambda>i. word_of_nat (n div 256 ^ i)) [0 ..< 8]"

definition st_file :: "StTensor list \<Rightarrow> byte list \<Rightarrow> byte list" where
  "st_file ts data = le64 (length (st_header ts)) @ map (\<lambda>c. word_of_nat (code_of c)) (st_header ts) @ data"

text \<open>A header the format allows, and one whose tensors lie inside the data section.\<close>

definition st_readable :: "StTensor list \<Rightarrow> byte list \<Rightarrow> bool" where
  "st_readable ts data \<longleftrightarrow> sorted_wrt str_less (map st_name ts) \<and>
     (\<forall>t \<in> set ts. st_name t \<noteq> ''__metadata__'' \<and> list_all is_int64 (st_shape t) \<and>
        st_start t \<le> st_end t \<and> st_end t < 2 ^ 63) \<and> length (st_file ts data) < 2 ^ 63"

definition st_wf :: "StTensor list \<Rightarrow> byte list \<Rightarrow> bool" where
  "st_wf ts data \<longleftrightarrow> st_readable ts data \<and> (\<forall>t \<in> set ts. st_end t \<le> length data)"

definition holds :: "memory \<Rightarrow> nat \<Rightarrow> byte list \<Rightarrow> bool" where
  "holds m a bs \<longleftrightarrow> (\<forall>i < length bs. m (a + i) = bs ! i)"

lemma read_le64:
  assumes "holds m a (le64 n @ rest)" and "n < 2 ^ 64"
  shows "read_u64 m a = n"
proof -
  have "m (a + i) = word_of_nat (n div 256 ^ i)" if "i < 8" for i
  proof -
    have "(le64 n @ rest) ! i = word_of_nat (n div 256 ^ i)" using that by (simp add: le64_def nth_append)
    then show ?thesis using assms(1) that by (simp add: holds_def le64_def)
  qed
  then have "read_u64 m a = (\<Sum>i \<leftarrow> [0 ..< 8]. (n div 256 ^ i mod 256) * 256 ^ i)"
    unfolding read_u64_def by (intro arg_cong [where f = sum_list] map_cong) (simp_all add: unat_byte)
  then show ?thesis using digits_256 [of n 8] assms(2) by simp
qed

lemma holds_append: "holds m a (xs @ ys) \<longleftrightarrow> holds m a xs \<and> holds m (a + length xs) ys"
proof
  assume h: "holds m a (xs @ ys)"
  have "m (a + length xs + i) = ys ! i" if "i < length ys" for i
    using h [unfolded holds_def, rule_format, of "length xs + i"] that by (simp add: add.assoc)
  moreover have "m (a + i) = xs ! i" if "i < length xs" for i
    using h [unfolded holds_def, rule_format, of i] that by (simp add: nth_append)
  ultimately show "holds m a xs \<and> holds m (a + length xs) ys" by (simp add: holds_def)
next
  assume h: "holds m a xs \<and> holds m (a + length xs) ys"
  show "holds m a (xs @ ys)"
    unfolding holds_def
  proof (intro allI impI)
    fix i assume "i < length (xs @ ys)"
    then show "m (a + i) = (xs @ ys) ! i"
      using h [THEN conjunct1, unfolded holds_def, rule_format, of i]
        h [THEN conjunct2, unfolded holds_def, rule_format, of "i - length xs"]
      by (cases "i < length xs") (simp_all add: nth_append)
  qed
qed

lemma read_string_bytes:
  assumes "holds m a (map (\<lambda>c. word_of_nat (code_of c)) s)"
  shows "read_string m a (length s) = s"
proof (rule nth_equalityI)
  show "length (read_string m a (length s)) = length s" by (simp add: read_string_def)
  fix i assume "i < length (read_string m a (length s))"
  then have i: "i < length s" by (simp add: read_string_def)
  then have "m (a + i) = word_of_nat (code_of (s ! i))" using assms by (simp add: holds_def)
  moreover have "code_of (s ! i) < 256" by simp
  ultimately show "read_string m a (length s) ! i = s ! i"
    using i by (simp add: read_string_def unat_byte)
qed

lemma st_entry_meta:
  assumes "st_name t \<noteq> ''__metadata__''" "st_start t \<le> st_end t" "st_end t < 2 ^ 64"
  shows "entry_meta (st_name t) (snd (st_entry t)) =
    Some \<lparr>m_data_offset = st_start t, m_nbytes = st_end t - st_start t,
          m_dtype = dtype_from_string (st_dtype t), m_shape = st_shape t\<rparr>"
proof -
  have "int (st_end t) - int (st_start t) = int (st_end t - st_start t)" using assms(2) by simp
  then have "nat (int (st_start t) mod 2 ^ 64) = st_start t"
    "nat ((int (st_end t) - int (st_start t)) mod 2 ^ 64) = st_end t - st_start t"
    using assms(2,3) by simp_all
  moreover have "map val_i (filter is_int (map JInt xs)) = xs" for xs
    by (induction xs) (simp_all add: val_i_def is_int_def)
  ultimately show ?thesis
    using assms(1) by (simp add: entry_meta_def st_entry_def is_object_def json_find_def is_string_def is_array_def
        val_arr_def val_s_def val_i_def)
qed

lemma map_of_entries:
  "distinct (map fst kvs) \<Longrightarrow> map_of (foldl add_entry ts kvs) k =
     (case map_of kvs k of
        None \<Rightarrow> map_of ts k
      | Some v \<Rightarrow> case entry_meta k v of None \<Rightarrow> map_of ts k | Some m \<Rightarrow> Some m)"
proof (induction kvs arbitrary: ts)
  case (Cons kv kvs)
  have none: "map_of kvs (fst kv) = None" using Cons.prems by (simp add: map_of_eq_None_iff)
  have "map_of (foldl add_entry ts (kv # kvs)) k =
    (case map_of kvs k of
        None \<Rightarrow> map_of (add_entry ts kv) k
      | Some v \<Rightarrow> case entry_meta k v of None \<Rightarrow> map_of (add_entry ts kv) k | Some m \<Rightarrow> Some m)"
    using Cons.IH [of "add_entry ts kv"] Cons.prems by simp
  moreover have "map_of (add_entry ts kv) k =
      (if k = fst kv then case entry_meta k (snd kv) of None \<Rightarrow> map_of ts k | Some m \<Rightarrow> Some m else map_of ts k)"
    by (auto simp: add_entry_def update_conv' split: option.split)
  ultimately show ?case
    using none by (cases kv) (auto split: option.split)
qed simp

lemma st_sorted_distinct: "sorted_wrt str_less ks \<Longrightarrow> distinct ks"
  by (induction ks) (auto simp: str_less_irrefl)

lemma st_header_printable:
  assumes "st_readable ts data"
  shows "printable (JObject (map st_entry ts))"
proof -
  have "fst \<circ> st_entry = st_name" by (auto simp: st_entry_def)
  moreover have "printable (snd (st_entry t))" if "t \<in> set ts" for t
  proof -
    have sz: "st_start t < 2 ^ 63" "st_end t < 2 ^ 63"
      using assms that unfolding st_readable_def by fastforce+
    have "list_all printable (map JInt (st_shape t))"
      using assms that by (auto simp: st_readable_def list_all_iff)
    then show ?thesis using sz by (simp add: st_entry_def is_int64_def)
  qed
  ultimately show ?thesis using assms by (auto simp: st_readable_def list_all_iff)
qed

text \<open>Opening a well-formed file reads every entry of its header.\<close>

lemma open_st_file:
  assumes wf: "st_readable ts data" and h: "holds m base (st_file ts data)"
    and os: "0 \<le> os_open os path" "os_fstat os (os_open os path) = Some (length (st_file ts data))"
      "os_mmap os (os_open os path) (length (st_file ts data)) = Some base"
  shows "\<exists>w'. mmap_open os m w path = Inr (True, w') \<and> wm_base w' = base \<and>
    read_u64 m base = length (st_header ts) \<and> wm_header_json w' = st_header ts \<and>
    wm_tensors w' = foldl add_entry [] (map st_entry ts)"
proof -
  let ?h = "st_header ts"
  have lens: "length (le64 n) = 8" for n by (simp add: le64_def)
  have size: "8 + length ?h \<le> length (st_file ts data)" "length (st_file ts data) < 2 ^ 63"
    using wf by (simp_all add: st_readable_def st_file_def lens)
  have hlen: "read_u64 m base = length ?h"
    by (rule read_le64) (use h size in \<open>simp_all add: st_file_def\<close>)
  have "holds m (base + 8) (map (\<lambda>c. word_of_nat (code_of c)) ?h)"
    using h by (simp add: st_file_def holds_append lens)
  then have hs: "read_string m (base + 8) (length ?h) = ?h" by (rule read_string_bytes)
  have pr: "json_parse ?h = Inr (JObject (map st_entry ts), True)"
    using json_parse_render [OF st_header_printable [OF wf], of "[]"] by (simp add: st_header_def clean_def)
  have ne: "?h \<noteq> []" by (simp add: st_header_def)
  define w1 where "w1 = (mmap_close w)\<lparr>wm_fd := os_open os path, wm_size := length (st_file ts data), wm_base := base\<rparr>"
  have mf: "map_file os (mmap_close w) path = (True, w1)"
    using os size by (simp add: map_file_def w1_def)
  have w1: "wm_base w1 = base" "wm_size w1 = length (st_file ts data)" "wm_tensors w1 = []"
    by (simp_all add: w1_def mmap_close_def)
  have "\<not> wm_size w1 < add64 8 (length ?h)" "\<not> max_string < length ?h"
    using size w1 by (simp_all add: add64_def size_mod_def max_string_def)
  then have "mmap_open os m w path =
      Inr (True, w1\<lparr>wm_header_json := ?h, wm_tensors := foldl add_entry [] (map st_entry ts)\<rparr>)"
    using mf w1 hlen hs pr ne
    by (simp add: mmap_open_def parse_header_json_def is_object_def val_obj_def)
  then show ?thesis using hlen w1 by simp
qed

text \<open>Looking a tensor of the header up gives the range the header states, relative to the data section.\<close>

lemma lookup_st_file:
  assumes wf: "st_readable ts data" and w': "wm_base w' = base" "read_u64 m base = length (st_header ts)"
    "wm_header_json w' = st_header ts" "wm_tensors w' = foldl add_entry [] (map st_entry ts)"
  shows "t \<in> set ts \<Longrightarrow> mmap_lookup m w' (st_name t) =
      \<lparr>v_data = base + (8 + length (st_header ts) + st_start t), v_nbytes = st_end t - st_start t,
       v_dtype = dtype_from_string (st_dtype t), v_shape = st_shape t\<rparr>"
    and "n \<notin> st_name ` set ts \<Longrightarrow> mmap_lookup m w' n = no_view"
proof -
  let ?h = "st_header ts"
  have fst: "map fst (map st_entry ts) = map st_name ts" by (simp add: st_entry_def)
  have dist: "distinct (map fst (map st_entry ts))"
    unfolding fst using wf st_sorted_distinct by (auto simp: st_readable_def)
  have len: "length (st_file ts data) = 8 + length ?h + length data" by (simp add: st_file_def le64_def)
  show "mmap_lookup m w' (st_name t) =
      \<lparr>v_data = base + (8 + length ?h + st_start t), v_nbytes = st_end t - st_start t,
       v_dtype = dtype_from_string (st_dtype t), v_shape = st_shape t\<rparr>" if t: "t \<in> set ts"
  proof -
    have b: "st_name t \<noteq> ''__metadata__''" "st_start t \<le> st_end t" "st_end t < 2 ^ 63"
      "length (st_file ts data) < 2 ^ 63" using wf t by (auto simp: st_readable_def)
    have "map_of (map st_entry ts) (st_name t) = Some (snd (st_entry t))"
      using t by (intro map_of_is_SomeI [OF dist]) (auto simp: st_entry_def)
    then have "map_of (wm_tensors w') (st_name t) =
      Some \<lparr>m_data_offset = st_start t, m_nbytes = st_end t - st_start t,
          m_dtype = dtype_from_string (st_dtype t), m_shape = st_shape t\<rparr>"
      using w'(4) map_of_entries [OF dist] st_entry_meta [OF b(1,2)] b by simp
    moreover have "add64 (add64 8 (length ?h)) (st_start t) = 8 + length ?h + st_start t"
      using b len by (simp add: add64_def size_mod_def)
    ultimately show ?thesis using w' by (simp add: mmap_lookup_def st_header_def)
  qed
  show "mmap_lookup m w' n = no_view" if "n \<notin> st_name ` set ts"
  proof -
    have "map_of (map st_entry ts) n = None" using that fst by (metis list.set_map map_of_eq_None_iff)
    then show ?thesis using w'(4) map_of_entries [OF dist] by (simp add: mmap_lookup_def)
  qed
qed

section \<open>Names of experts\<close>

lemma expert_tensor_name_full:
  assumes "is_int32 l" "is_int32 e"
  shows "expert_tensor_name l e k = ''model.language_model.layers.'' @ show_int l @ ''.mlp.experts.'' @ show_int e @ ''.'' @
       kind_name k @ ''.weight''"
proof -
  have "length (kind_name k) \<le> 9" by (cases k) (simp_all add: kind_name_def)
  then show ?thesis
    unfolding expert_tensor_name_def using show_int_length [OF assms(1)] show_int_length [OF assms(2)]
    by (intro take_all) simp
qed

lemma expert_tensor_name_inj:
  assumes "is_int32 l" "is_int32 e" "is_int32 l'" "is_int32 e'"
    and eq: "expert_tensor_name l e k = expert_tensor_name l' e' k'"
  shows "l = l' \<and> e = e' \<and> k = k'"
proof -
  let ?r = "\<lambda>e k. ''mlp.experts.'' @ show_int e @ CHR ''.'' # kind_name k @ ''.weight''"
  have "show_int l @ CHR ''.'' # ?r e k = show_int l' @ CHR ''.'' # ?r e' k'"
    using eq by (simp add: expert_tensor_name_full assms(1-4))
  from split_at_dot [OF show_int_no_dot show_int_no_dot this]
  have l: "show_int l = show_int l'" and r: "show_int e @ CHR ''.'' # kind_name k @ ''.weight'' = show_int e' @ CHR ''.'' # kind_name k' @ ''.weight''"
    by auto
  from split_at_dot [OF show_int_no_dot show_int_no_dot r]
  have "show_int e = show_int e'" "kind_name k = kind_name k'" by auto
  moreover from this have "k = k'" by (cases k; cases k') (simp_all add: kind_name_def)
  ultimately show ?thesis using l show_int_inj assms by blast
qed

section \<open>Properties\<close>


text \<open>A file with one tensor, mapped at address 4096.\<close>

definition example_tensor :: StTensor where
  "example_tensor = \<lparr>st_name = ''w'', st_dtype = ''F32'', st_shape = [1], st_start = 0, st_end = 4\<rparr>"

definition mapped :: "byte list \<Rightarrow> memory" where
  "mapped bs = (\<lambda>a. if a \<in> span 4096 (length bs) then bs ! (a - 4096) else 0)"

definition mapping_os :: "nat \<Rightarrow> OS" where
  "mapping_os n = \<lparr>os_open = (\<lambda>_. 3), os_fstat = (\<lambda>_. Some n), os_mmap = (\<lambda>_ _. Some 4096)\<rparr>"

lemma mapped_holds: "holds (mapped bs) 4096 bs"
  by (simp add: holds_def mapped_def)

lemma example_readable: "st_readable [example_tensor] [1, 2, 3, 4]" "st_readable [example_tensor\<lparr>st_end := 1000\<rparr>] []"
  by (simp_all add: st_readable_def example_tensor_def is_int64_def st_file_def le64_def st_header_def st_entry_def
      quote_def escape_def show_int_def show_nat.simps digit_def)


text \<open>
  Offsets are not checked against the file. For every tensor whose header entry ends beyond the
  data section, opening still succeeds and the lookup returns a view that runs past the mapping.
\<close>

theorem lookup_ignores_file_size:
  assumes "st_readable ts data" and "holds m base (st_file ts data)" and "0 \<le> os_open os path"
    and "os_fstat os (os_open os path) = Some (length (st_file ts data))"
    and "os_mmap os (os_open os path) (length (st_file ts data)) = Some base"
    and "t \<in> set ts" and "st_start t < st_end t" and "length data < st_end t"
  shows "\<exists>w'. mmap_open os m w path = Inr (True, w') \<and>
    (let v = mmap_lookup m w' (st_name t) in
       view_ok v \<and> v_data v + v_nbytes v - 1 \<notin> span base (length (st_file ts data)))"
proof -
  obtain w' where w': "mmap_open os m w path = Inr (True, w')" "wm_base w' = base"
    "read_u64 m base = length (st_header ts)" "wm_header_json w' = st_header ts"
    "wm_tensors w' = foldl add_entry [] (map st_entry ts)"
    using open_st_file [OF assms(1-5)] by blast
  have "length (st_file ts data) = 8 + length (st_header ts) + length data" by (simp add: st_file_def le64_def)
  then show ?thesis
    using w'(1) lookup_st_file(1) [OF assms(1) w'(2-5) assms(6)] assms(7,8) by (simp add: view_ok_def Let_def)
qed

theorem lookup_ignores_file_size_witness:
  "\<exists>w'. mmap_open (mapping_os (length (st_file [example_tensor\<lparr>st_end := 1000\<rparr>] [])))
      (mapped (st_file [example_tensor\<lparr>st_end := 1000\<rparr>] [])) mmap_new ''f'' = Inr (True, w') \<and>
    view_ok (mmap_lookup (mapped (st_file [example_tensor\<lparr>st_end := 1000\<rparr>] [])) w' ''w'')"
proof -
  let ?t = "example_tensor\<lparr>st_end := 1000\<rparr>"
  from lookup_ignores_file_size [OF example_readable(2) mapped_holds, of "mapping_os (length (st_file [?t] []))" "''f''" ?t mmap_new]
  show ?thesis by (auto simp: mapping_os_def example_tensor_def Let_def)
qed

text \<open>
  The test of the header length wraps. A file whose first 8 bytes state a length within 8 of
  \<open>2 ^ 64\<close> passes \<^verbatim>\<open>8 + hlen > size_\<close> and ends in an exception, where a refusal was meant.
\<close>

theorem header_length_check_wraps:
  assumes "0 \<le> os_open os path" and "os_fstat os (os_open os path) = Some sz" and "8 \<le> sz"
    and "os_mmap os (os_open os path) sz = Some base" and "2 ^ 64 - 8 \<le> read_u64 m base" and "read_u64 m base < 2 ^ 64"
  shows "mmap_open os m w path = Inl Length_error"
proof -
  define hlen where "hlen = read_u64 m base"
  have h: "hlen = 2 ^ 64 - 8 + (hlen - (2 ^ 64 - 8))" "hlen - (2 ^ 64 - 8) < 8" "2 ^ 64 - 8 \<le> hlen"
    using assms(5,6) by (simp_all add: hlen_def)
  have "8 + hlen = (hlen - (2 ^ 64 - 8)) + size_mod" using h(3) by (simp add: size_mod_def)
  then have "add64 8 hlen = (hlen - (2 ^ 64 - 8)) mod size_mod" by (simp only: add64_def mod_add_self2)
  then have a: "add64 8 hlen < 8" using h(2) by (simp add: size_mod_def)
  have "max_string < hlen" "hlen \<noteq> 0" using h(3) by (simp_all add: max_string_def)
  with a show ?thesis
    using assms(1-4) by (simp add: mmap_open_def map_file_def hlen_def [symmetric] Let_def)
qed

theorem header_length_check_wraps_witness:
  "mmap_open (mapping_os 100) (\<lambda>_. 255) mmap_new ''f'' = Inl Length_error"
  by (rule header_length_check_wraps [of _ _ 100 4096])
    (simp_all add: mapping_os_def read_u64_def upt_rec)

text \<open>
  Tensor names identify experts: two projections have the same name only if layer, expert and
  kind agree, and no name is cut off by the buffer.
\<close>

theorem expert_names_injective:
  assumes "is_int32 l" "is_int32 e" "is_int32 l'" "is_int32 e'"
  shows "expert_tensor_name l e k = expert_tensor_name l' e' k' \<longleftrightarrow> l = l' \<and> e = e' \<and> k = k'"
  using expert_tensor_name_inj [OF assms] by blast

theorem expert_names_injective_witness:
  "expert_tensor_name 1 23 GATE_PROJ \<noteq> expert_tensor_name 12 3 GATE_PROJ"
  using expert_names_injective [of 1 23 12 3 GATE_PROJ GATE_PROJ] by (simp add: is_int32_def)

end
