(* ===== verification/Arena.thy ===== *)
theory Arena
  imports Prelude
begin

text \<open>
  The class \<^verbatim>\<open>dee::Arena\<close> (\<^verbatim>\<open>include/dee/vram_cache.h\<close>, \<^verbatim>\<open>src/vram_cache.cpp\<close>): one
  fixed region of device memory carved by a first-fit free list with coalescing and a bump
  pointer. The invariant \<open>arena_inv\<close> relates the arena to the set of live blocks: live blocks
  and holes tile the bytes below the bump pointer, so live blocks never overlap and never leave
  the region. The interface a client relies on is the locale \<open>region_allocator\<close>.
\<close>

section \<open>State\<close>

record Hole =
  hole_off :: nat
  hole_size :: nat

text \<open>
  The backend: the injected \<^verbatim>\<open>alloc\<close> (absent when the \<^verbatim>\<open>std::function\<close> is empty; it returns
  an address, \<open>nullptr\<close> on failure), whether a \<^verbatim>\<open>free\<close> is set, and the kind string.
\<close>

record Backend =
  be_alloc :: "(nat \<Rightarrow> nat) option"
  be_free :: bool
  be_kind :: string

record Arena =
  a_be :: Backend
  a_base :: nat
  a_cap :: nat
  a_used :: nat
  a_high :: nat
  a_free :: "Hole list"

definition arena_new :: Arena where
  "arena_new = \<lparr>a_be = \<lparr>be_alloc = None, be_free = False, be_kind = []\<rparr>, a_base = nullptr,
     a_cap = 0, a_used = 0, a_high = 0, a_free = []\<rparr>"

section \<open>Operations\<close>

text \<open>The destructor returns the addresses it hands back to the backend.\<close>

definition arena_destroy :: "Arena \<Rightarrow> nat list \<times> Arena" where
  "arena_destroy a =
     ((if a_base a \<noteq> nullptr \<and> be_free (a_be a) then [a_base a] else []), a\<lparr>a_base := nullptr\<rparr>)"

definition arena_init :: "Arena \<Rightarrow> nat \<Rightarrow> Backend \<Rightarrow> bool \<times> Arena" where
  "arena_init a capacity be =
     (if a_base a \<noteq> nullptr then (False, a)
      else
        let a1 = a\<lparr>a_be := be, a_cap := capacity, a_used := 0, a_high := 0, a_free := []\<rparr>
        in case be_alloc be of
             None \<Rightarrow> (False, a1)
           | Some f \<Rightarrow> (let p = f capacity in (p \<noteq> nullptr, a1\<lparr>a_base := p\<rparr>)))"

text \<open>Step 1 of \<^verbatim>\<open>alloc\<close>: the first hole that is large enough, and the free list without it.\<close>

fun first_fit :: "Hole list \<Rightarrow> nat \<Rightarrow> (nat \<times> Hole list) option" where
  "first_fit [] bytes = None"
| "first_fit (h # hs) bytes =
     (if hole_size h \<ge> bytes
      then Some (hole_off h,
                 if hole_size h = bytes then hs
                 else \<lparr>hole_off = add64 (hole_off h) bytes,
                       hole_size = sub64 (hole_size h) bytes\<rparr> # hs)
      else case first_fit hs bytes of
             None \<Rightarrow> None
           | Some (off, hs') \<Rightarrow> Some (off, h # hs'))"

definition arena_alloc :: "Arena \<Rightarrow> nat \<Rightarrow> nat \<times> Arena" where
  "arena_alloc a bytes =
     (if bytes = 0 then (npos, a)
      else case first_fit (a_free a) bytes of
             Some (off, fl) \<Rightarrow> (off, a\<lparr>a_free := fl, a_used := add64 (a_used a) bytes\<rparr>)
           | None \<Rightarrow>
               if add64 (a_high a) bytes \<le> a_cap a
               then (a_high a, a\<lparr>a_high := add64 (a_high a) bytes,
                                 a_used := add64 (a_used a) bytes\<rparr>)
               else (npos, a))"

text \<open>
  \<^verbatim>\<open>std::lower_bound\<close> by offset followed by \<^verbatim>\<open>insert\<close>: the new hole goes before the first
  hole whose offset is not smaller (the list is sorted by offset).
\<close>

fun insert_hole :: "Hole \<Rightarrow> Hole list \<Rightarrow> Hole list" where
  "insert_hole h [] = [h]"
| "insert_hole h (x # xs) =
     (if hole_off x < hole_off h then x # insert_hole h xs else h # x # xs)"

text \<open>The loop of \<^verbatim>\<open>coalesce\<close>; the first argument is \<^verbatim>\<open>merged.back()\<close>.\<close>

fun coalesce_go :: "Hole \<Rightarrow> Hole list \<Rightarrow> Hole list" where
  "coalesce_go l [] = [l]"
| "coalesce_go l (h # hs) =
     (if add64 (hole_off l) (hole_size l) = hole_off h
      then coalesce_go (l\<lparr>hole_size := add64 (hole_size l) (hole_size h)\<rparr>) hs
      else l # coalesce_go h hs)"

definition coalesce :: "Hole list \<Rightarrow> Hole list" where
  "coalesce fl = (case fl of [] \<Rightarrow> [] | [h] \<Rightarrow> [h] | h # hs \<Rightarrow> coalesce_go h hs)"

definition arena_free :: "Arena \<Rightarrow> nat \<Rightarrow> nat \<Rightarrow> Arena" where
  "arena_free a off bytes =
     (if off = npos \<or> bytes = 0 then a
      else a\<lparr>a_free := coalesce (insert_hole \<lparr>hole_off = off, hole_size = bytes\<rparr> (a_free a)),
             a_used := sub64 (a_used a) bytes\<rparr>)"

definition arena_free_space :: "Arena \<Rightarrow> nat" where
  "arena_free_space a = sub64 (a_cap a) (a_used a)"

section \<open>The invariant\<close>

text \<open>A live block is a pair of offset and length.\<close>

type_synonym blk = "nat \<times> nat"

definition blk_bytes :: "blk \<Rightarrow> nat set" where
  "blk_bytes b = span (fst b) (snd b)"

definition hole_bytes :: "Hole \<Rightarrow> nat set" where
  "hole_bytes h = span (hole_off h) (hole_size h)"

definition free_bytes :: "Hole list \<Rightarrow> nat set" where
  "free_bytes fl = (\<Union>h \<in> set fl. hole_bytes h)"

definition live_bytes :: "blk set \<Rightarrow> nat set" where
  "live_bytes L = (\<Union>b \<in> L. blk_bytes b)"

text \<open>Holes in increasing order; \<open>gap\<close> forbids adjacent holes, \<open>touch\<close> allows them.\<close>

definition gap :: "Hole \<Rightarrow> Hole \<Rightarrow> bool" where
  "gap x y \<longleftrightarrow> hole_off x + hole_size x < hole_off y"

definition touching :: "Hole \<Rightarrow> Hole \<Rightarrow> bool" where
  "touching x y \<longleftrightarrow> hole_off x + hole_size x \<le> hole_off y"

definition hole_ok :: "Hole \<Rightarrow> bool" where
  "hole_ok h \<longleftrightarrow> 0 < hole_size h \<and> hole_off h + hole_size h < size_mod"

definition holes_ok :: "Hole list \<Rightarrow> bool" where
  "holes_ok fl \<longleftrightarrow> (\<forall>h \<in> set fl. hole_ok h) \<and> sorted_wrt gap fl"

definition live_ok :: "blk set \<Rightarrow> bool" where
  "live_ok L \<longleftrightarrow> finite L \<and> (\<forall>b \<in> L. 0 < snd b) \<and>
     (\<forall>b \<in> L. \<forall>c \<in> L. b \<noteq> c \<longrightarrow> blk_bytes b \<inter> blk_bytes c = {})"

definition arena_inv :: "Arena \<Rightarrow> blk set \<Rightarrow> bool" where
  "arena_inv a L \<longleftrightarrow>
     a_cap a < size_mod \<and> a_high a \<le> a_cap a \<and>
     holes_ok (a_free a) \<and> live_ok L \<and>
     free_bytes (a_free a) \<inter> live_bytes L = {} \<and>
     free_bytes (a_free a) \<union> live_bytes L = {..< a_high a} \<and>
     a_used a = (\<Sum>b \<in> L. snd b)"

lemmas bytes_defs = free_bytes_def hole_bytes_def live_bytes_def blk_bytes_def

lemma free_bytes_simps [simp]:
  "free_bytes [] = {}"
  "free_bytes (h # hs) = hole_bytes h \<union> free_bytes hs"
  by (auto simp: free_bytes_def)

lemma live_bytes_simps [simp]:
  "live_bytes {} = {}"
  "live_bytes (insert b L) = blk_bytes b \<union> live_bytes L"
  by (auto simp: live_bytes_def)

lemma mem_hole_bytes [simp]:
  "x \<in> hole_bytes h \<longleftrightarrow> hole_off h \<le> x \<and> x < hole_off h + hole_size h"
  by (simp add: hole_bytes_def)

lemma mem_blk_bytes [simp]: "x \<in> blk_bytes b \<longleftrightarrow> fst b \<le> x \<and> x < fst b + snd b"
  by (simp add: blk_bytes_def)

lemma mem_free_bytes:
  "x \<in> free_bytes fl \<longleftrightarrow> (\<exists>h \<in> set fl. hole_off h \<le> x \<and> x < hole_off h + hole_size h)"
  by (simp add: free_bytes_def)

section \<open>The free list\<close>

lemma holes_ok_simps [simp]:
  "holes_ok []"
  "holes_ok (h # hs) \<longleftrightarrow> hole_ok h \<and> (\<forall>x \<in> set hs. gap h x) \<and> holes_ok hs"
  by (auto simp: holes_ok_def)

lemma later_disjoint: "\<forall>y \<in> set fl. touching h y \<Longrightarrow> hole_bytes h \<inter> free_bytes fl = {}"
  by (fastforce simp: touching_def mem_free_bytes)

lemma gap_touching: "gap x y \<Longrightarrow> touching x y"
  by (simp add: gap_def touching_def)

lemma gap_mono: "gap h y \<Longrightarrow> hole_off y \<le> hole_off x \<Longrightarrow> gap h x"
  by (simp add: gap_def)

text \<open>
  What \<open>first_fit\<close> takes is a run of free bytes, and exactly those bytes leave the free list;
  the new holes start no earlier than old ones, which keeps the order.
\<close>

lemma first_fit_split:
  assumes "first_fit fl n = Some (off, fl')" and "holes_ok fl" and "0 < n"
  shows "holes_ok fl' \<and> free_bytes fl = span off n \<union> free_bytes fl' \<and>
         span off n \<inter> free_bytes fl' = {} \<and> (\<forall>x \<in> set fl'. \<exists>y \<in> set fl. hole_off y \<le> hole_off x)"
  using assms
proof (induction fl arbitrary: off fl')
  case Nil
  then show ?case by simp
next
  case (Cons h hs)
  from Cons.prems(2) have h: "hole_ok h" and g: "\<forall>x \<in> set hs. gap h x" and hs: "holes_ok hs"
    by simp_all
  have d: "hole_bytes h \<inter> free_bytes hs = {}"
    using g by (intro later_disjoint) (auto intro: gap_touching)
  show ?case
  proof (cases "hole_size h \<ge> n")
    case True
    show ?thesis
    proof (cases "hole_size h = n")
      case True
      with Cons.prems(1) have "off = hole_off h" "fl' = hs" by auto
      with True hs d show ?thesis by (auto simp: hole_bytes_def)
    next
      case False
      define r where "r = \<lparr>hole_off = hole_off h + n, hole_size = hole_size h - n\<rparr>"
      have "hole_size h < size_mod" "hole_off h + n < size_mod"
        using h True False by (auto simp: hole_ok_def)
      then have eq: "off = hole_off h" "fl' = r # hs"
        using Cons.prems(1) True False by (auto simp: r_def size_simps)
      have cut: "hole_bytes h = span off n \<union> hole_bytes r" "span off n \<inter> hole_bytes r = {}"
        using True by (auto simp: hole_bytes_def eq r_def)
      have "hole_ok r" "\<forall>x \<in> set hs. gap r x"
        using h g True False by (auto simp: hole_ok_def gap_def r_def)
      moreover have "\<forall>x \<in> set fl'. \<exists>y \<in> set (h # hs). hole_off y \<le> hole_off x"
        by (auto simp: eq r_def)
      ultimately show ?thesis
        using cut d hs by (auto simp: eq simp del: mem_span mem_hole_bytes)
    qed
  next
    case False
    then obtain hs' where ff: "first_fit hs n = Some (off, hs')" and fl': "fl' = h # hs'"
      using Cons.prems(1) by (auto split: option.splits)
    note IH = Cons.IH [OF ff hs Cons.prems(3)]
    have "\<forall>x \<in> set hs'. gap h x"
      using IH g gap_mono by blast
    moreover have "span off n \<inter> hole_bytes h = {}"
      using IH d by blast
    ultimately show ?thesis
      using IH h by (auto simp: fl' simp del: mem_span mem_hole_bytes)
  qed
qed

lemma first_fit_None_iff: "first_fit fl n = None \<longleftrightarrow> (\<forall>h \<in> set fl. hole_size h < n)"
  by (induction fl) (auto split: option.splits)

lemma set_insert_hole [simp]: "set (insert_hole h fl) = insert h (set fl)"
  by (induction fl) auto

lemma free_bytes_insert_hole [simp]:
  "free_bytes (insert_hole h fl) = hole_bytes h \<union> free_bytes fl"
  by (simp add: free_bytes_def)

lemma insert_hole_touching:
  assumes "holes_ok fl" and "hole_ok h" and "hole_bytes h \<inter> free_bytes fl = {}"
  shows "sorted_wrt touching (insert_hole h fl)"
  using assms
proof (induction fl)
  case Nil
  then show ?case by simp
next
  case (Cons x xs)
  have ok: "0 < hole_size h" "0 < hole_size x" "\<forall>y \<in> set xs. gap x y" "holes_ok xs"
    using Cons.prems by (auto simp: hole_ok_def)
  have dj: "hole_off h + hole_size h \<le> hole_off x \<or> hole_off x + hole_size x \<le> hole_off h"
    using Cons.prems(3) ok(1,2) by (intro span_disjointD) (auto simp: hole_bytes_def)
  have IH: "sorted_wrt touching (insert_hole h xs)"
    using Cons by auto
  have xs: "sorted_wrt touching xs"
    using ok(4) by (auto simp: holes_ok_def intro: sorted_wrt_mono_rel [OF gap_touching])
  show ?case
  proof (cases "hole_off x < hole_off h")
    case True
    then have "\<forall>y \<in> set (insert_hole h xs). touching x y"
      using dj ok(1,3) by (auto simp: touching_def gap_def)
    with True IH show ?thesis by simp
  next
    case False
    then have "touching h x" using dj ok(2) by (auto simp: touching_def)
    moreover have "\<forall>y \<in> set xs. touching h y"
      using \<open>touching h x\<close> ok(3) by (fastforce simp: touching_def gap_def)
    ultimately show ?thesis
      using False xs ok(3) by (auto intro: gap_touching)
  qed
qed

lemma coalesce_go_ok:
  assumes "sorted_wrt touching (l # hs)" and "\<forall>h \<in> set (l # hs). hole_ok h"
  shows "holes_ok (coalesce_go l hs) \<and> free_bytes (coalesce_go l hs) = free_bytes (l # hs) \<and>
         (\<forall>x \<in> set (coalesce_go l hs). hole_off l \<le> hole_off x)"
  using assms
proof (induction l hs rule: coalesce_go.induct)
  case (1 l)
  then show ?case by simp
next
  case (2 l h hs)
  have l: "hole_ok l" and h: "hole_ok h" and t: "touching l h"
    using "2.prems" by auto
  have nowrap: "add64 (hole_off l) (hole_size l) = hole_off l + hole_size l"
    using l by (simp add: hole_ok_def size_simps)
  show ?case
  proof (cases "hole_off l + hole_size l = hole_off h")
    case True
    define m where "m = l\<lparr>hole_size := hole_size l + hole_size h\<rparr>"
    have m: "hole_off m = hole_off l" "hole_bytes m = hole_bytes l \<union> hole_bytes h" "hole_ok m"
      using True l h by (auto simp: m_def hole_ok_def)
    have "add64 (hole_size l) (hole_size h) = hole_size l + hole_size h"
      using True h by (simp add: hole_ok_def size_simps)
    then have eq: "coalesce_go l (h # hs) = coalesce_go m hs"
      using True nowrap by (simp add: m_def)
    have "\<forall>x \<in> set hs. touching m x"
      using "2.prems"(1) True by (auto simp: touching_def m_def)
    then have "sorted_wrt touching (m # hs)"
      using "2.prems"(1) by simp
    then show ?thesis
      using "2.IH"(1) True nowrap m eq "2.prems"(2)
      by (simp add: m_def Un_assoc \<open>add64 (hole_size l) (hole_size h) = hole_size l + hole_size h\<close>)
  next
    case False
    with nowrap have eq: "coalesce_go l (h # hs) = l # coalesce_go h hs" by simp
    have IH: "holes_ok (coalesce_go h hs)" "free_bytes (coalesce_go h hs) = free_bytes (h # hs)"
      "\<forall>x \<in> set (coalesce_go h hs). hole_off h \<le> hole_off x"
      using "2.IH"(2) False nowrap "2.prems" by auto
    have "gap l h" using False t by (simp add: gap_def touching_def)
    then have "\<forall>x \<in> set (coalesce_go h hs). gap l x"
      using IH(3) gap_mono by blast
    moreover have "hole_off l \<le> hole_off h" using t by (simp add: touching_def)
    ultimately show ?thesis using eq IH l by auto
  qed
qed

lemma coalesce_simps: "coalesce [] = []" "coalesce (h # hs) = coalesce_go h hs"
  by (simp_all add: coalesce_def split: list.split)

lemma coalesce_ok:
  assumes "sorted_wrt touching fl" and "\<forall>h \<in> set fl. hole_ok h"
  shows "holes_ok (coalesce fl)" and "free_bytes (coalesce fl) = free_bytes fl"
  using assms coalesce_go_ok by (cases fl; simp only: coalesce_simps holes_ok_simps; blast)+

section \<open>Allocation and release keep the invariant\<close>

lemma arena_invD:
  assumes "arena_inv a L"
  shows "a_cap a < size_mod" "a_high a \<le> a_cap a" "holes_ok (a_free a)" "live_ok L"
    "free_bytes (a_free a) \<inter> live_bytes L = {}"
    "free_bytes (a_free a) \<union> live_bytes L = {..< a_high a}" "a_used a = (\<Sum>b \<in> L. snd b)"
  using assms by (auto simp: arena_inv_def)

lemma sum_live_bytes: "live_ok L \<Longrightarrow> (\<Sum>b \<in> L. snd b) = card (live_bytes L)"
  unfolding live_bytes_def live_ok_def
  by (subst card_UN_disjoint) (auto simp: blk_bytes_def)

lemma arena_used_card: "arena_inv a L \<Longrightarrow> a_used a = card (live_bytes L)"
  by (simp add: arena_inv_def sum_live_bytes)

lemma arena_used_le_high:
  assumes "arena_inv a L"
  shows "a_used a \<le> a_high a"
proof -
  have "live_bytes L \<subseteq> {..< a_high a}"
    using arena_invD(6) [OF assms] by blast
  then have "card (live_bytes L) \<le> card {..< a_high a}"
    by (intro card_mono) auto
  then show ?thesis
    by (simp add: arena_used_card [OF assms])
qed

lemma arena_free_space_eq: "arena_inv a L \<Longrightarrow> arena_free_space a = a_cap a - a_used a"
  using arena_used_le_high [of a L] arena_invD(1,2) [of a L]
  by (simp add: arena_free_space_def size_simps)

lemma live_in_region:
  assumes "arena_inv a L" and "b \<in> L"
  shows "fst b + snd b \<le> a_high a"
proof -
  have "fst b + snd b - 1 \<in> live_bytes L" and "0 < snd b"
    using assms by (auto simp: live_bytes_def arena_inv_def live_ok_def intro!: bexI [of _ b])
  then have "fst b + snd b - 1 < a_high a"
    using arena_invD(6) [OF assms(1)] by auto
  then show ?thesis by linarith
qed

lemma live_ok_insert:
  assumes "live_ok L" and "0 < n" and "span off n \<inter> live_bytes L = {}"
  shows "live_ok (insert (off, n) L)" and "(off, n) \<notin> L"
proof -
  have d: "\<forall>b \<in> L. span off n \<inter> blk_bytes b = {}"
    using assms(3) by (auto simp: live_bytes_def simp del: mem_span mem_blk_bytes)
  have "blk_bytes (off, n) \<noteq> {}"
    using assms(2) by (simp add: blk_bytes_def)
  with d show "(off, n) \<notin> L"
    by (auto simp: blk_bytes_def simp del: mem_span)
  have "blk_bytes (off, n) = span off n"
    by (simp add: blk_bytes_def)
  with d assms(1,2) show "live_ok (insert (off, n) L)"
    unfolding live_ok_def by (simp add: Int_commute)
qed

lemma arena_add_block:
  assumes inv: "arena_inv a L" and n: "0 < n" and h: "h \<le> a_cap a" and fl: "holes_ok fl"
    and dl: "span off n \<inter> live_bytes L = {}"
    and df: "free_bytes fl \<inter> (span off n \<union> live_bytes L) = {}"
    and tile: "free_bytes fl \<union> (span off n \<union> live_bytes L) = {..< h}"
  shows "arena_inv (a\<lparr>a_free := fl, a_high := h, a_used := add64 (a_used a) n\<rparr>) (insert (off, n) L)"
proof -
  note i = arena_invD [OF inv]
  note ok = live_ok_insert [OF i(4) n dl]
  have "finite L" using i(4) by (simp add: live_ok_def)
  then have sum: "(\<Sum>b \<in> insert (off, n) L. snd b) = a_used a + n"
    using ok(2) i(7) by simp
  have "live_bytes (insert (off, n) L) \<subseteq> {..< h}"
    using tile by (auto simp: blk_bytes_def simp del: mem_span)
  then have "card (live_bytes (insert (off, n) L)) \<le> h"
    using card_mono [of "{..< h}"] by fastforce
  then have "a_used a + n < size_mod"
    using sum_live_bytes [OF ok(1)] sum h i(1) by linarith
  then have "add64 (a_used a) n = (\<Sum>b \<in> insert (off, n) L. snd b)"
    using sum by (simp add: size_simps)
  moreover have "live_bytes (insert (off, n) L) = span off n \<union> live_bytes L"
    by (simp add: blk_bytes_def)
  ultimately show ?thesis
    using i(1) h fl ok(1) df tile by (simp add: arena_inv_def)
qed

lemma arena_alloc_cases:
  assumes inv: "arena_inv a L" and nw: "a_cap a + n < size_mod" and n: "0 < n"
    and al: "arena_alloc a n = (off, a')"
  shows "(off = npos \<and> a' = a \<and> (\<forall>h \<in> set (a_free a). hole_size h < n) \<and> a_cap a < a_high a + n)
    \<or> (off \<noteq> npos \<and> arena_inv a' (insert (off, n) L) \<and> span off n \<inter> live_bytes L = {} \<and>
       off + n \<le> a_cap a \<and> a_cap a' = a_cap a \<and> a_base a' = a_base a)"
proof -
  note i = arena_invD [OF inv]
  have far: "x + n \<le> a_cap a \<Longrightarrow> x \<noteq> npos" for x
    using n i(1) by (auto simp: npos_def)
  show ?thesis
  proof (cases "first_fit (a_free a) n")
    case (Some p)
    then obtain fl where ff: "first_fit (a_free a) n = Some (off, fl)"
      and a': "a' = a\<lparr>a_free := fl, a_used := add64 (a_used a) n\<rparr>"
      using al n by (cases p) (auto simp: arena_alloc_def)
    note sp = first_fit_split [OF ff i(3) n]
    have "span off n \<subseteq> {..< a_high a}" using sp i(6) by blast
    moreover have "off + n - 1 \<in> span off n" using n by simp
    ultimately have "off + n - 1 < a_high a" by blast
    then have le: "off + n \<le> a_cap a" using i(2) by linarith
    have "arena_inv (a\<lparr>a_free := fl, a_high := a_high a, a_used := add64 (a_used a) n\<rparr>)
            (insert (off, n) L)"
      using sp i(5,6) by (intro arena_add_block [OF inv n i(2)]) blast+
    then have "arena_inv a' (insert (off, n) L)" by (simp add: a' arena_inv_def)
    moreover have "span off n \<inter> live_bytes L = {}" using sp i(5) by blast
    ultimately show ?thesis using le far [OF le] by (simp add: a')
  next
    case None
    have hn: "add64 (a_high a) n = a_high a + n"
      using nw i(2) by (simp add: size_simps)
    show ?thesis
    proof (cases "a_high a + n \<le> a_cap a")
      case True
      have al': "off = a_high a"
        "a' = a\<lparr>a_high := a_high a + n, a_used := add64 (a_used a) n\<rparr>"
        using al n None True hn by (auto simp: arena_alloc_def)
      have d: "span (a_high a) n \<inter> {..< a_high a} = {}" by auto
      have t: "{..< a_high a} \<union> span (a_high a) n = {..< a_high a + n}" by auto
      have "arena_inv (a\<lparr>a_free := a_free a, a_high := a_high a + n, a_used := add64 (a_used a) n\<rparr>)
              (insert (a_high a, n) L)"
        using i(3,5,6) d t by (intro arena_add_block [OF inv n True]) blast+
      then have "arena_inv a' (insert (off, n) L)" by (simp add: al' arena_inv_def)
      moreover have "span off n \<inter> live_bytes L = {}" using d i(6) al' by blast
      ultimately show ?thesis using True far [OF True] by (simp add: al')
    next
      case False
      with al n None hn have "off = npos" "a' = a" by (auto simp: arena_alloc_def)
      with None False show ?thesis by (simp add: first_fit_None_iff)
    qed
  qed
qed

lemma arena_alloc_zero [simp]: "arena_alloc a 0 = (npos, a)"
  by (simp add: arena_alloc_def)

lemma arena_alloc_frame:
  "arena_alloc a n = (off, a') \<Longrightarrow> a_cap a' = a_cap a \<and> a_base a' = a_base a"
  by (auto simp: arena_alloc_def split: if_splits option.splits)

lemma arena_free_frame [simp]:
  "a_cap (arena_free a off n) = a_cap a" "a_base (arena_free a off n) = a_base a"
  "a_high (arena_free a off n) = a_high a"
  by (simp_all add: arena_free_def)

lemma live_bytes_remove:
  assumes "live_ok L" and "b \<in> L"
  shows "live_bytes L = blk_bytes b \<union> live_bytes (L - {b})"
    and "blk_bytes b \<inter> live_bytes (L - {b}) = {}"
  using assms unfolding live_ok_def live_bytes_def
  by (auto simp del: mem_blk_bytes)

lemma arena_free_inv:
  assumes inv: "arena_inv a L" and b: "(off, n) \<in> L"
  shows "arena_inv (arena_free a off n) (L - {(off, n)})"
proof -
  note i = arena_invD [OF inv]
  have n: "0 < n" and fin: "finite L" using i(4) b by (auto simp: live_ok_def)
  have le: "off + n \<le> a_high a" using live_in_region [OF inv b] by simp
  then have "off \<noteq> npos" using i(1,2) n by (auto simp: npos_def)
  define h where "h = \<lparr>hole_off = off, hole_size = n\<rparr>"
  have hb: "hole_bytes h = blk_bytes (off, n)"
    by (simp add: h_def hole_bytes_def blk_bytes_def)
  have h: "hole_ok h" using n le i(1,2) by (simp add: h_def hole_ok_def)
  note rm = live_bytes_remove [OF i(4) b]
  have dj: "hole_bytes h \<inter> free_bytes (a_free a) = {}" using i(5) rm(1) hb by blast
  have "\<forall>x \<in> set (insert_hole h (a_free a)). hole_ok x"
    using h i(3) by (simp add: holes_ok_def)
  note co = coalesce_ok [OF insert_hole_touching [OF i(3) h dj] this]
  have "a_used a = n + (\<Sum>x \<in> L - {(off, n)}. snd x)"
    using i(7) sum.remove [OF fin b, of snd] by simp
  moreover have "a_used a < size_mod"
    using arena_used_le_high [OF inv] i(1,2) by linarith
  ultimately have "sub64 (a_used a) n = (\<Sum>x \<in> L - {(off, n)}. snd x)"
    by (simp add: size_simps)
  moreover have "live_ok (L - {(off, n)})" using i(4) by (simp add: live_ok_def)
  moreover have "free_bytes (insert_hole h (a_free a)) \<inter> live_bytes (L - {(off, n)}) = {}"
    using rm i(5) hb by (simp only: free_bytes_insert_hole) blast
  moreover have "free_bytes (insert_hole h (a_free a)) \<union> live_bytes (L - {(off, n)}) = {..< a_high a}"
    using rm(1) i(6) hb by (simp only: free_bytes_insert_hole) blast
  ultimately show ?thesis
    using i(1,2) co n \<open>off \<noteq> npos\<close>
    by (simp add: arena_inv_def arena_free_def h_def [symmetric] del: free_bytes_insert_hole)
qed

lemma arena_init_inv:
  "arena_init a cap be = (True, a') \<Longrightarrow> cap < size_mod \<Longrightarrow>
     arena_inv a' {} \<and> a_base a' \<noteq> nullptr \<and> a_cap a' = cap"
  by (auto simp: arena_init_def arena_inv_def live_ok_def Let_def split: if_splits option.splits)

section \<open>The allocator interface\<close>

text \<open>
  What a client of the arena relies on: successful allocations are fresh, failed ones change
  nothing, releases give exactly the named block back, and live blocks stay inside the region.
\<close>

locale region_allocator =
  fixes alloc :: "'s \<Rightarrow> nat \<Rightarrow> nat \<times> 's"
    and release :: "'s \<Rightarrow> nat \<Rightarrow> nat \<Rightarrow> 's"
    and capacity :: "'s \<Rightarrow> nat"
    and inv :: "'s \<Rightarrow> blk set \<Rightarrow> bool"
  assumes alloc_fresh: "inv s L \<Longrightarrow> capacity s + n < size_mod \<Longrightarrow> alloc s n = (off, s') \<Longrightarrow>
      off \<noteq> npos \<Longrightarrow> inv s' (insert (off, n) L) \<and> span off n \<inter> live_bytes L = {}"
    and alloc_fails: "inv s L \<Longrightarrow> capacity s + n < size_mod \<Longrightarrow> alloc s n = (npos, s') \<Longrightarrow> s' = s"
    and alloc_capacity: "alloc s n = (off, s') \<Longrightarrow> capacity s' = capacity s"
    and release_inv: "inv s L \<Longrightarrow> (off, n) \<in> L \<Longrightarrow> inv (release s off n) (L - {(off, n)})"
    and release_capacity: "capacity (release s off n) = capacity s"
    and inv_live: "inv s L \<Longrightarrow> live_ok L \<and> live_bytes L \<subseteq> {..< capacity s}"

text \<open>A client's request sequence; a release of a block that is not live is not issued.\<close>

datatype request = Alloc nat | Release nat nat

fun run_requests ::
  "('s \<Rightarrow> nat \<Rightarrow> nat \<times> 's) \<Rightarrow> ('s \<Rightarrow> nat \<Rightarrow> nat \<Rightarrow> 's) \<Rightarrow> request list \<Rightarrow> 's \<Rightarrow> blk set
     \<Rightarrow> 's \<times> blk set" where
  "run_requests alloc release [] s L = (s, L)"
| "run_requests alloc release (Alloc n # rs) s L =
     (case alloc s n of (off, s') \<Rightarrow>
        run_requests alloc release rs s' (if off = npos then L else insert (off, n) L))"
| "run_requests alloc release (Release off n # rs) s L =
     (if (off, n) \<in> L then run_requests alloc release rs (release s off n) (L - {(off, n)})
      else run_requests alloc release rs s L)"

definition requests_fit :: "nat \<Rightarrow> request list \<Rightarrow> bool" where
  "requests_fit cap rs \<longleftrightarrow> (\<forall>r \<in> set rs. case r of Alloc n \<Rightarrow> cap + n < size_mod | _ \<Rightarrow> True)"

lemma requests_fit_simps [simp]:
  "requests_fit cap []"
  "requests_fit cap (Alloc n # rs) \<longleftrightarrow> cap + n < size_mod \<and> requests_fit cap rs"
  "requests_fit cap (Release off n # rs) \<longleftrightarrow> requests_fit cap rs"
  by (auto simp: requests_fit_def)

context region_allocator
begin

lemma run_inv:
  assumes "inv s L" and "requests_fit (capacity s) rs"
    and "run_requests alloc release rs s L = (s', L')"
  shows "inv s' L' \<and> capacity s' = capacity s"
  using assms
proof (induction rs arbitrary: s L)
  case Nil
  then show ?case by simp
next
  case (Cons r rs)
  show ?case
  proof (cases r)
    case (Alloc n)
    obtain off t where al: "alloc s n = (off, t)" by fastforce
    have t: "capacity t = capacity s" using al by (rule alloc_capacity)
    have "inv t (if off = npos then L else insert (off, n) L)"
      using Cons.prems(1,2) al alloc_fresh alloc_fails by (fastforce simp: Alloc)
    then show ?thesis
      using Cons.IH [of t] Cons.prems(2,3) al t by (simp add: Alloc)
  next
    case (Release off n)
    show ?thesis
    proof (cases "(off, n) \<in> L")
      case True
      then show ?thesis
        using Cons.IH [of "release s off n" "L - {(off, n)}"] Cons.prems
          release_inv [OF Cons.prems(1) True] release_capacity by (simp add: Release)
    next
      case False
      then show ?thesis using Cons.IH Cons.prems by (simp add: Release)
    qed
  qed
qed

lemma run_blocks_disjoint:
  assumes "inv s L" and "requests_fit (capacity s) rs"
    and "run_requests alloc release rs s L = (s', L')"
    and "(off, n) \<in> L'" and "(off', n') \<in> L'" and "(off, n) \<noteq> (off', n')"
  shows "span off n \<inter> span off' n' = {}"
  using run_inv [OF assms(1,2,3)] inv_live [of s' L'] assms(4-6)
  by (fastforce simp: live_ok_def blk_bytes_def)

lemma run_blocks_inside:
  assumes "inv s L" and "requests_fit (capacity s) rs"
    and "run_requests alloc release rs s L = (s', L')" and "(off, n) \<in> L'"
  shows "span off n \<subseteq> {..< capacity s}"
  using run_inv [OF assms(1,2,3)] inv_live [of s' L'] assms(4)
  by (fastforce simp: live_bytes_def blk_bytes_def)

end

interpretation dee_arena: region_allocator arena_alloc arena_free a_cap arena_inv
proof (unfold_locales, goal_cases)
  case (1 s L n off s')
  then show ?case
    using arena_alloc_cases [of s L n off s'] by (cases "n = 0") auto
next
  case (2 s L n s')
  then show ?case
    using arena_alloc_cases [of s L n npos s'] by (cases "n = 0") auto
next
  case (3 s n off s')
  then show ?case by (simp add: arena_alloc_frame)
next
  case (4 s L off n)
  then show ?case by (rule arena_free_inv)
next
  case (5 s off n)
  show ?case by simp
next
  case (6 s L)
  then show ?case using arena_invD [of s L] by auto
qed

section \<open>Blocks of one size\<close>

text \<open>
  The engine only ever asks for blocks of one size (\<^verbatim>\<open>blob_bytes_\<close>). Then every hole is a
  multiple of that size, and the arena never fragments.
\<close>

definition aligned :: "nat \<Rightarrow> Hole \<Rightarrow> bool" where
  "aligned n h \<longleftrightarrow> n dvd hole_off h \<and> n dvd hole_size h"

definition arena_uniform :: "nat \<Rightarrow> Arena \<Rightarrow> blk set \<Rightarrow> bool" where
  "arena_uniform n a L \<longleftrightarrow> n dvd a_high a \<and>
     (\<forall>h \<in> set (a_free a). aligned n h) \<and>
     (\<forall>b \<in> L. n dvd fst b \<and> snd b = n)"

lemma arena_init_uniform: "arena_init a cap be = (True, a') \<Longrightarrow> arena_uniform n a' {}"
  by (auto simp: arena_uniform_def arena_init_def Let_def split: if_splits option.splits)

lemma first_fit_dvd:
  assumes "first_fit fl n = Some (off, fl')" and "holes_ok fl" and "0 < n"
    and "\<forall>h \<in> set fl. aligned n h"
  shows "n dvd off \<and> (\<forall>h \<in> set fl'. aligned n h)"
  using assms
proof (induction fl arbitrary: off fl')
  case Nil
  then show ?case by simp
next
  case (Cons h hs)
  have "hole_size h \<ge> n \<Longrightarrow> add64 (hole_off h) n = hole_off h + n \<and> sub64 (hole_size h) n = hole_size h - n"
    using Cons.prems(2) by (auto simp: hole_ok_def size_simps)
  then show ?case
    using Cons by (auto simp: aligned_def split: if_splits option.splits)
qed

lemma coalesce_go_dvd:
  assumes "\<forall>h \<in> set (l # hs). hole_ok h" and "\<forall>h \<in> set (l # hs). aligned n h"
    and "sorted_wrt touching (l # hs)"
  shows "\<forall>h \<in> set (coalesce_go l hs). aligned n h"
  using assms
proof (induction l hs rule: coalesce_go.induct)
  case (1 l)
  then show ?case by simp
next
  case (2 l h hs)
  define m where "m = l\<lparr>hole_size := hole_size l + hole_size h\<rparr>"
  have nowrap: "add64 (hole_off l) (hole_size l) = hole_off l + hole_size l"
    using "2.prems" by (simp add: hole_ok_def size_simps)
  show ?case
  proof (cases "hole_off l + hole_size l = hole_off h")
    case True
    have sz: "add64 (hole_size l) (hole_size h) = hole_size l + hole_size h"
      using True "2.prems" by (simp add: hole_ok_def size_simps)
    have m: "hole_ok m" "\<forall>x \<in> set hs. touching m x" "aligned n m"
      using "2.prems" True by (auto simp: m_def hole_ok_def touching_def aligned_def)
    have eq: "coalesce_go l (h # hs) = coalesce_go m hs"
      using True nowrap sz by (simp add: m_def)
    show ?thesis
      unfolding eq using "2.IH"(1) [unfolded nowrap sz, folded m_def] True m "2.prems" by simp
  next
    case False
    then show ?thesis using "2.IH"(2) "2.prems" nowrap by simp
  qed
qed

lemma arena_alloc_uniform:
  assumes "arena_inv a L" and "arena_uniform n a L" and "0 < n" and "a_cap a + n < size_mod"
    and "arena_alloc a n = (off, a')" and "off \<noteq> npos"
  shows "arena_uniform n a' (insert (off, n) L)"
proof (cases "first_fit (a_free a) n")
  case (Some p)
  then obtain fl where ff: "first_fit (a_free a) n = Some (off, fl)"
    and a': "a' = a\<lparr>a_free := fl, a_used := add64 (a_used a) n\<rparr>"
    using assms(3,5) by (cases p) (auto simp: arena_alloc_def)
  show ?thesis
    using first_fit_dvd [OF ff arena_invD(3) [OF assms(1)] assms(3)] assms(2)
    by (auto simp: arena_uniform_def a')
next
  case None
  have "add64 (a_high a) n = a_high a + n"
    using assms(4) arena_invD(2) [OF assms(1)] by (simp add: size_simps)
  with None assms(2,3,5,6) show ?thesis
    by (auto simp: arena_alloc_def arena_uniform_def split: if_splits)
qed

lemma arena_free_uniform:
  assumes inv: "arena_inv a L" and u: "arena_uniform n a L" and b: "(off, n) \<in> L"
  shows "arena_uniform n (arena_free a off n) (L - {(off, n)})"
proof -
  note i = arena_invD [OF inv]
  define h where "h = \<lparr>hole_off = off, hole_size = n\<rparr>"
  have n: "0 < n" using i(4) b by (auto simp: live_ok_def)
  have h: "hole_ok h"
    using n live_in_region [OF inv b] i(1,2) by (simp add: h_def hole_ok_def)
  have "hole_bytes h = blk_bytes (off, n)"
    by (simp add: h_def hole_bytes_def blk_bytes_def)
  then have "hole_bytes h \<subseteq> live_bytes L"
    unfolding live_bytes_def using b by blast
  then have "hole_bytes h \<inter> free_bytes (a_free a) = {}"
    using i(5) by blast
  then have t: "sorted_wrt touching (insert_hole h (a_free a))"
    by (rule insert_hole_touching [OF i(3) h])
  obtain x xs where x: "insert_hole h (a_free a) = x # xs"
    by (cases "insert_hole h (a_free a)") (auto dest: arg_cong [where f = set])
  have "set (x # xs) = insert h (set (a_free a))" by (simp add: x [symmetric])
  moreover have "aligned n h"
    using u b by (auto simp: arena_uniform_def aligned_def h_def)
  ultimately have "\<forall>y \<in> set (x # xs). hole_ok y \<and> aligned n y"
    using h i(3) u by (auto simp: arena_uniform_def holes_ok_def)
  then have "\<forall>y \<in> set (coalesce (x # xs)). aligned n y"
    using t x by (simp only: coalesce_simps) (rule coalesce_go_dvd, auto)
  then show ?thesis
    using u by (auto simp: arena_uniform_def arena_free_def h_def [symmetric] x)
qed

lemma arena_uniform_alloc:
  assumes inv: "arena_inv a L" and u: "arena_uniform n a L" and n: "0 < n"
    and nw: "a_cap a + n < size_mod" and space: "n \<le> arena_free_space a"
    and al: "arena_alloc a n = (off, a')"
  shows "off \<noteq> npos"
proof
  assume "off = npos"
  then have small: "\<forall>h \<in> set (a_free a). hole_size h < n" and full: "a_cap a < a_high a + n"
    using arena_alloc_cases [OF inv nw n al] by auto
  have "a_free a = []"
  proof (rule ccontr)
    assume "a_free a \<noteq> []"
    then obtain h where "h \<in> set (a_free a)" by (cases "a_free a") auto
    moreover from this have "0 < hole_size h" "n dvd hole_size h"
      using arena_invD(3) [OF inv] u by (auto simp: holes_ok_def hole_ok_def arena_uniform_def aligned_def)
    ultimately show False using small dvd_imp_le leD by blast
  qed
  then have "live_bytes L = {..< a_high a}" using arena_invD(6) [OF inv] by simp
  then have "a_used a = a_high a" by (simp add: arena_used_card [OF inv])
  then show False
    using space full arena_free_space_eq [OF inv] n by linarith
qed

section \<open>The shape of an empty arena\<close>

lemma arena_empty_shape:
  assumes inv: "arena_inv a {}"
  shows "a_free a = (if a_high a = 0 then [] else [\<lparr>hole_off = 0, hole_size = a_high a\<rparr>])"
proof -
  note i = arena_invD [OF inv]
  have tile: "free_bytes (a_free a) = {..< a_high a}" using i(6) by simp
  show ?thesis
  proof (cases "a_free a")
    case Nil
    then show ?thesis using tile by auto
  next
    case (Cons h hs)
    have ok: "hole_ok h" "\<forall>x \<in> set hs. gap h x" using i(3) Cons by auto
    have top: "hole_off h + hole_size h \<le> a_high a"
    proof -
      have "hole_off h + hole_size h - 1 \<in> free_bytes (a_free a)"
        using ok(1) Cons by (auto simp: hole_ok_def)
      then show ?thesis using tile ok(1) by (auto simp: hole_ok_def)
    qed
    then have pos: "0 < a_high a" using ok(1) by (simp add: hole_ok_def)
    then have "0 \<in> free_bytes (a_free a)" using tile by simp
    then have z: "hole_off h = 0" using Cons ok(2) by (auto simp: mem_free_bytes gap_def)
    have "a_high a \<le> hole_size h"
    proof (rule ccontr)
      assume "\<not> a_high a \<le> hole_size h"
      then have "hole_size h \<in> free_bytes (a_free a)" using tile by simp
      then show False using Cons ok(2) z by (fastforce simp: mem_free_bytes gap_def)
    qed
    with top z have sz: "hole_size h = a_high a" by simp
    have "hs = []"
    proof (rule ccontr)
      assume "hs \<noteq> []"
      then obtain y where y: "y \<in> set hs" by (cases hs) auto
      then have "hole_off y \<in> free_bytes (a_free a)"
        using i(3) Cons by (force simp: mem_free_bytes holes_ok_def hole_ok_def)
      then show False using tile ok(2) y z sz by (fastforce simp: gap_def)
    qed
    with Cons z sz pos show ?thesis by simp
  qed
qed

definition requests_of_size :: "nat \<Rightarrow> request list \<Rightarrow> bool" where
  "requests_of_size n rs \<longleftrightarrow> (\<forall>r \<in> set rs. case r of Alloc m \<Rightarrow> m = n | Release off m \<Rightarrow> m = n)"

lemma run_uniform:
  assumes "arena_inv a L" and "arena_uniform n a L" and "0 < n" and "a_cap a + n < size_mod"
    and "requests_of_size n rs" and "run_requests arena_alloc arena_free rs a L = (a', L')"
  shows "arena_inv a' L' \<and> arena_uniform n a' L' \<and> a_cap a' = a_cap a"
  using assms
proof (induction rs arbitrary: a L)
  case Nil
  then show ?case by simp
next
  case (Cons r rs)
  have rs: "requests_of_size n rs" using Cons.prems(5) by (simp add: requests_of_size_def)
  show ?case
  proof (cases r)
    case (Alloc m)
    then have m: "m = n" using Cons.prems(5) by (simp add: requests_of_size_def)
    obtain off t where al: "arena_alloc a n = (off, t)" by fastforce
    define M where "M = (if off = npos then L else insert (off, n) L)"
    have t: "a_cap t = a_cap a" using al by (simp add: arena_alloc_frame)
    have "arena_inv t M \<and> arena_uniform n t M"
      using arena_alloc_cases [OF Cons.prems(1,4,3) al] Cons.prems(1,2)
        arena_alloc_uniform [OF Cons.prems(1,2,3,4) al] by (auto simp: M_def)
    then show ?thesis
      using Cons.IH [of t M] Cons.prems(3,4,6) rs al t by (simp add: Alloc m M_def)
  next
    case (Release off m)
    then have m: "m = n" using Cons.prems(5) by (simp add: requests_of_size_def)
    show ?thesis
    proof (cases "(off, n) \<in> L")
      case True
      then show ?thesis
        using Cons.IH [of "arena_free a off n" "L - {(off, n)}"] Cons.prems rs
          arena_free_inv [OF Cons.prems(1) True] arena_free_uniform [OF Cons.prems(1,2) True]
        by (simp add: Release m)
    next
      case False
      then show ?thesis using Cons.IH Cons.prems rs by (simp add: Release m)
    qed
  qed
qed

section \<open>Properties\<close>

text \<open>A concrete host backend, as \<^verbatim>\<open>Engine::init\<close> installs one: \<^verbatim>\<open>malloc\<close> returned 4096.\<close>

definition example_backend :: Backend where
  "example_backend = \<lparr>be_alloc = Some (\<lambda>_. 4096), be_free = True, be_kind = ''host''\<rparr>"

lemmas arena_eval = arena_init_def arena_new_def example_backend_def arena_alloc_def arena_free_def
  coalesce_def add64_def sub64_def npos_def size_mod_def





text \<open>
  C17: with blocks of one size, as the engine uses them, the arena never fragments: after any
  sequence of requests, an allocation succeeds whenever that many bytes are free in total.
\<close>

theorem arena_uniform_never_fragments:
  assumes "arena_init arena_new cap be = (True, a)" and "cap + n < size_mod" and "0 < n"
    and "requests_of_size n rs" and "run_requests arena_alloc arena_free rs a {} = (a', L)"
    and "n \<le> arena_free_space a'"
  shows "fst (arena_alloc a' n) \<noteq> npos"
proof -
  have a: "arena_inv a {}" "a_cap a = cap"
    using arena_init_inv [OF assms(1)] assms(2) by auto
  have "arena_uniform n a {}" by (rule arena_init_uniform [OF assms(1)])
  note u = run_uniform [OF a(1) this assms(3) _ assms(4,5)]
  then show ?thesis
    using arena_uniform_alloc [of a' L n "fst (arena_alloc a' n)" "snd (arena_alloc a' n)"] assms(2,3,6) a(2)
    by simp
qed

theorem arena_uniform_never_fragments_witness:
  "fst (arena_alloc (fst (run_requests arena_alloc arena_free [Alloc 8, Alloc 8, Release 0 8]
     (snd (arena_init arena_new 16 example_backend)) {})) 8) \<noteq> npos"
proof -
  let ?a = "snd (arena_init arena_new 16 example_backend)"
  let ?rs = "[Alloc 8, Alloc 8, Release 0 8]"
  let ?r = "run_requests arena_alloc arena_free ?rs ?a {}"
  have "arena_init arena_new 16 example_backend = (True, ?a)" by (simp add: arena_eval)
  moreover have "(16::nat) + 8 < size_mod" "(0::nat) < 8" by (simp_all add: size_mod_def)
  moreover have "requests_of_size 8 ?rs" by (simp add: requests_of_size_def)
  moreover have "?r = (fst ?r, snd ?r)" by simp
  moreover have "8 \<le> arena_free_space (fst ?r)" by (simp add: arena_free_space_def arena_eval)
  ultimately show ?thesis by (rule arena_uniform_never_fragments)
qed

text \<open>
  The bump pointer never moves back, and coalescing never joins the last hole with the
  untouched tail. So an arena whose blocks have all been freed still refuses a request that is
  within its capacity, whenever the request is larger than both parts.
\<close>

theorem arena_empty_tail_stranded:
  assumes "arena_inv a {}" and "a_high a < n" and "a_cap a < a_high a + n" and "n \<le> a_cap a"
    and "a_cap a + n < size_mod"
  shows "fst (arena_alloc a n) = npos \<and> n \<le> arena_free_space a"
proof -
  have fits: "\<forall>h \<in> set (a_free a). hole_size h < n"
    using arena_empty_shape [OF assms(1)] assms(2) by (auto split: if_splits)
  have hn: "add64 (a_high a) n = a_high a + n"
    using arena_invD(2) [OF assms(1)] assms(5) by (simp add: size_simps)
  have "fst (arena_alloc a n) = npos"
    using fits hn assms(3) by (simp add: arena_alloc_def first_fit_None_iff [THEN iffD2])
  moreover have "a_used a = 0" using arena_invD(7) [OF assms(1)] by simp
  ultimately show ?thesis
    using assms(4) arena_free_space_eq [OF assms(1)] by simp
qed

theorem arena_empty_tail_stranded_witness:
  "fst (arena_alloc (fst (run_requests arena_alloc arena_free [Alloc 4, Release 0 4]
     (snd (arena_init arena_new 10 example_backend)) {})) 8) = npos"
proof -
  let ?a = "fst (run_requests arena_alloc arena_free [Alloc 4, Release 0 4]
     (snd (arena_init arena_new 10 example_backend)) {})"
  have "arena_inv ?a {}"
    by (simp add: arena_eval arena_inv_def live_ok_def hole_ok_def hole_bytes_def span_def lessThan_atLeast0)
  moreover have "a_high ?a < 8" "a_cap ?a < a_high ?a + 8" "8 \<le> a_cap ?a" "a_cap ?a + 8 < size_mod"
    by (simp_all add: arena_eval)
  ultimately show ?thesis using arena_empty_tail_stranded [of ?a 8] by blast
qed

text \<open>
  The bump test \<^verbatim>\<open>high_ + bytes <= cap_\<close> wraps: an oversized request on a partly used arena
  is granted, with a block that runs past the end of the region.
\<close>

theorem arena_alloc_wraps:
  "\<exists>a L n. arena_inv a L \<and> n < size_mod \<and> fst (arena_alloc a n) \<noteq> npos \<and>
     a_cap a < fst (arena_alloc a n) + n"
proof (intro exI conjI)
  let ?a = "snd (arena_alloc (snd (arena_init arena_new 16 example_backend)) 8)"
  show "arena_inv ?a {(0, 8)}"
    by (simp add: arena_eval arena_inv_def live_ok_def blk_bytes_def span_def lessThan_atLeast0)
  show "2 ^ 64 - 4 < size_mod" by (simp add: size_mod_def)
  show "fst (arena_alloc ?a (2 ^ 64 - 4)) \<noteq> npos" by (simp add: arena_eval)
  show "a_cap ?a < fst (arena_alloc ?a (2 ^ 64 - 4)) + (2 ^ 64 - 4)" by (simp add: arena_eval)
qed

end
