(* ===== verification/ExpertStore.thy ===== *)
theory ExpertStore
  imports Prelude
begin

text \<open>
  The contract between an expert cache and the code that streams weights into it. A store maps
  a key to the address range it occupies in one device region. Both caches of the repository
  (\<^verbatim>\<open>vram_cache.cpp\<close> and \<^verbatim>\<open>vram_cache_manager.cpp\<close>) are interpretations of this locale; the lemmas
  here are what a streaming client may rely on, proved once.
\<close>

type_synonym region = "nat \<times> nat"

text \<open>A client that acquires a sequence of keys, each with its own argument.\<close>

fun acquire_all :: "('s \<Rightarrow> 'k \<Rightarrow> 'p \<Rightarrow> bool \<times> 's) \<Rightarrow> ('k \<times> 'p) list \<Rightarrow> 's \<Rightarrow> 's" where
  "acquire_all acquire [] s = s"
| "acquire_all acquire ((k, p) # ks) s = acquire_all acquire ks (snd (acquire s k p))"

text \<open>
  A client that copies the weights of each acquired key at once: the synchronous reference for
  the asynchronous prefetcher. \<open>src k\<close> is the host address of the weights of key \<open>k\<close>, \<open>n\<close> their
  number of bytes.
\<close>

fun fill_all ::
  "('s \<Rightarrow> 'k \<Rightarrow> 'p \<Rightarrow> bool \<times> 's) \<Rightarrow> ('s \<Rightarrow> 'k \<Rightarrow> region option) \<Rightarrow> ('k \<Rightarrow> nat) \<Rightarrow> nat \<Rightarrow>
     ('k \<times> 'p) list \<Rightarrow> 's \<times> memory \<Rightarrow> 's \<times> memory" where
  "fill_all acquire region src n [] sm = sm"
| "fill_all acquire region src n ((k, p) # ks) (s, m) =
     (case acquire s k p of (ok, s') \<Rightarrow>
        fill_all acquire region src n ks
          (s', if ok then case region s' k of None \<Rightarrow> m | Some (a, _) \<Rightarrow> memcpy m a (src k) n else m))"

text \<open>Every key that is present holds the bytes of its source.\<close>

definition filled :: "('s \<Rightarrow> 'k \<Rightarrow> region option) \<Rightarrow> ('k \<Rightarrow> nat) \<Rightarrow> nat \<Rightarrow> 's \<times> memory \<Rightarrow> bool" where
  "filled region src n sm \<longleftrightarrow>
     (\<forall>k a len. region (fst sm) k = Some (a, len) \<longrightarrow> same_bytes (snd sm) a (src k) n)"

locale expert_store =
  fixes inv :: "'s \<Rightarrow> bool"
    and region :: "'s \<Rightarrow> 'k \<Rightarrow> region option"
    and acquire :: "'s \<Rightarrow> 'k \<Rightarrow> 'p \<Rightarrow> bool \<times> 's"
    and space :: "'s \<Rightarrow> region"
    and n :: nat
  assumes acquire_inv: "inv s \<Longrightarrow> acquire s k p = (ok, s') \<Longrightarrow> inv s'"
    and acquire_space: "inv s \<Longrightarrow> acquire s k p = (ok, s') \<Longrightarrow> space s' = space s"
    and acquire_present: "inv s \<Longrightarrow> acquire s k p = (True, s') \<Longrightarrow> region s' k \<noteq> None"
    and acquire_hit: "inv s \<Longrightarrow> region s k = Some r \<Longrightarrow> acquire s k p = (ok, s') \<Longrightarrow>
      ok \<and> region s' k = Some r"
    and acquire_fails: "inv s \<Longrightarrow> acquire s k p = (False, s') \<Longrightarrow> region s' k = None"
    and acquire_frame: "inv s \<Longrightarrow> acquire s k p = (ok, s') \<Longrightarrow> k' \<noteq> k \<Longrightarrow>
      region s' k' = None \<or> region s' k' = region s k'"
    and region_disjoint: "inv s \<Longrightarrow> region s k = Some (a, len) \<Longrightarrow> region s k' = Some (a', len') \<Longrightarrow>
      k \<noteq> k' \<Longrightarrow> span a len \<inter> span a' len' = {}"
    and region_inside: "inv s \<Longrightarrow> region s k = Some (a, len) \<Longrightarrow>
      span a len \<subseteq> span (fst (space s)) (snd (space s)) \<and> a \<noteq> nullptr"
    and region_size: "inv s \<Longrightarrow> region s k = Some (a, len) \<Longrightarrow> n \<le> len"
begin

lemma acquire_all_inv: "inv s \<Longrightarrow> inv (acquire_all acquire ks s) \<and> space (acquire_all acquire ks s) = space s"
proof (induction ks arbitrary: s)
  case Nil
  then show ?case by simp
next
  case (Cons x ks)
  obtain k p where x: "x = (k, p)" by fastforce
  have "inv (snd (acquire s k p)) \<and> space (snd (acquire s k p)) = space s"
    using Cons.prems acquire_inv acquire_space by (metis surjective_pairing)
  then show ?case using Cons.IH by (simp add: x)
qed

text \<open>An expert that is not asked for again stays where it is, or is gone.\<close>

lemma acquire_all_frame:
  "inv s \<Longrightarrow> k \<notin> fst ` set ks \<Longrightarrow>
     region (acquire_all acquire ks s) k = None \<or> region (acquire_all acquire ks s) k = region s k"
proof (induction ks arbitrary: s)
  case Nil
  then show ?case by simp
next
  case (Cons x ks)
  obtain k' p where x: "x = (k', p)" by fastforce
  let ?s = "snd (acquire s k' p)"
  have "inv ?s" using Cons.prems(1) acquire_inv by (metis surjective_pairing)
  moreover have "region ?s k = None \<or> region ?s k = region s k"
    using Cons.prems acquire_frame x by (metis fst_conv image_eqI list.set_intros(1) surjective_pairing)
  ultimately show ?case using Cons.IH [of ?s] Cons.prems(2) x by auto
qed

text \<open>One synchronous fill keeps every present expert's bytes.\<close>

lemma fill_step:
  assumes inv: "inv s" and f: "filled region src n (s, m)"
    and away: "\<And>k. span (src k) n \<inter> span (fst (space s)) (snd (space s)) = {}"
    and ac: "acquire s k p = (ok, s')"
  shows "filled region src n
    (s', if ok then case region s' k of None \<Rightarrow> m | Some (a, _) \<Rightarrow> memcpy m a (src k) n else m)"
proof -
  note inv' = acquire_inv [OF inv ac] and sp = acquire_space [OF inv ac]
  have frame: "same_bytes m a (src j) n" if "region s' j = Some (a, len)" "j \<noteq> k" for j a len
    using f acquire_frame [OF inv ac that(2)] that(1) by (fastforce simp: filled_def)
  show ?thesis
  proof (cases ok)
    case False
    then have "region s' k = None" using acquire_fails inv ac by simp
    then have "same_bytes m a (src j) n" if "region s' j = Some (a, len)" for j a len
      using frame [of j a len] that by (cases "j = k") auto
    with False show ?thesis by (simp add: filled_def)
  next
    case True
    then obtain b l where r: "region s' k = Some (b, l)"
      using acquire_present inv ac by fastforce
    have n: "span b n \<subseteq> span b l" using region_size [OF inv' r] by auto
    have ins: "span b l \<subseteq> span (fst (space s)) (snd (space s))" using region_inside [OF inv' r] sp by simp
    have off: "span (src j) n \<inter> span b n = {}" for j using away [of j] n ins by blast
    have "same_bytes (memcpy m b (src k) n) a (src j) n" if rj: "region s' j = Some (a, len)" for j a len
    proof (cases "j = k")
      case True
      then show ?thesis using memcpy_same_bytes [OF off] r rj by simp
    next
      case False
      have "span a n \<subseteq> span a len" using region_size [OF inv' rj] by auto
      moreover have "span a len \<inter> span b l = {}" using region_disjoint [OF inv' rj r False] .
      ultimately have "span a n \<inter> span b n = {}" using n by blast
      then show ?thesis using memcpy_frame [OF frame [OF rj False]] off by blast
    qed
    then show ?thesis using True r by (auto simp: filled_def)
  qed
qed

lemma fill_all_filled:
  assumes "inv s" and "filled region src n (s, m)"
    and "\<And>k. span (src k) n \<inter> span (fst (space s)) (snd (space s)) = {}"
  shows "filled region src n (fill_all acquire region src n ks (s, m))"
  using assms
proof (induction ks arbitrary: s m)
  case Nil
  then show ?case by simp
next
  case (Cons x ks)
  obtain k p where x: "x = (k, p)" by fastforce
  obtain ok s' where ac: "acquire s k p = (ok, s')" by fastforce
  have away: "\<And>j. span (src j) n \<inter> span (fst (space s')) (snd (space s')) = {}"
    using Cons.prems(3) acquire_space [OF Cons.prems(1) ac] by simp
  show ?case
    using Cons.IH [OF acquire_inv [OF Cons.prems(1) ac] fill_step [OF Cons.prems ac] away] ac
    by (simp add: x)
qed

text \<open>A synchronous fill writes only to the device region.\<close>

lemma fill_all_outside:
  "inv s \<Longrightarrow> x \<notin> span (fst (space s)) (snd (space s)) \<Longrightarrow> snd (fill_all acquire region src n ks (s, m)) x = m x"
proof (induction ks arbitrary: s m)
  case Nil
  then show ?case by simp
next
  case (Cons y ks)
  obtain k p where y: "y = (k, p)" by fastforce
  obtain ok s' where ac: "acquire s k p = (ok, s')" by fastforce
  note inv' = acquire_inv [OF Cons.prems(1) ac] and sp = acquire_space [OF Cons.prems(1) ac]
  have "memcpy m a (src k) n x = m x" if r: "region s' k = Some (a, len)" for a len
  proof -
    have "span a n \<subseteq> span a len" using region_size [OF inv' r] by auto
    then have "x \<notin> span a n" using region_inside [OF inv' r] sp Cons.prems(2) by (auto simp del: mem_span)
    then show ?thesis by (rule memcpy_outside)
  qed
  then show ?case
    using Cons.IH [OF inv'] Cons.prems(2) ac sp by (auto simp: y split: option.split simp del: mem_span)
qed

lemma fill_all_store:
  "inv s \<Longrightarrow> fst (fill_all acquire region src n ks (s, m)) = acquire_all acquire ks s"
proof (induction ks arbitrary: s m)
  case Nil
  then show ?case by simp
next
  case (Cons x ks)
  then show ?case
    using acquire_inv by (cases x) (auto split: prod.split)
qed

end

end
