(* ===== verification/VramCache.thy ===== *)
theory VramCache
  imports Arena ExpertStore
begin

text \<open>
  The class \<^verbatim>\<open>dee::VramCacheManager\<close> of \<^verbatim>\<open>include/dee/vram_cache.h\<close> and
  \<^verbatim>\<open>src/vram_cache.cpp\<close>: which experts are resident in the arena, and the eviction policy
  (lowest \<^verbatim>\<open>last_used + priority * 2^20\<close> first). The map \<^verbatim>\<open>blocks_\<close> is the list of its blocks in
  iteration order: its only insertion is \<^verbatim>\<open>blocks_[nb.key] = nb\<close>, so the key of an entry is the
  key stored in the block. Ticks and priorities are mathematical integers; \<open>score_in_int64\<close>
  shows that the 64-bit computation of the score does not overflow.
\<close>

section \<open>State\<close>

datatype ExpertKey = ExpertKey (key_layer: int) (key_expert: int)

record ExpertBlock =
  b_key :: ExpertKey
  b_ptr :: nat
  b_offset :: nat
  b_size :: nat
  b_last_used :: int
  b_priority :: int
  b_resident :: bool

record CacheStats =
  cs_ensures :: nat
  cs_hits :: nat
  cs_loads :: nat
  cs_evictions :: nat
  cs_fallbacks :: nat

record VramCache =
  c_arena :: Arena
  c_blocks :: "ExpertBlock list"
  c_tick :: int
  c_stats :: CacheStats

definition cache_new :: VramCache where
  "cache_new = \<lparr>c_arena = arena_new, c_blocks = [], c_tick = 0,
     c_stats = \<lparr>cs_ensures = 0, cs_hits = 0, cs_loads = 0, cs_evictions = 0, cs_fallbacks = 0\<rparr>\<rparr>"

section \<open>Operations\<close>

definition cache_init :: "VramCache \<Rightarrow> nat \<Rightarrow> Backend \<Rightarrow> bool \<times> VramCache" where
  "cache_init c budget_bytes be =
     (case arena_init (c_arena c) budget_bytes be of (ok, ar) \<Rightarrow> (ok, c\<lparr>c_arena := ar\<rparr>))"

definition find_block :: "VramCache \<Rightarrow> int \<Rightarrow> int \<Rightarrow> ExpertBlock option" where
  "find_block c layer expert = List.find (\<lambda>b. b_key b = ExpertKey layer expert) (c_blocks c)"

definition PRIORITY_WEIGHT :: int where
  "PRIORITY_WEIGHT = 2 ^ 20"

definition eviction_score :: "ExpertBlock \<Rightarrow> int" where
  "eviction_score b = b_last_used b + b_priority b * PRIORITY_WEIGHT"

text \<open>The scan for the resident block with the lowest score; ties keep the earlier one.\<close>

fun scan_victim :: "ExpertBlock option \<Rightarrow> ExpertBlock list \<Rightarrow> ExpertBlock option" where
  "scan_victim victim [] = victim"
| "scan_victim victim (b # bs) =
     (if \<not> b_resident b then scan_victim victim bs
      else case victim of
             None \<Rightarrow> scan_victim (Some b) bs
           | Some v \<Rightarrow>
               if eviction_score b < eviction_score v then scan_victim (Some b) bs
               else scan_victim victim bs)"

definition evict_block :: "VramCache \<Rightarrow> ExpertBlock \<Rightarrow> VramCache" where
  "evict_block c v =
     c\<lparr>c_arena := arena_free (c_arena c) (b_offset v) (b_size v),
       c_blocks := filter (\<lambda>b. b_key b \<noteq> b_key v) (c_blocks c),
       c_stats := (c_stats c)\<lparr>cs_evictions := Suc (cs_evictions (c_stats c))\<rparr>\<rparr>"

lemma scan_victim_in:
  "scan_victim victim bs = Some v \<Longrightarrow> victim = Some v \<or> v \<in> set bs"
proof (induction bs arbitrary: victim)
  case Nil
  then show ?case by simp
next
  case (Cons b bs)
  show ?case
    using Cons.prems by (cases victim) (auto split: if_splits dest!: Cons.IH)
qed

function evict_until_free :: "VramCache \<Rightarrow> nat \<Rightarrow> VramCache" where
  "evict_until_free c need =
     (if arena_free_space (c_arena c) < need \<and> c_blocks c \<noteq> []
      then case scan_victim None (c_blocks c) of
             None \<Rightarrow> c
           | Some victim \<Rightarrow> evict_until_free (evict_block c victim) need
      else c)"
  by pat_completeness auto
termination
proof (relation "measure (\<lambda>(c, need). length (c_blocks c))", goal_cases)
  case 1
  show ?case by simp
next
  case (2 c need victim)
  then have "victim \<in> set (c_blocks c)" using scan_victim_in by fastforce
  then show ?case by (auto simp: evict_block_def intro!: length_filter_less)
qed

declare evict_until_free.simps [simp del]

definition cache_ensure :: "VramCache \<Rightarrow> int \<Rightarrow> int \<Rightarrow> nat \<Rightarrow> int \<Rightarrow> bool \<times> VramCache" where
  "cache_ensure c layer expert nbytes priority =
     (let c1 = c\<lparr>c_stats := (c_stats c)\<lparr>cs_ensures := Suc (cs_ensures (c_stats c))\<rparr>\<rparr>;
          key = ExpertKey layer expert;
          hit = (case find_block c1 layer expert of None \<Rightarrow> False | Some b \<Rightarrow> b_resident b)
      in if hit
         then (True,
           c1\<lparr>c_tick := c_tick c1 + 1,
              c_blocks := map (\<lambda>b. if b_key b = key
                                   then b\<lparr>b_last_used := c_tick c1 + 1, b_priority := priority\<rparr>
                                   else b) (c_blocks c1),
              c_stats := (c_stats c1)\<lparr>cs_hits := Suc (cs_hits (c_stats c1))\<rparr>\<rparr>)
         else
           let c2 = evict_until_free c1 nbytes
           in case arena_alloc (c_arena c2) nbytes of (off, ar) \<Rightarrow>
                if off = npos then (False, c2\<lparr>c_arena := ar\<rparr>)
                else
                  let nb = \<lparr>b_key = key, b_ptr = a_base ar + off, b_offset = off, b_size = nbytes,
                            b_last_used = c_tick c2 + 1, b_priority = priority, b_resident = True\<rparr>
                  in (True,
                    c2\<lparr>c_arena := ar,
                       c_tick := c_tick c2 + 1,
                       c_blocks := filter (\<lambda>b. b_key b \<noteq> key) (c_blocks c2) @ [nb],
                       c_stats := (c_stats c2)\<lparr>cs_loads := Suc (cs_loads (c_stats c2))\<rparr>\<rparr>))"

definition cache_touch :: "VramCache \<Rightarrow> int \<Rightarrow> int \<Rightarrow> VramCache" where
  "cache_touch c layer expert =
     (case find_block c layer expert of
        None \<Rightarrow> c
      | Some b \<Rightarrow>
          if b_resident b
          then c\<lparr>c_tick := c_tick c + 1,
                 c_blocks := map (\<lambda>b. if b_key b = ExpertKey layer expert
                                      then b\<lparr>b_last_used := c_tick c + 1\<rparr> else b) (c_blocks c)\<rparr>
          else c)"

definition cache_is_resident :: "VramCache \<Rightarrow> int \<Rightarrow> int \<Rightarrow> bool" where
  "cache_is_resident c layer expert =
     (case find_block c layer expert of None \<Rightarrow> False | Some b \<Rightarrow> b_resident b)"

definition cache_data :: "VramCache \<Rightarrow> int \<Rightarrow> int \<Rightarrow> nat" where
  "cache_data c layer expert =
     (case find_block c layer expert of
        None \<Rightarrow> nullptr | Some b \<Rightarrow> if b_resident b then b_ptr b else nullptr)"

definition cache_size_of :: "VramCache \<Rightarrow> int \<Rightarrow> int \<Rightarrow> nat" where
  "cache_size_of c layer expert =
     (case find_block c layer expert of
        None \<Rightarrow> 0 | Some b \<Rightarrow> if b_resident b then b_size b else 0)"

definition cache_sync_fallback :: "VramCache \<Rightarrow> int \<Rightarrow> int \<Rightarrow> nat \<Rightarrow> int \<Rightarrow> bool \<times> VramCache" where
  "cache_sync_fallback c layer expert nbytes priority =
     (if cache_is_resident c layer expert then (True, c)
      else cache_ensure
             (c\<lparr>c_stats := (c_stats c)\<lparr>cs_fallbacks := Suc (cs_fallbacks (c_stats c))\<rparr>\<rparr>)
             layer expert nbytes priority)"

definition cache_clear :: "VramCache \<Rightarrow> VramCache" where
  "cache_clear c =
     c\<lparr>c_arena := foldl (\<lambda>ar b. if b_resident b then arena_free ar (b_offset b) (b_size b) else ar)
                    (c_arena c) (c_blocks c),
       c_blocks := [], c_tick := 0\<rparr>"

definition cache_used_bytes :: "VramCache \<Rightarrow> nat" where
  "cache_used_bytes c = a_used (c_arena c)"

definition cache_resident_count :: "VramCache \<Rightarrow> nat" where
  "cache_resident_count c = length (filter b_resident (c_blocks c))"

section \<open>The invariant\<close>

definition blk_of :: "ExpertBlock \<Rightarrow> blk" where
  "blk_of b = (b_offset b, b_size b)"

abbreviation live :: "VramCache \<Rightarrow> blk set" where
  "live c \<equiv> blk_of ` set (c_blocks c)"

definition cache_inv :: "VramCache \<Rightarrow> bool" where
  "cache_inv c \<longleftrightarrow>
     arena_inv (c_arena c) (live c) \<and> a_base (c_arena c) \<noteq> nullptr \<and>
     distinct (map b_key (c_blocks c)) \<and> distinct (map b_offset (c_blocks c)) \<and>
     distinct (map b_last_used (c_blocks c)) \<and>
     (\<forall>b \<in> set (c_blocks c). b_resident b \<and> b_ptr b = a_base (c_arena c) + b_offset b \<and>
        0 < b_last_used b \<and> b_last_used b \<le> c_tick c) \<and> 0 \<le> c_tick c"

definition cache_uniform :: "nat \<Rightarrow> VramCache \<Rightarrow> bool" where
  "cache_uniform n c \<longleftrightarrow> arena_uniform n (c_arena c) (live c)"

lemma cache_invD:
  assumes "cache_inv c"
  shows "arena_inv (c_arena c) (live c)" "a_base (c_arena c) \<noteq> nullptr"
    "distinct (map b_key (c_blocks c))" "distinct (map b_offset (c_blocks c))"
    "distinct (map b_last_used (c_blocks c))"
    "b \<in> set (c_blocks c) \<Longrightarrow> b_resident b"
    "b \<in> set (c_blocks c) \<Longrightarrow> b_ptr b = a_base (c_arena c) + b_offset b"
    "b \<in> set (c_blocks c) \<Longrightarrow> 0 < b_last_used b \<and> b_last_used b \<le> c_tick c" "0 \<le> c_tick c"
  using assms by (auto simp: cache_inv_def)

lemma blk_of_inj:
  "cache_inv c \<Longrightarrow> b \<in> set (c_blocks c) \<Longrightarrow> d \<in> set (c_blocks c) \<Longrightarrow> blk_of b = blk_of d \<Longrightarrow> b = d"
  using cache_invD(4) [of c] by (auto simp: blk_of_def distinct_map inj_on_def)

lemma key_inj:
  "cache_inv c \<Longrightarrow> b \<in> set (c_blocks c) \<Longrightarrow> d \<in> set (c_blocks c) \<Longrightarrow> b_key b = b_key d \<Longrightarrow> b = d"
  using cache_invD(3) [of c] by (auto simp: distinct_map inj_on_def)

lemma find_block_Some:
  assumes "cache_inv c"
  shows "find_block c l e = Some b \<longleftrightarrow> b \<in> set (c_blocks c) \<and> b_key b = ExpertKey l e"
proof
  assume "find_block c l e = Some b"
  then show "b \<in> set (c_blocks c) \<and> b_key b = ExpertKey l e"
    unfolding find_block_def find_Some_iff by auto
next
  assume b: "b \<in> set (c_blocks c) \<and> b_key b = ExpertKey l e"
  then obtain d where d: "find_block c l e = Some d"
    by (cases "find_block c l e") (auto simp: find_block_def find_None_iff)
  then have "d \<in> set (c_blocks c) \<and> b_key d = ExpertKey l e"
    unfolding find_block_def find_Some_iff by auto
  with b d show "find_block c l e = Some b"
    using key_inj [OF assms] by auto
qed

lemma find_block_None:
  "find_block c l e = None \<longleftrightarrow> (\<forall>b \<in> set (c_blocks c). b_key b \<noteq> ExpertKey l e)"
  by (auto simp: find_block_def find_None_iff)

section \<open>Eviction\<close>

lemma scan_victim_min:
  assumes "scan_victim victim bs = Some v"
  shows "(\<forall>b \<in> set bs. b_resident b \<longrightarrow> eviction_score v \<le> eviction_score b) \<and>
    (case victim of None \<Rightarrow> b_resident v \<and> v \<in> set bs
     | Some w \<Rightarrow> eviction_score v \<le> eviction_score w \<and> (v = w \<or> b_resident v \<and> v \<in> set bs))"
  using assms
proof (induction bs arbitrary: victim)
  case Nil
  then show ?case by simp
next
  case (Cons b bs)
  show ?case
  proof (cases "b_resident b")
    case False
    with Cons.prems have "scan_victim victim bs = Some v" by simp
    from Cons.IH [OF this] False show ?thesis by (auto split: option.splits)
  next
    case True
    consider (new) "scan_victim (Some b) bs = Some v" "victim = None \<or> (\<exists>w. victim = Some w \<and> eviction_score b < eviction_score w)"
      | (keep) w where "scan_victim (Some w) bs = Some v" "victim = Some w" "\<not> eviction_score b < eviction_score w"
      using Cons.prems True by (auto split: option.splits if_splits)
    then show ?thesis
    proof cases
      case new
      from Cons.IH [OF new(1)] new(2) True show ?thesis by auto
    next
      case keep
      from Cons.IH [OF keep(1)] keep(2,3) True show ?thesis by auto
    qed
  qed
qed

lemma scan_victim_None:
  "scan_victim victim bs = None \<longleftrightarrow> victim = None \<and> (\<forall>b \<in> set bs. \<not> b_resident b)"
  by (induction bs arbitrary: victim) (auto split: option.splits)

lemmas victim_min = scan_victim_min [where victim = None, simplified]

lemma evict_block_frame [simp]:
  "a_cap (c_arena (evict_block c v)) = a_cap (c_arena c)"
  "a_base (c_arena (evict_block c v)) = a_base (c_arena c)"
  "c_tick (evict_block c v) = c_tick c"
  by (simp_all add: evict_block_def)

lemma evict_block_blocks:
  assumes "cache_inv c" and "v \<in> set (c_blocks c)"
  shows "set (c_blocks (evict_block c v)) = set (c_blocks c) - {v}"
  using assms key_inj [OF assms(1)] by (auto simp: evict_block_def)

lemma evict_block_live:
  assumes "cache_inv c" and "v \<in> set (c_blocks c)"
  shows "live (evict_block c v) = live c - {blk_of v}"
  using evict_block_blocks [OF assms] blk_of_inj [OF assms(1)] assms(2) by auto

lemma evict_block_inv:
  assumes "cache_inv c" and "v \<in> set (c_blocks c)"
  shows "cache_inv (evict_block c v)"
proof -
  have "arena_inv (arena_free (c_arena c) (b_offset v) (b_size v)) (live c - {blk_of v})"
    using arena_free_inv [OF cache_invD(1) [OF assms(1)], of "b_offset v" "b_size v"] assms(2)
    by (auto simp: blk_of_def)
  then have "arena_inv (c_arena (evict_block c v)) (live (evict_block c v))"
    using evict_block_live [OF assms] by (simp add: evict_block_def)
  then show ?thesis
    using assms(1) by (auto simp: cache_inv_def evict_block_def intro: distinct_map_filter)
qed

lemma evict_block_uniform:
  assumes "cache_inv c" and "v \<in> set (c_blocks c)" and "cache_uniform n c"
  shows "cache_uniform n (evict_block c v)"
proof -
  have "b_size v = n" using assms(2,3) by (auto simp: cache_uniform_def arena_uniform_def blk_of_def)
  then have "arena_uniform n (arena_free (c_arena c) (b_offset v) (b_size v)) (live c - {blk_of v})"
    using arena_free_uniform [OF cache_invD(1) [OF assms(1)] assms(3) [unfolded cache_uniform_def], of "b_offset v"]
      assms(2) by (auto simp: blk_of_def)
  then show ?thesis
    using evict_block_live [OF assms(1,2)] by (simp add: cache_uniform_def evict_block_def)
qed

text \<open>
  Induction over the eviction loop: a property that holds of the state and that every eviction
  of a minimal-score resident block keeps holds of the result.
\<close>

lemma evict_induct [consumes 1, case_names stop evict]:
  assumes "cache_inv c"
    and "\<And>c. cache_inv c \<Longrightarrow> \<not> (arena_free_space (c_arena c) < need \<and> c_blocks c \<noteq> []) \<Longrightarrow> P c c"
    and "\<And>c v d. cache_inv c \<Longrightarrow> arena_free_space (c_arena c) < need \<Longrightarrow> v \<in> set (c_blocks c) \<Longrightarrow>
      (\<forall>b \<in> set (c_blocks c). eviction_score v \<le> eviction_score b) \<Longrightarrow> P (evict_block c v) d \<Longrightarrow> P c d"
  shows "P c (evict_until_free c need)"
  using assms(1)
proof (induction "length (c_blocks c)" arbitrary: c rule: less_induct)
  case less
  show ?case
  proof (cases "arena_free_space (c_arena c) < need \<and> c_blocks c \<noteq> []")
    case False
    then show ?thesis
      using assms(2) [OF less.prems] by (simp add: evict_until_free.simps [of c])
  next
    case True
    then obtain b where "b \<in> set (c_blocks c)" by (cases "c_blocks c") auto
    then obtain v where sv: "scan_victim None (c_blocks c) = Some v"
      using cache_invD(6) [OF less.prems]
      by (cases "scan_victim None (c_blocks c)") (auto simp: scan_victim_None)
    have v: "v \<in> set (c_blocks c)" "\<forall>b \<in> set (c_blocks c). eviction_score v \<le> eviction_score b"
      using victim_min [OF sv] cache_invD(6) [OF less.prems] by auto
    then have "length (c_blocks (evict_block c v)) < length (c_blocks c)"
      by (auto simp: evict_block_def intro!: length_filter_less)
    then have "P (evict_block c v) (evict_until_free (evict_block c v) need)"
      using less.hyps evict_block_inv [OF less.prems v(1)] by blast
    then show ?thesis
      using assms(3) [OF less.prems _ v] True sv by (simp add: evict_until_free.simps [of c])
  qed
qed

lemma evict_until_free_inv:
  "cache_inv c \<Longrightarrow> cache_inv (evict_until_free c need) \<and>
     a_cap (c_arena (evict_until_free c need)) = a_cap (c_arena c) \<and>
     a_base (c_arena (evict_until_free c need)) = a_base (c_arena c) \<and>
     c_tick (evict_until_free c need) = c_tick c \<and>
     set (c_blocks (evict_until_free c need)) \<subseteq> set (c_blocks c)"
  by (induction rule: evict_induct) (auto simp: evict_block_blocks)

lemma evict_until_free_uniform:
  "cache_inv c \<Longrightarrow> cache_uniform n c \<longrightarrow> cache_uniform n (evict_until_free c need)"
  by (induction rule: evict_induct) (auto intro: evict_block_uniform)

lemma evict_until_free_exit:
  "cache_inv c \<Longrightarrow> need \<le> arena_free_space (c_arena (evict_until_free c need)) \<or>
     c_blocks (evict_until_free c need) = []"
  by (induction rule: evict_induct) auto

lemma evict_until_free_minimal:
  "cache_inv c \<Longrightarrow> set (c_blocks (evict_until_free c need)) \<subseteq> set (c_blocks c) \<and>
     (\<forall>b \<in> set (c_blocks c) - set (c_blocks (evict_until_free c need)).
       \<forall>d \<in> set (c_blocks (evict_until_free c need)). eviction_score b \<le> eviction_score d)"
proof (induction rule: evict_induct)
  case (stop c)
  show ?case by simp
next
  case (evict c v d)
  then show ?case using evict_block_blocks [OF evict(1,3)] by simp blast
qed

lemma evict_until_free_stats:
  "cache_inv c \<Longrightarrow>
     c_stats (evict_until_free c need) =
       (c_stats c)\<lparr>cs_evictions := cs_evictions (c_stats (evict_until_free c need))\<rparr> \<and>
     cs_evictions (c_stats (evict_until_free c need)) + card (set (c_blocks (evict_until_free c need)))
       = cs_evictions (c_stats c) + card (set (c_blocks c))"
proof (induction rule: evict_induct)
  case (stop c)
  show ?case by simp
next
  case (evict c v d)
  have "card (set (c_blocks c)) = Suc (card (set (c_blocks (evict_block c v))))"
    using evict_block_blocks [OF evict(1,3)] card_Suc_Diff1 [of "set (c_blocks c)" v] evict(3) by simp
  with evict(5) show ?case by (simp add: evict_block_def)
qed

lemma live_card: "cache_inv c \<Longrightarrow> card (set (c_blocks c)) = card (live c)"
  by (intro card_image [symmetric] inj_onI) (auto dest: blk_of_inj)

lemma sum_live: "cache_inv c \<Longrightarrow> (\<Sum>b \<in> live c. snd b) = (\<Sum>b \<in> set (c_blocks c). b_size b)"
  by (subst sum.reindex) (auto simp: blk_of_def inj_on_def dest: blk_of_inj)

lemma cache_used: "cache_inv c \<Longrightarrow> a_used (c_arena c) = (\<Sum>b \<in> set (c_blocks c). b_size b)"
  using arena_invD(7) [OF cache_invD(1)] sum_live by simp

lemma cache_used_le: "cache_inv c \<Longrightarrow> a_used (c_arena c) \<le> a_cap (c_arena c)"
  using arena_used_le_high [OF cache_invD(1)] arena_invD(2) [OF cache_invD(1)] le_trans by blast

lemma evict_block_space:
  assumes "cache_inv c" and "v \<in> set (c_blocks c)"
  shows "arena_free_space (c_arena (evict_block c v)) = arena_free_space (c_arena c) + b_size v"
proof -
  let ?d = "evict_block c v"
  note inv = assms(1) evict_block_inv [OF assms]
  have "(\<Sum>b \<in> set (c_blocks c). b_size b) = b_size v + (\<Sum>b \<in> set (c_blocks ?d). b_size b)"
    using sum.remove [of "set (c_blocks c)" v b_size] assms(2) evict_block_blocks [OF assms] by simp
  then show ?thesis
    using cache_used [OF inv(1)] cache_used [OF inv(2)] cache_used_le [OF inv(1)]
      arena_free_space_eq [OF cache_invD(1) [OF inv(1)]] arena_free_space_eq [OF cache_invD(1) [OF inv(2)]]
    by simp
qed

text \<open>With blocks of one size at most one block is evicted per request of that size.\<close>

lemma evict_uniform_once:
  assumes "cache_inv c" and "cache_uniform n c"
  obtains (none) "evict_until_free c n = c" "n \<le> arena_free_space (c_arena c) \<or> c_blocks c = []"
  | (one) v where "evict_until_free c n = evict_block c v" "v \<in> set (c_blocks c)"
      "\<forall>b \<in> set (c_blocks c). eviction_score v \<le> eviction_score b"
      "arena_free_space (c_arena c) < n"
proof (cases "arena_free_space (c_arena c) < n \<and> c_blocks c \<noteq> []")
  case False
  then show ?thesis
    by (intro none) (auto simp: evict_until_free.simps [of c])
next
  case True
  then obtain b where "b \<in> set (c_blocks c)" by (cases "c_blocks c") auto
  then obtain v where sv: "scan_victim None (c_blocks c) = Some v"
    using cache_invD(6) [OF assms(1)]
    by (cases "scan_victim None (c_blocks c)") (auto simp: scan_victim_None)
  have v: "v \<in> set (c_blocks c)" "\<forall>b \<in> set (c_blocks c). eviction_score v \<le> eviction_score b"
    using victim_min [OF sv] cache_invD(6) [OF assms(1)] by auto
  have "b_size v = n" using v(1) assms(2) by (auto simp: cache_uniform_def arena_uniform_def blk_of_def)
  then have "n \<le> arena_free_space (c_arena (evict_block c v))"
    using evict_block_space [OF assms(1) v(1)] by simp
  then have "evict_until_free (evict_block c v) n = evict_block c v"
    by (simp add: evict_until_free.simps [of "evict_block c v"])
  then have "evict_until_free c n = evict_block c v"
    using True sv by (simp add: evict_until_free.simps [of c])
  with v True show ?thesis by (intro one) auto
qed

section \<open>Requests keep the invariant\<close>

text \<open>In-place updates of one block that keep its place in the arena and refresh its tick.\<close>

lemma refresh_inv:
  assumes inv: "cache_inv c"
    and f: "\<And>b. b_key (f b) = b_key b \<and> b_ptr (f b) = b_ptr b \<and> b_offset (f b) = b_offset b \<and>
      b_size (f b) = b_size b \<and> b_resident (f b) = b_resident b \<and> b_last_used (f b) = c_tick c + 1"
  shows "cache_inv (c\<lparr>c_tick := c_tick c + 1,
    c_blocks := map (\<lambda>b. if b_key b = k then f b else b) (c_blocks c), c_stats := st\<rparr>)"
proof -
  let ?g = "\<lambda>b. if b_key b = k then f b else b"
  have keys: "map b_key (map ?g (c_blocks c)) = map b_key (c_blocks c)"
    and offs: "map b_offset (map ?g (c_blocks c)) = map b_offset (c_blocks c)"
    using f by auto
  have live: "blk_of ` set (map ?g (c_blocks c)) = live c"
  proof -
    have "blk_of \<circ> ?g = blk_of" using f by (auto simp: blk_of_def)
    then show ?thesis by (simp only: set_map image_comp)
  qed
  have lu: "inj_on (b_last_used \<circ> ?g) (set (c_blocks c))"
  proof (rule inj_onI)
    fix x y
    assume x: "x \<in> set (c_blocks c)" and y: "y \<in> set (c_blocks c)"
      and eq: "(b_last_used \<circ> ?g) x = (b_last_used \<circ> ?g) y"
    have "b_last_used x \<noteq> c_tick c + 1" "b_last_used y \<noteq> c_tick c + 1"
      using cache_invD(8) [OF inv x] cache_invD(8) [OF inv y] by simp_all
    then have "b_key x = k \<and> b_key y = k \<or> b_last_used x = b_last_used y"
      using eq f by (auto split: if_splits)
    then show "x = y"
      using key_inj [OF inv x y] cache_invD(5) [OF inv] x y by (auto simp: distinct_map inj_on_def)
  qed
  have "distinct (c_blocks c)" using cache_invD(3) [OF inv] by (simp add: distinct_map)
  with lu have "distinct (map b_last_used (map ?g (c_blocks c)))"
    unfolding map_map by (simp only: distinct_map simp_thms)
  moreover have "distinct (map b_key (map ?g (c_blocks c)))" "distinct (map b_offset (map ?g (c_blocks c)))"
    unfolding keys offs using cache_invD(3,4) [OF inv] by auto
  moreover have "\<forall>b \<in> set (map ?g (c_blocks c)). b_resident b \<and>
      b_ptr b = a_base (c_arena c) + b_offset b \<and> 0 < b_last_used b \<and> b_last_used b \<le> c_tick c + 1"
    using f cache_invD(6,7,8,9) [OF inv] by force
  moreover have "arena_inv (c_arena c) (blk_of ` set (map ?g (c_blocks c)))"
    unfolding live by (rule cache_invD(1) [OF inv])
  ultimately show ?thesis
    using cache_invD(2,9) [OF inv] unfolding cache_inv_def by simp
qed

lemma cache_inv_stats: "cache_inv (c\<lparr>c_stats := st\<rparr>) = cache_inv c"
  by (simp add: cache_inv_def)

lemma find_block_stats [simp]: "find_block (c\<lparr>c_stats := st\<rparr>) = find_block c"
  by (intro ext) (simp add: find_block_def)

text \<open>The state in which a missing expert has been given a block.\<close>

definition load_block :: "VramCache \<Rightarrow> ExpertKey \<Rightarrow> nat \<Rightarrow> int \<Rightarrow> nat \<Rightarrow> Arena \<Rightarrow> VramCache" where
  "load_block c key nbytes priority off ar =
     c\<lparr>c_arena := ar, c_tick := c_tick c + 1,
       c_blocks := filter (\<lambda>b. b_key b \<noteq> key) (c_blocks c) @
         [\<lparr>b_key = key, b_ptr = a_base ar + off, b_offset = off, b_size = nbytes,
           b_last_used = c_tick c + 1, b_priority = priority, b_resident = True\<rparr>],
       c_stats := (c_stats c)\<lparr>cs_loads := Suc (cs_loads (c_stats c))\<rparr>\<rparr>"

lemma load_block_inv:
  assumes inv: "cache_inv c" and nw: "a_cap (c_arena c) + n < size_mod"
    and al: "arena_alloc (c_arena c) n = (off, ar)" and ok: "off \<noteq> npos"
    and fresh: "key \<notin> b_key ` set (c_blocks c)"
  shows "cache_inv (load_block c key n p off ar)"
proof -
  have n: "0 < n" using al ok by (cases "n = 0") auto
  note a = arena_alloc_cases [OF cache_invD(1) [OF inv] nw n al]
  have flt: "filter (\<lambda>b. b_key b \<noteq> key) (c_blocks c) = c_blocks c"
    using fresh by (auto simp: filter_id_conv)
  have new: "off \<notin> b_offset ` set (c_blocks c)"
  proof
    assume "off \<in> b_offset ` set (c_blocks c)"
    then obtain b where b: "b \<in> set (c_blocks c)" "off = b_offset b" by auto
    then have "0 < b_size b"
      using arena_invD(4) [OF cache_invD(1) [OF inv]] by (auto simp: live_ok_def blk_of_def)
    then have "off \<in> live_bytes (live c)" using b by (auto simp: live_bytes_def blk_of_def)
    moreover have "off \<in> span off n" using n by simp
    ultimately show False using a ok by blast
  qed
  have "a_base ar = a_base (c_arena c)" using al by (simp add: arena_alloc_frame)
  moreover have "arena_inv ar (insert (off, n) (live c))" using a ok by blast
  moreover have "b_last_used b \<noteq> c_tick c + 1" if "b \<in> set (c_blocks c)" for b
    using cache_invD(8) [OF inv that] by simp
  ultimately show ?thesis
    using inv fresh new flt by (auto simp: load_block_def cache_inv_def blk_of_def)
qed

lemma cache_ensure_hit:
  assumes "cache_inv c" and "find_block c l e = Some b"
  shows "cache_ensure c l e n p = (True,
    c\<lparr>c_tick := c_tick c + 1,
      c_blocks := map (\<lambda>b. if b_key b = ExpertKey l e
         then b\<lparr>b_last_used := c_tick c + 1, b_priority := p\<rparr> else b) (c_blocks c),
      c_stats := (c_stats c)\<lparr>cs_ensures := Suc (cs_ensures (c_stats c)),
                            cs_hits := Suc (cs_hits (c_stats c))\<rparr>\<rparr>)"
proof -
  have "b_resident b" using assms cache_invD(6) find_block_Some by blast
  then show ?thesis using assms(2) by (simp add: cache_ensure_def Let_def)
qed

lemma cache_ensure_miss:
  assumes "find_block c l e = None"
  shows "cache_ensure c l e n p =
    (let d = evict_until_free (c\<lparr>c_stats := (c_stats c)\<lparr>cs_ensures := Suc (cs_ensures (c_stats c))\<rparr>\<rparr>) n;
         (off, ar) = arena_alloc (c_arena d) n
     in if off = npos then (False, d\<lparr>c_arena := ar\<rparr>) else (True, load_block d (ExpertKey l e) n p off ar))"
  using assms by (simp add: cache_ensure_def Let_def load_block_def split: prod.split)

lemma cache_ensure_inv:
  assumes inv: "cache_inv c" and nw: "a_cap (c_arena c) + n < size_mod"
    and en: "cache_ensure c l e n p = (ok, c')"
  shows "cache_inv c' \<and> a_cap (c_arena c') = a_cap (c_arena c) \<and> a_base (c_arena c') = a_base (c_arena c)"
proof (cases "find_block c l e")
  case (Some b)
  show ?thesis
    using cache_ensure_hit [OF inv Some, of n p] en refresh_inv [OF inv] by fastforce
next
  case None
  define d where "d = evict_until_free (c\<lparr>c_stats := (c_stats c)\<lparr>cs_ensures := Suc (cs_ensures (c_stats c))\<rparr>\<rparr>) n"
  have d: "cache_inv d" "a_cap (c_arena d) = a_cap (c_arena c)" "a_base (c_arena d) = a_base (c_arena c)"
    "set (c_blocks d) \<subseteq> set (c_blocks c)"
    using evict_until_free_inv [of "c\<lparr>c_stats := (c_stats c)\<lparr>cs_ensures := Suc (cs_ensures (c_stats c))\<rparr>\<rparr>" n] inv
    by (simp_all add: d_def cache_inv_stats)
  obtain off ar where al: "arena_alloc (c_arena d) n = (off, ar)" by fastforce
  have ce: "(if off = npos then (False, d\<lparr>c_arena := ar\<rparr>) else (True, load_block d (ExpertKey l e) n p off ar)) = (ok, c')"
    using en cache_ensure_miss [OF None, of n p] al by (simp add: Let_def d_def [symmetric])
  have ar: "a_cap ar = a_cap (c_arena c)" "a_base ar = a_base (c_arena c)"
    using al d by (simp_all add: arena_alloc_frame)
  have nwd: "a_cap (c_arena d) + n < size_mod" using nw d(2) by simp
  show ?thesis
  proof (cases "off = npos")
    case True
    then have "ar = c_arena d"
      using al dee_arena.alloc_fails [OF cache_invD(1) [OF d(1)] nwd] by simp
    with True ce d show ?thesis by auto
  next
    case False
    have "ExpertKey l e \<notin> b_key ` set (c_blocks d)"
      using None d(4) by (auto simp: find_block_None)
    then have "cache_inv (load_block d (ExpertKey l e) n p off ar)"
      by (rule load_block_inv [OF d(1) nwd al False])
    with False ce ar show ?thesis by (auto simp: load_block_def)
  qed
qed

lemma cache_touch_inv:
  assumes "cache_inv c"
  shows "cache_inv (cache_touch c l e)"
proof -
  let ?f = "\<lambda>b :: ExpertBlock. b\<lparr>b_last_used := c_tick c + 1\<rparr>"
  have "cache_inv (c\<lparr>c_tick := c_tick c + 1,
    c_blocks := map (\<lambda>b. if b_key b = ExpertKey l e then ?f b else b) (c_blocks c), c_stats := c_stats c\<rparr>)"
    by (rule refresh_inv [OF assms]) simp
  then show ?thesis
    using assms by (simp add: cache_touch_def split: option.split)
qed

lemma cache_sync_fallback_inv:
  "cache_inv c \<Longrightarrow> a_cap (c_arena c) + n < size_mod \<Longrightarrow> cache_sync_fallback c l e n p = (ok, c') \<Longrightarrow>
     cache_inv c'"
  using cache_ensure_inv [of "c\<lparr>c_stats := (c_stats c)\<lparr>cs_fallbacks := Suc (cs_fallbacks (c_stats c))\<rparr>\<rparr>" n l e p ok c']
  by (auto simp: cache_sync_fallback_def cache_inv_stats split: if_splits)

text \<open>Clearing frees the blocks one by one; at each step the remaining ones stay live.\<close>

lemma free_all_inv:
  assumes "arena_inv ar (blk_of ` set bs)" and "distinct (map b_offset bs)" and "\<forall>b \<in> set bs. b_resident b"
  shows "arena_inv (foldl (\<lambda>ar b. if b_resident b then arena_free ar (b_offset b) (b_size b) else ar) ar bs) {}"
    (is "arena_inv (foldl ?f ar bs) {}")
  using assms
proof (induction bs arbitrary: ar)
  case Nil
  then show ?case by simp
next
  case (Cons b bs)
  have "arena_inv (arena_free ar (b_offset b) (b_size b)) (blk_of ` set (b # bs) - {blk_of b})"
    using arena_free_inv [OF Cons.prems(1), of "b_offset b" "b_size b"] by (simp add: blk_of_def)
  moreover have "blk_of b \<notin> blk_of ` set bs"
  proof
    assume "blk_of b \<in> blk_of ` set bs"
    then obtain d where "d \<in> set bs" "b_offset d = b_offset b" by (auto simp: blk_of_def)
    then have "b_offset b \<in> b_offset ` set bs" by (metis imageI)
    then show False using Cons.prems(2) by simp
  qed
  then have "blk_of ` set (b # bs) - {blk_of b} = blk_of ` set bs" by simp
  ultimately show ?case using Cons by simp
qed

lemma foldl_free_frame [simp]:
  "a_cap (foldl (\<lambda>ar b. if b_resident b then arena_free ar (b_offset b) (b_size b) else ar) ar bs) = a_cap ar"
  "a_base (foldl (\<lambda>ar b. if b_resident b then arena_free ar (b_offset b) (b_size b) else ar) ar bs) = a_base ar"
  by (induction bs arbitrary: ar) auto

lemma cache_clear_inv:
  assumes "cache_inv c"
  shows "cache_inv (cache_clear c) \<and> a_used (c_arena (cache_clear c)) = 0 \<and>
    a_cap (c_arena (cache_clear c)) = a_cap (c_arena c)"
proof -
  have "arena_inv (c_arena (cache_clear c)) {}"
    using free_all_inv cache_invD(1,4,6) [OF assms] by (simp add: cache_clear_def)
  then show ?thesis
    using cache_invD(2) [OF assms] arena_invD(7) [of "c_arena (cache_clear c)" "{}"]
    by (simp add: cache_inv_def cache_clear_def)
qed

lemma cache_init_inv:
  "cache_init cache_new cap be = (True, c) \<Longrightarrow> cap < size_mod \<Longrightarrow>
     cache_inv c \<and> a_cap (c_arena c) = cap \<and> c_blocks c = []"
  using arena_init_inv [of "c_arena cache_new" cap be "c_arena c"]
  by (auto simp: cache_init_def cache_new_def cache_inv_def split: prod.splits)

section \<open>Blocks of one size\<close>

text \<open>The state the engine keeps: every block has \<open>n\<close> bytes and the budget holds at least one.\<close>

definition cache_ok :: "nat \<Rightarrow> VramCache \<Rightarrow> bool" where
  "cache_ok n c \<longleftrightarrow> cache_inv c \<and> cache_uniform n c \<and> 0 < n \<and> n \<le> a_cap (c_arena c) \<and>
     a_cap (c_arena c) + n < size_mod"

lemma cache_uniform_size: "cache_uniform n c \<Longrightarrow> b \<in> set (c_blocks c) \<Longrightarrow> b_size b = n"
  by (auto simp: cache_uniform_def arena_uniform_def blk_of_def)

lemma cache_uniform_used: "cache_inv c \<Longrightarrow> cache_uniform n c \<Longrightarrow> a_used (c_arena c) = n * card (set (c_blocks c))"
  by (simp add: cache_used cache_uniform_size)

lemma cache_uniform_same_blocks:
  "live d = live c \<Longrightarrow> c_arena d = c_arena c \<Longrightarrow> cache_uniform n d = cache_uniform n c"
  by (simp add: cache_uniform_def)

lemma live_refresh:
  assumes "\<And>b. b_offset (f b) = b_offset b \<and> b_size (f b) = b_size b"
  shows "blk_of ` set (map (\<lambda>b. if b_key b = k then f b else b) bs) = blk_of ` set bs"
proof -
  have "blk_of \<circ> (\<lambda>b. if b_key b = k then f b else b) = blk_of" using assms by (auto simp: blk_of_def)
  then show ?thesis by (simp only: set_map image_comp)
qed

text \<open>
  A request of the common size always succeeds: on a miss with enough free bytes nothing is
  evicted, otherwise exactly one block, a resident one of minimal score.
\<close>

lemma ensure_uniform_miss:
  assumes ok: "cache_ok n c" and miss: "find_block c l e = None"
  defines "c1 \<equiv> c\<lparr>c_stats := (c_stats c)\<lparr>cs_ensures := Suc (cs_ensures (c_stats c))\<rparr>\<rparr>"
  obtains d off ar where "cache_ensure c l e n p = (True, load_block d (ExpertKey l e) n p off ar)"
    and "arena_alloc (c_arena d) n = (off, ar)" and "off \<noteq> npos" and "cache_ok n d"
    and "set (c_blocks d) \<subseteq> set (c_blocks c)"
    and "d = c1 \<and> n \<le> arena_free_space (c_arena c) \<or>
         (\<exists>v \<in> set (c_blocks c). d = evict_block c1 v \<and> arena_free_space (c_arena c) < n \<and>
            (\<forall>b \<in> set (c_blocks c). eviction_score v \<le> eviction_score b))"
proof -
  have inv1: "cache_inv c1" "cache_uniform n c1" and n: "0 < n" "n \<le> a_cap (c_arena c)"
    and nw: "a_cap (c_arena c) + n < size_mod"
    using ok by (simp_all add: cache_ok_def c1_def cache_inv_stats cache_uniform_def)
  define d where "d = evict_until_free c1 n"
  have d: "cache_inv d" "cache_uniform n d" "a_cap (c_arena d) = a_cap (c_arena c)"
    using evict_until_free_inv [OF inv1(1)] evict_until_free_uniform [OF inv1(1)] inv1(2)
    by (simp_all add: d_def c1_def)
  have "n \<le> arena_free_space (c_arena d)"
  proof (rule disjE [OF evict_until_free_exit [OF inv1(1), of n, folded d_def]])
    assume "c_blocks d = []"
    then have "a_used (c_arena d) = 0" using cache_used [OF d(1)] by simp
    then show ?thesis using arena_free_space_eq [OF cache_invD(1) [OF d(1)]] d(3) n by simp
  qed
  moreover obtain off ar where al: "arena_alloc (c_arena d) n = (off, ar)" by fastforce
  ultimately have off: "off \<noteq> npos"
    using arena_uniform_alloc [OF cache_invD(1) [OF d(1)] d(2) [unfolded cache_uniform_def] n(1)] nw d(3) by simp
  have "cache_ensure c l e n p = (True, load_block d (ExpertKey l e) n p off ar)"
    using cache_ensure_miss [OF miss, of n p] al off by (simp add: Let_def d_def c1_def)
  moreover have "cache_ok n d" using d n nw by (simp add: cache_ok_def)
  moreover have "d = c1 \<and> n \<le> arena_free_space (c_arena c) \<or>
         (\<exists>v \<in> set (c_blocks c). d = evict_block c1 v \<and> arena_free_space (c_arena c) < n \<and>
            (\<forall>b \<in> set (c_blocks c). eviction_score v \<le> eviction_score b))"
  proof (cases rule: evict_uniform_once [OF inv1])
    case 1
    have "n \<le> arena_free_space (c_arena c)"
      using 1 \<open>n \<le> arena_free_space (c_arena d)\<close> by (simp add: d_def c1_def)
    then show ?thesis using 1(1) by (simp add: d_def)
  next
    case (2 v)
    then show ?thesis by (auto simp: d_def c1_def)
  qed
  moreover have "set (c_blocks d) \<subseteq> set (c_blocks c)"
    using evict_until_free_inv [OF inv1(1), of n] by (simp add: d_def c1_def)
  ultimately show thesis using that al off by blast
qed

lemma cache_ensure_ok:
  assumes "cache_ok n c"
  shows "fst (cache_ensure c l e n p)" and "cache_ok n (snd (cache_ensure c l e n p))"
proof -
  have nw: "a_cap (c_arena c) + n < size_mod" and inv: "cache_inv c"
    using assms by (simp_all add: cache_ok_def)
  note keep = cache_ensure_inv [OF inv nw surjective_pairing, of l e p]
  have both: "fst (cache_ensure c l e n p) \<and> cache_uniform n (snd (cache_ensure c l e n p))"
  proof (cases "find_block c l e")
    case (Some b)
    then show ?thesis
      using assms cache_ensure_hit [OF inv Some, of n p]
      by (simp add: cache_ok_def cache_uniform_def live_refresh del: set_map)
  next
    case None
    obtain d off ar where d: "cache_ensure c l e n p = (True, load_block d (ExpertKey l e) n p off ar)"
      "arena_alloc (c_arena d) n = (off, ar)" "off \<noteq> npos" "cache_ok n d"
      and sub: "set (c_blocks d) \<subseteq> set (c_blocks c)"
      by (rule ensure_uniform_miss [OF assms None, where p = p])
    then have "arena_uniform n ar (insert (off, n) (live d))"
      using arena_alloc_uniform [of "c_arena d" "live d" n off ar]
      by (simp add: cache_ok_def cache_uniform_def cache_invD(1))
    moreover have "\<forall>b \<in> set (c_blocks d). b_key b \<noteq> ExpertKey l e"
      using None sub by (auto simp: find_block_None)
    then have "live (load_block d (ExpertKey l e) n p off ar) = insert (off, n) (live d)"
      by (auto simp: load_block_def blk_of_def)
    ultimately show ?thesis using d(1) by (simp add: cache_uniform_def load_block_def)
  qed
  then show "fst (cache_ensure c l e n p)" by blast
  show "cache_ok n (snd (cache_ensure c l e n p))"
    using both keep assms by (simp add: cache_ok_def)
qed

section \<open>The cache as an expert store\<close>

definition cache_region :: "VramCache \<Rightarrow> ExpertKey \<Rightarrow> region option" where
  "cache_region c k =
     (case find_block c (key_layer k) (key_expert k) of
        None \<Rightarrow> None | Some b \<Rightarrow> if b_resident b then Some (b_ptr b, b_size b) else None)"

definition cache_acquire :: "nat \<Rightarrow> VramCache \<Rightarrow> ExpertKey \<Rightarrow> int \<Rightarrow> bool \<times> VramCache" where
  "cache_acquire n c k p = cache_ensure c (key_layer k) (key_expert k) n p"

definition cache_space :: "VramCache \<Rightarrow> region" where
  "cache_space c = (a_base (c_arena c), a_cap (c_arena c))"

lemma cache_region_Some:
  assumes "cache_inv c"
  shows "cache_region c k = Some (a, len) \<longleftrightarrow>
    (\<exists>b \<in> set (c_blocks c). b_key b = k \<and> a = b_ptr b \<and> len = b_size b)"
proof -
  have "ExpertKey (key_layer k) (key_expert k) = k" by simp
  then have *: "find_block c (key_layer k) (key_expert k) = Some b \<longleftrightarrow> b \<in> set (c_blocks c) \<and> b_key b = k" for b
    using find_block_Some [OF assms] by simp
  show ?thesis
  proof (cases "find_block c (key_layer k) (key_expert k)")
    case None
    then show ?thesis using * by (auto simp: cache_region_def)
  next
    case (Some d)
    then have d: "d \<in> set (c_blocks c)" "b_key d = k" using * by auto
    then have "(\<exists>b \<in> set (c_blocks c). b_key b = k \<and> a = b_ptr b \<and> len = b_size b) \<longleftrightarrow>
        a = b_ptr d \<and> len = b_size d"
      using key_inj [OF assms] by metis
    moreover have "cache_region c k = Some (b_ptr d, b_size d)"
      using Some cache_invD(6) [OF assms d(1)] by (simp add: cache_region_def)
    ultimately show ?thesis by auto
  qed
qed

lemma cache_region_None:
  "cache_inv c \<Longrightarrow> cache_region c k = None \<longleftrightarrow> (\<forall>b \<in> set (c_blocks c). b_key b \<noteq> k)"
  using cache_region_Some [of c k] by (metis not_None_eq surj_pair)

lemma cache_data_region:
  "cache_data c l e = (case cache_region c (ExpertKey l e) of None \<Rightarrow> nullptr | Some (a, len) \<Rightarrow> a)"
  "cache_size_of c l e = (case cache_region c (ExpertKey l e) of None \<Rightarrow> 0 | Some (a, len) \<Rightarrow> len)"
  "cache_is_resident c l e \<longleftrightarrow> cache_region c (ExpertKey l e) \<noteq> None"
  by (auto simp: cache_data_def cache_size_of_def cache_is_resident_def cache_region_def split: option.splits)

lemma cache_region_refresh:
  assumes "cache_inv c" and "cache_inv d"
    and "c_blocks d = map (\<lambda>b. if b_key b = k then f b else b) (c_blocks c)"
    and "\<And>b. b_key (f b) = b_key b \<and> b_ptr (f b) = b_ptr b \<and> b_size (f b) = b_size b"
  shows "cache_region d = cache_region c"
proof
  fix j
  have "(\<exists>b \<in> set (c_blocks d). b_key b = j \<and> a = b_ptr b \<and> len = b_size b) \<longleftrightarrow>
        (\<exists>b \<in> set (c_blocks c). b_key b = j \<and> a = b_ptr b \<and> len = b_size b)" for a len
    unfolding assms(3) set_map bex_simps using assms(4) by (intro bex_cong) auto
  then have "cache_region d j = Some r \<longleftrightarrow> cache_region c j = Some r" for r
    using cache_region_Some [OF assms(1)] cache_region_Some [OF assms(2)] by (cases r) simp
  then show "cache_region d j = cache_region c j" by (metis not_None_eq)
qed

lemma cache_ensure_regions:
  assumes ok: "cache_ok n c" and en: "cache_ensure c l e n p = (r, c')"
  shows "cache_region c' (ExpertKey l e) \<noteq> None"
    and "cache_region c (ExpertKey l e) = Some x \<Longrightarrow> cache_region c' (ExpertKey l e) = Some x"
    and "k \<noteq> ExpertKey l e \<Longrightarrow> cache_region c' k = None \<or> cache_region c' k = cache_region c k"
proof -
  let ?k = "ExpertKey l e"
  have inv: "cache_inv c" and inv': "cache_inv c'"
    using ok cache_ensure_ok(2) [OF ok, of l e p] en by (simp_all add: cache_ok_def)
  show "cache_region c' ?k \<noteq> None"
    and "cache_region c ?k = Some x \<Longrightarrow> cache_region c' ?k = Some x"
    and "k \<noteq> ?k \<Longrightarrow> cache_region c' k = None \<or> cache_region c' k = cache_region c k"
  proof (atomize (full), cases "find_block c l e")
    case (Some b)
    then have b: "b \<in> set (c_blocks c)" "b_key b = ?k" using find_block_Some [OF inv] by auto
    have "c_blocks c' = map (\<lambda>b. if b_key b = ?k
         then b\<lparr>b_last_used := c_tick c + 1, b_priority := p\<rparr> else b) (c_blocks c)"
      using cache_ensure_hit [OF inv Some, of n p] en by auto
    then have "cache_region c' = cache_region c"
      by (rule cache_region_refresh [OF inv inv']) simp
    then show "cache_region c' ?k \<noteq> None \<and> (cache_region c ?k = Some x \<longrightarrow> cache_region c' ?k = Some x) \<and>
      (k \<noteq> ?k \<longrightarrow> cache_region c' k = None \<or> cache_region c' k = cache_region c k)"
      using b cache_region_None [OF inv] by auto
  next
    case None
    obtain d off ar where d: "cache_ensure c l e n p = (True, load_block d ?k n p off ar)"
      and sub: "set (c_blocks d) \<subseteq> set (c_blocks c)"
      by (rule ensure_uniform_miss [OF ok None, where p = p])
    have c': "c' = load_block d ?k n p off ar" using d en by simp
    have "cache_region c' k = Some y \<longrightarrow> cache_region c k = Some y" if "k \<noteq> ?k" for y
    proof -
      obtain a len where y: "y = (a, len)" by fastforce
      show ?thesis
        using that sub cache_region_Some [OF inv, of k a len] cache_region_Some [OF inv', of k a len]
        by (auto simp: c' load_block_def y)
    qed
    moreover have "cache_region c' ?k \<noteq> None"
      by (simp add: cache_region_None [OF inv']) (simp add: c' load_block_def)
    moreover have "cache_region c ?k = None"
      using None by (simp add: cache_region_None [OF inv] find_block_None)
    ultimately show "cache_region c' ?k \<noteq> None \<and> (cache_region c ?k = Some x \<longrightarrow> cache_region c' ?k = Some x) \<and>
      (k \<noteq> ?k \<longrightarrow> cache_region c' k = None \<or> cache_region c' k = cache_region c k)"
      by (metis not_None_eq option.distinct(1))
  qed
qed

lemma cache_region_disjoint:
  assumes inv: "cache_inv c" and k: "cache_region c k = Some (a, len)"
    and k': "cache_region c k' = Some (a', len')" and ne: "k \<noteq> k'"
  shows "span a len \<inter> span a' len' = {}"
proof -
  obtain b b' where b: "b \<in> set (c_blocks c)" "b_key b = k" "a = b_ptr b" "len = b_size b"
    and b': "b' \<in> set (c_blocks c)" "b_key b' = k'" "a' = b_ptr b'" "len' = b_size b'"
    using k k' cache_region_Some [OF inv] by auto
  have "blk_of b \<noteq> blk_of b'" using blk_of_inj [OF inv] b b' ne by auto
  then have "blk_bytes (blk_of b) \<inter> blk_bytes (blk_of b') = {}"
    using arena_invD(4) [OF cache_invD(1) [OF inv]] b(1) b'(1) by (auto simp: live_ok_def simp del: mem_blk_bytes)
  then show ?thesis
    using cache_invD(7) [OF inv b(1)] cache_invD(7) [OF inv b'(1)] b b'
    by (simp add: span_shift_disjoint blk_bytes_def blk_of_def)
qed

lemma cache_region_inside:
  assumes inv: "cache_inv c" and k: "cache_region c k = Some (a, len)"
  shows "span a len \<subseteq> span (a_base (c_arena c)) (a_cap (c_arena c))" and "a \<noteq> nullptr"
proof -
  obtain b where b: "b \<in> set (c_blocks c)" "a = b_ptr b" "len = b_size b"
    using k cache_region_Some [OF inv] by auto
  have "b_offset b + b_size b \<le> a_cap (c_arena c)"
    using live_in_region [OF cache_invD(1) [OF inv], of "blk_of b"] b(1)
      arena_invD(2) [OF cache_invD(1) [OF inv]] by (force simp: blk_of_def)
  then show "span a len \<subseteq> span (a_base (c_arena c)) (a_cap (c_arena c))" and "a \<noteq> nullptr"
    using cache_invD(2,7) [OF inv] b by auto
qed

interpretation vram_store: expert_store "cache_ok n" cache_region "cache_acquire n" cache_space n for n
proof (unfold_locales, goal_cases)
  case (1 s k p ok s')
  then show ?case
    using cache_ensure_ok(2) [of n s "key_layer k" "key_expert k" p] by (simp add: cache_acquire_def)
next
  case (2 s k p ok s')
  then show ?case
    using cache_ensure_inv [of s n "key_layer k" "key_expert k" p ok s']
    by (simp add: cache_acquire_def cache_ok_def cache_space_def)
next
  case (3 s k p s')
  then show ?case
    using cache_ensure_regions(1) [of n s "key_layer k" "key_expert k" p] by (simp add: cache_acquire_def)
next
  case (4 s k r p ok s')
  then show ?case
    using cache_ensure_regions(2) [of n s "key_layer k" "key_expert k" p ok s' r]
      cache_ensure_ok(1) [of n s "key_layer k" "key_expert k" p] by (simp add: cache_acquire_def)
next
  case (5 s k p s')
  then show ?case
    using cache_ensure_ok(1) [of n s "key_layer k" "key_expert k" p] by (simp add: cache_acquire_def)
next
  case (6 s k p ok s' k')
  then show ?case
    using cache_ensure_regions(3) [of n s "key_layer k" "key_expert k" p ok s' k'] by (simp add: cache_acquire_def)
next
  case (7 s k a len k' a' len')
  then show ?case using cache_region_disjoint unfolding cache_ok_def by blast
next
  case (8 s k a len)
  then show ?case
    using cache_region_inside [of s k a len] by (simp add: cache_ok_def cache_space_def)
next
  case (9 s k a len)
  then show ?case by (auto simp: cache_ok_def cache_region_Some cache_uniform_size)
qed

section \<open>Reachable states\<close>

text \<open>
  The public operations that change the cache, and a change of iteration order, which
  \<^verbatim>\<open>std::unordered_map\<close> may make on any insertion.
\<close>

inductive cache_step :: "VramCache \<Rightarrow> VramCache \<Rightarrow> bool" where
  ensure: "a_cap (c_arena c) + n < size_mod \<Longrightarrow> cache_step c (snd (cache_ensure c l e n p))"
| touch: "cache_step c (cache_touch c l e)"
| sync_fallback: "a_cap (c_arena c) + n < size_mod \<Longrightarrow> cache_step c (snd (cache_sync_fallback c l e n p))"
| clear: "cache_step c (cache_clear c)"
| rehash: "mset bs = mset (c_blocks c) \<Longrightarrow> cache_step c (c\<lparr>c_blocks := bs\<rparr>)"

inductive cache_reachable :: "nat \<Rightarrow> VramCache \<Rightarrow> bool" for cap where
  start: "cache_init cache_new cap be = (True, c) \<Longrightarrow> cap < size_mod \<Longrightarrow> cache_reachable cap c"
| step: "cache_reachable cap c \<Longrightarrow> cache_step c d \<Longrightarrow> cache_reachable cap d"

lemma cache_rehash_inv:
  assumes "cache_inv c" and "mset bs = mset (c_blocks c)"
  shows "cache_inv (c\<lparr>c_blocks := bs\<rparr>)"
proof -
  have "set bs = set (c_blocks c)" using assms(2) by (rule mset_eq_setD)
  then show ?thesis
    using assms(1) by (simp add: cache_inv_def perm_distinct_map [OF assms(2)])
qed

lemma cache_step_inv:
  assumes "cache_step c d" and "cache_inv c"
  shows "cache_inv d \<and> a_cap (c_arena d) = a_cap (c_arena c)"
  using assms
proof (induction rule: cache_step.induct)
  case (ensure c n l e p)
  then show ?case using cache_ensure_inv [OF _ _ surjective_pairing, of c n l e p] by simp
next
  case (touch c l e)
  then show ?case using cache_touch_inv [of c l e] by (auto simp: cache_touch_def split: option.split)
next
  case (sync_fallback c n l e p)
  let ?c = "c\<lparr>c_stats := (c_stats c)\<lparr>cs_fallbacks := Suc (cs_fallbacks (c_stats c))\<rparr>\<rparr>"
  show ?case
    using cache_ensure_inv [OF _ _ surjective_pairing, of ?c n l e p] sync_fallback
    by (simp add: cache_sync_fallback_def cache_inv_stats)
next
  case (clear c)
  then show ?case using cache_clear_inv by simp
next
  case (rehash bs c)
  then show ?case using cache_rehash_inv by simp
qed

lemma cache_reachable_inv: "cache_reachable cap c \<Longrightarrow> cache_inv c \<and> a_cap (c_arena c) = cap"
proof (induction rule: cache_reachable.induct)
  case (start be c)
  then show ?case using cache_init_inv by blast
next
  case (step c d)
  then show ?case using cache_step_inv by force
qed

section \<open>Refinement of a slot cache with a scored eviction policy\<close>

text \<open>
  The contract of the cache for blocks of one size: a map from keys to recency and priority
  with at most \<open>N\<close> entries; a miss in a full map evicts an entry of minimal score.
\<close>

type_synonym spec_cache = "(ExpertKey \<rightharpoonup> int \<times> int) \<times> int"

definition spec_score :: "int \<times> int \<Rightarrow> int" where
  "spec_score x = fst x + snd x * PRIORITY_WEIGHT"

inductive spec_ensure :: "nat \<Rightarrow> spec_cache \<Rightarrow> ExpertKey \<Rightarrow> int \<Rightarrow> spec_cache \<Rightarrow> bool" for N where
  hit: "m k \<noteq> None \<Longrightarrow> spec_ensure N (m, t) k p (m(k \<mapsto> (t + 1, p)), t + 1)"
| room: "m k = None \<Longrightarrow> card (dom m) < N \<Longrightarrow> spec_ensure N (m, t) k p (m(k \<mapsto> (t + 1, p)), t + 1)"
| full: "m k = None \<Longrightarrow> card (dom m) = N \<Longrightarrow> m v = Some x \<Longrightarrow>
    (\<forall>j y. m j = Some y \<longrightarrow> spec_score x \<le> spec_score y) \<Longrightarrow>
    spec_ensure N (m, t) k p ((m(v := None))(k \<mapsto> (t + 1, p)), t + 1)"

definition abs_map :: "ExpertBlock list \<Rightarrow> ExpertKey \<rightharpoonup> int \<times> int" where
  "abs_map bs = map_of (map (\<lambda>b. (b_key b, b_last_used b, b_priority b)) bs)"

definition abs_cache :: "VramCache \<Rightarrow> spec_cache" where
  "abs_cache c = (abs_map (c_blocks c), c_tick c)"

lemma abs_map_Some:
  assumes "distinct (map b_key bs)"
  shows "abs_map bs k = Some x \<longleftrightarrow> (\<exists>b \<in> set bs. b_key b = k \<and> x = (b_last_used b, b_priority b))"
proof -
  have "map fst (map (\<lambda>b. (b_key b, b_last_used b, b_priority b)) bs) = map b_key bs" by simp
  then show ?thesis
    unfolding abs_map_def using assms by (subst map_of_eq_Some_iff) (auto simp: comp_def)
qed

lemma dom_abs_map: "dom (abs_map bs) = b_key ` set bs"
  by (simp add: abs_map_def dom_map_of_conv_image_fst image_image)

lemma card_dom_abs: "cache_inv c \<Longrightarrow> card (dom (abs_map (c_blocks c))) = card (set (c_blocks c))"
  unfolding dom_abs_map by (intro card_image inj_onI) (auto dest: key_inj)

lemma abs_map_assign:
  "\<forall>b \<in> set bs. b_key b \<noteq> b_key nb \<Longrightarrow>
     abs_map (bs @ [nb]) = (abs_map bs)(b_key nb \<mapsto> (b_last_used nb, b_priority nb))"
proof (induction bs)
  case Nil
  then show ?case by (simp add: abs_map_def)
next
  case (Cons b bs)
  then show ?case by (auto simp: abs_map_def fun_upd_twist)
qed

lemma abs_map_erase: "abs_map (filter (\<lambda>b. b_key b \<noteq> k) bs) = (abs_map bs)(k := None)"
  by (induction bs) (auto simp: abs_map_def)

lemma abs_map_refresh:
  "k \<in> b_key ` set bs \<Longrightarrow> distinct (map b_key bs) \<Longrightarrow>
     abs_map (map (\<lambda>b. if b_key b = k then b\<lparr>b_last_used := t, b_priority := p\<rparr> else b) bs)
       = (abs_map bs)(k \<mapsto> (t, p))"
proof (induction bs)
  case Nil
  then show ?case by simp
next
  case (Cons b bs)
  show ?case
  proof (cases "b_key b = k")
    case True
    then have "k \<notin> b_key ` set bs" using Cons.prems(2) by simp
    then have "\<forall>x \<in> set bs. b_key x \<noteq> k" by (metis imageI)
    then have "map (\<lambda>b. if b_key b = k then b\<lparr>b_last_used := t, b_priority := p\<rparr> else b) bs = bs"
      by (intro map_idI) auto
    with True show ?thesis by (auto simp: abs_map_def)
  next
    case False
    with Cons show ?thesis by (auto simp: abs_map_def fun_upd_twist)
  qed
qed

lemma cache_room_iff:
  assumes ok: "cache_ok n c"
  shows "n \<le> arena_free_space (c_arena c) \<longleftrightarrow> card (set (c_blocks c)) < a_cap (c_arena c) div n"
    and "card (set (c_blocks c)) \<le> a_cap (c_arena c) div n"
proof -
  let ?m = "card (set (c_blocks c))"
  have inv: "cache_inv c" "cache_uniform n c" "0 < n" using ok by (simp_all add: cache_ok_def)
  have used: "a_used (c_arena c) = n * ?m" by (rule cache_uniform_used [OF inv(1,2)])
  have le: "n * ?m \<le> a_cap (c_arena c)" using cache_used_le [OF inv(1)] used by simp
  then show "?m \<le> a_cap (c_arena c) div n"
    using inv(3) by (simp add: less_eq_div_iff_mult_less_eq mult.commute)
  have "n \<le> a_cap (c_arena c) - n * ?m \<longleftrightarrow> n * Suc ?m \<le> a_cap (c_arena c)"
    using le by (simp add: le_diff_conv2)
  also have "\<dots> \<longleftrightarrow> Suc ?m \<le> a_cap (c_arena c) div n"
    using inv(3) by (simp only: less_eq_div_iff_mult_less_eq mult.commute)
  finally show "n \<le> arena_free_space (c_arena c) \<longleftrightarrow> ?m < a_cap (c_arena c) div n"
    using arena_free_space_eq [OF cache_invD(1) [OF inv(1)]] used by (simp add: Suc_le_eq)
qed

lemma cache_ensure_refines:
  assumes ok: "cache_ok n c"
  shows "spec_ensure (a_cap (c_arena c) div n) (abs_cache c) (ExpertKey l e) p
    (abs_cache (snd (cache_ensure c l e n p)))"
proof -
  let ?k = "ExpertKey l e" and ?m = "abs_map (c_blocks c)"
  have inv: "cache_inv c" using ok by (simp add: cache_ok_def)
  show ?thesis
  proof (cases "find_block c l e")
    case (Some b)
    then have b: "?k \<in> b_key ` set (c_blocks c)" using find_block_Some [OF inv] by (metis imageI)
    then have "?m ?k \<noteq> None" using dom_abs_map by (metis domIff)
    then show ?thesis
      using cache_ensure_hit [OF inv Some, of n p] abs_map_refresh [OF b cache_invD(3) [OF inv]]
      by (simp add: abs_cache_def spec_ensure.hit)
  next
    case None
    then have "?k \<notin> dom ?m" by (auto simp: dom_abs_map find_block_None)
    then have new: "?m ?k = None" by (metis domIff)
    obtain d off ar where en: "cache_ensure c l e n p = (True, load_block d ?k n p off ar)"
      and d: "d = c\<lparr>c_stats := (c_stats c)\<lparr>cs_ensures := Suc (cs_ensures (c_stats c))\<rparr>\<rparr> \<and>
           n \<le> arena_free_space (c_arena c) \<or>
         (\<exists>v \<in> set (c_blocks c).
            d = evict_block (c\<lparr>c_stats := (c_stats c)\<lparr>cs_ensures := Suc (cs_ensures (c_stats c))\<rparr>\<rparr>) v \<and>
            arena_free_space (c_arena c) < n \<and>
            (\<forall>b \<in> set (c_blocks c). eviction_score v \<le> eviction_score b))"
      by (rule ensure_uniform_miss [OF ok None, where p = p])
    have load: "abs_cache (load_block d ?k n p off ar) =
        ((abs_map (c_blocks d))(?k \<mapsto> (c_tick d + 1, p)), c_tick d + 1)"
      by (simp add: abs_cache_def load_block_def abs_map_assign abs_map_erase)
    from d show ?thesis
    proof (elim disjE conjE bexE)
      assume d1: "d = c\<lparr>c_stats := (c_stats c)\<lparr>cs_ensures := Suc (cs_ensures (c_stats c))\<rparr>\<rparr>"
        and "n \<le> arena_free_space (c_arena c)"
      then have "card (dom ?m) < a_cap (c_arena c) div n"
        using cache_room_iff(1) [OF ok] card_dom_abs [OF inv] by simp
      with new have "spec_ensure (a_cap (c_arena c) div n) (?m, c_tick c) ?k p (?m(?k \<mapsto> (c_tick c + 1, p)), c_tick c + 1)"
        by (rule spec_ensure.room)
      then show ?thesis
        unfolding en snd_conv load by (simp add: d1 abs_cache_def [of c])
    next
      fix v
      assume v: "v \<in> set (c_blocks c)" "\<forall>b \<in> set (c_blocks c). eviction_score v \<le> eviction_score b"
        and d1: "d = evict_block (c\<lparr>c_stats := (c_stats c)\<lparr>cs_ensures := Suc (cs_ensures (c_stats c))\<rparr>\<rparr>) v"
        and "arena_free_space (c_arena c) < n"
      then have N: "card (dom ?m) = a_cap (c_arena c) div n"
        using cache_room_iff [OF ok] card_dom_abs [OF inv] by simp
      note S = abs_map_Some [OF cache_invD(3) [OF inv]]
      have mv: "?m (b_key v) = Some (b_last_used v, b_priority v)" using v(1) S by auto
      have "\<forall>j y. ?m j = Some y \<longrightarrow> spec_score (b_last_used v, b_priority v) \<le> spec_score y"
        using v(2) S by (auto simp: spec_score_def eviction_score_def)
      from spec_ensure.full [OF new N mv this, of "c_tick c" p] show ?thesis
        unfolding en snd_conv load by (simp add: d1 evict_block_def abs_map_erase abs_cache_def [of c])
    qed
  qed
qed

lemma cache_init_ok:
  "cache_init cache_new cap be = (True, c) \<Longrightarrow> 0 < n \<Longrightarrow> n \<le> cap \<Longrightarrow> cap + n < size_mod \<Longrightarrow> cache_ok n c"
  using cache_init_inv [of cap be c] arena_init_uniform [of "c_arena cache_new" cap be "c_arena c" n]
  by (auto simp: cache_ok_def cache_uniform_def cache_init_def split: prod.splits)

lemma cache_resident_count_eq: "cache_inv c \<Longrightarrow> cache_resident_count c = card (set (c_blocks c))"
  using cache_invD(3,6) [of c] distinct_card [of "c_blocks c"]
  by (simp add: cache_resident_count_def filter_id_conv [THEN iffD2] distinct_map)

text \<open>As long as the budget holds all the experts that are asked for, none is evicted.\<close>

lemma cache_ensure_within:
  assumes ok: "cache_ok n c" and within: "{k. cache_region c k \<noteq> None} \<subseteq> K" and K: "finite K" "n * card K \<le> a_cap (c_arena c)"
    and k: "ExpertKey l e \<in> K" and en: "cache_ensure c l e n p = (r, c')"
  shows "cache_region c' k = (if k = ExpertKey l e then cache_region c' k else cache_region c k)"
    and "cache_region c' (ExpertKey l e) \<noteq> None" and "{k. cache_region c' k \<noteq> None} = insert (ExpertKey l e) {k. cache_region c k \<noteq> None}"
proof -
  have inv: "cache_inv c" using ok by (simp add: cache_ok_def)
  have keys: "b_key ` set (c_blocks c) = {k. cache_region c k \<noteq> None}" using cache_region_None [OF inv] by auto
  note reg = cache_ensure_regions [OF ok en]
  show pres: "cache_region c' (ExpertKey l e) \<noteq> None" by (rule reg(1))
  have inv': "cache_inv c'" using cache_ensure_ok(2) [OF ok, of l e p] en by (simp add: cache_ok_def)
  have sur: "cache_region c' j \<noteq> None" if j: "cache_region c j \<noteq> None" "j \<noteq> ExpertKey l e" for j
  proof (cases "find_block c l e")
    case (Some b)
    then have "map b_key (c_blocks c') = map b_key (c_blocks c)" using cache_ensure_hit [OF inv Some, of n p] en by auto
    then have "b_key ` set (c_blocks c') = b_key ` set (c_blocks c)" by (metis set_map)
    then show ?thesis using j(1) cache_region_None [OF inv] cache_region_None [OF inv'] by (metis imageE image_eqI)
  next
    case None
    have "ExpertKey l e \<notin> b_key ` set (c_blocks c)" using None by (auto simp: find_block_None)
    then have "b_key ` set (c_blocks c) \<subset> K" using within keys k by blast
    then have "card (b_key ` set (c_blocks c)) < card K" by (rule psubset_card_mono [OF K(1)])
    moreover have "card (b_key ` set (c_blocks c)) = card (set (c_blocks c))"
      by (rule card_image) (metis inj_onI key_inj [OF inv])
    moreover have "card K \<le> a_cap (c_arena c) div n"
      using K(2) ok by (simp add: cache_ok_def less_eq_div_iff_mult_less_eq mult.commute)
    ultimately have "n \<le> arena_free_space (c_arena c)" using cache_room_iff(1) [OF ok] by linarith
    moreover obtain d off ar where d: "cache_ensure c l e n p = (True, load_block d (ExpertKey l e) n p off ar)"
      "d = c\<lparr>c_stats := (c_stats c)\<lparr>cs_ensures := Suc (cs_ensures (c_stats c))\<rparr>\<rparr> \<and> n \<le> arena_free_space (c_arena c) \<or>
         (\<exists>v \<in> set (c_blocks c). d = evict_block (c\<lparr>c_stats := (c_stats c)\<lparr>cs_ensures := Suc (cs_ensures (c_stats c))\<rparr>\<rparr>) v \<and>
           arena_free_space (c_arena c) < n \<and> (\<forall>b \<in> set (c_blocks c). eviction_score v \<le> eviction_score b))"
      by (rule ensure_uniform_miss [OF ok None, where p = p])
    ultimately have "c_blocks d = c_blocks c" by auto
    then have "set (c_blocks c) - {b. b_key b = ExpertKey l e} \<subseteq> set (c_blocks c')"
      using d(1) en by (auto simp: load_block_def)
    moreover obtain b where "b \<in> set (c_blocks c)" "b_key b = j" using j(1) cache_region_None [OF inv, of j] by auto
    ultimately have "b \<in> set (c_blocks c')" "b_key b = j" using j(2) by auto
    then show ?thesis using cache_region_None [OF inv', of j] by auto
  qed
  then show "{k. cache_region c' k \<noteq> None} = insert (ExpertKey l e) {k. cache_region c k \<noteq> None}"
    using reg(3) pres by fastforce
  show "cache_region c' k = (if k = ExpertKey l e then cache_region c' k else cache_region c k)"
    using reg(3) sur by (metis (no_types))
qed

lemma ensure_survivors:
  assumes inv: "cache_inv c" and nw: "a_cap (c_arena c) + n < size_mod"
    and en: "cache_ensure c l e n p = (ok, c')"
    and b: "b \<in> set (c_blocks c)" "b_key b \<notin> b_key ` set (c_blocks c')"
    and d: "d \<in> set (c_blocks c)" "b_key d \<in> b_key ` set (c_blocks c')"
  shows "eviction_score b \<le> eviction_score d"
proof (cases "find_block c l e")
  case (Some x)
  then have "map b_key (c_blocks c') = map b_key (c_blocks c)"
    using cache_ensure_hit [OF inv Some, of n p] en by auto
  then have "b_key ` set (c_blocks c') = b_key ` set (c_blocks c)" by (metis set_map)
  with b show ?thesis by auto
next
  case None
  define f where "f = evict_until_free (c\<lparr>c_stats := (c_stats c)\<lparr>cs_ensures := Suc (cs_ensures (c_stats c))\<rparr>\<rparr>) n"
  have ev: "set (c_blocks f) \<subseteq> set (c_blocks c)"
    "\<forall>b \<in> set (c_blocks c) - set (c_blocks f). \<forall>d \<in> set (c_blocks f). eviction_score b \<le> eviction_score d"
    using evict_until_free_minimal [of "c\<lparr>c_stats := (c_stats c)\<lparr>cs_ensures := Suc (cs_ensures (c_stats c))\<rparr>\<rparr>" n] inv
    by (simp_all add: f_def cache_inv_stats)
  have "c_blocks c' = c_blocks f \<or> (\<exists>nb. b_key nb = ExpertKey l e \<and> c_blocks c' = filter (\<lambda>b. b_key b \<noteq> ExpertKey l e) (c_blocks f) @ [nb])"
    using en cache_ensure_miss [OF None, of n p]
    by (auto simp: Let_def f_def [symmetric] load_block_def split: prod.splits if_splits)
  moreover have "b_key d \<noteq> ExpertKey l e" "b_key b \<noteq> ExpertKey l e" using d(1) b(1) None by (auto simp: find_block_None)
  ultimately have "b \<notin> set (c_blocks f)" "b_key d \<in> b_key ` set (c_blocks f)" using b(2) d(2) by auto
  moreover from this have "d \<in> set (c_blocks f)" using ev(1) key_inj [OF inv d(1)] by auto
  ultimately show ?thesis using ev(2) b(1) by blast
qed

section \<open>Properties\<close>

text \<open>A cache of two 256-byte slots holding experts 0 and 1 of layer 0.\<close>

definition example_cache :: VramCache where
  "example_cache = snd (cache_init cache_new 512 example_backend)"

definition example_cache2 :: VramCache where
  "example_cache2 = snd (cache_ensure (snd (cache_ensure example_cache 0 0 256 0)) 0 1 256 0)"

lemmas cache_eval = arena_eval example_cache_def example_cache2_def cache_init_def cache_new_def
  cache_ensure_def find_block_def evict_until_free.simps arena_free_space_def cache_data_def cache_size_of_def
  cache_is_resident_def eviction_score_def PRIORITY_WEIGHT_def evict_block_def cache_resident_count_def
  cache_used_bytes_def

lemma example_cache_reachable: "cache_reachable 512 example_cache"
  by (rule cache_reachable.start [of _ example_backend]) (simp_all add: cache_eval)

lemma example_cache2_reachable: "cache_reachable 512 example_cache2"
proof -
  have "cache_reachable 512 (snd (cache_ensure example_cache 0 0 256 0))"
    by (rule cache_reachable.step [OF example_cache_reachable cache_step.ensure]) (simp add: cache_eval)
  then show ?thesis unfolding example_cache2_def
    by (rule cache_reachable.step [OF _ cache_step.ensure]) (simp add: cache_eval)
qed

text \<open>
  C4: in every reachable state of the cache the resident experts use exactly \<^verbatim>\<open>used_bytes()\<close> bytes,
  never more than the budget; each lies inside the arena, and the ranges of two different experts
  never overlap.
\<close>

theorem cache_reachable_safe:
  assumes "cache_reachable cap c"
  shows "cache_used_bytes c = (\<Sum>b \<in> set (c_blocks c). b_size b) \<and> cache_used_bytes c \<le> cap \<and>
    (\<forall>l e. cache_is_resident c l e \<longrightarrow>
       span (cache_data c l e) (cache_size_of c l e) \<subseteq> span (a_base (c_arena c)) cap) \<and>
    (\<forall>l e l' e'. cache_is_resident c l e \<and> cache_is_resident c l' e' \<and> (l, e) \<noteq> (l', e') \<longrightarrow>
       span (cache_data c l e) (cache_size_of c l e) \<inter> span (cache_data c l' e') (cache_size_of c l' e') = {})"
proof -
  have inv: "cache_inv c" "a_cap (c_arena c) = cap" using cache_reachable_inv [OF assms] by auto
  have reg: "\<exists>a len. cache_region c (ExpertKey l e) = Some (a, len) \<and> cache_data c l e = a \<and> cache_size_of c l e = len"
    if "cache_is_resident c l e" for l e
    using that by (auto simp: cache_data_region)
  show ?thesis
  proof (intro conjI allI impI)
    show "cache_used_bytes c = (\<Sum>b \<in> set (c_blocks c). b_size b)" "cache_used_bytes c \<le> cap"
      using cache_used [OF inv(1)] cache_used_le [OF inv(1)] inv(2) by (simp_all add: cache_used_bytes_def)
    fix l e
    assume "cache_is_resident c l e"
    then show "span (cache_data c l e) (cache_size_of c l e) \<subseteq> span (a_base (c_arena c)) cap"
      using reg cache_region_inside(1) [OF inv(1)] inv(2) by metis
  next
    fix l e l' e'
    assume "cache_is_resident c l e \<and> cache_is_resident c l' e' \<and> (l, e) \<noteq> (l', e')"
    then show "span (cache_data c l e) (cache_size_of c l e) \<inter> span (cache_data c l' e') (cache_size_of c l' e') = {}"
      using reg [of l e] reg [of l' e'] cache_region_disjoint [OF inv(1), of "ExpertKey l e" _ _ "ExpertKey l' e'"] by auto
  qed
qed

theorem cache_reachable_safe_witness:
  "cache_used_bytes example_cache2 \<le> 512 \<and>
   span (cache_data example_cache2 0 0) (cache_size_of example_cache2 0 0) \<inter>
   span (cache_data example_cache2 0 1) (cache_size_of example_cache2 0 1) = {}"
proof -
  have "cache_is_resident example_cache2 0 0" "cache_is_resident example_cache2 0 1"
    by (simp_all add: cache_eval)
  then show ?thesis
    using cache_reachable_safe [OF example_cache2_reachable] by simp
qed

text \<open>
  C18: eviction follows the score: when a request pushes experts out, every expert that is pushed
  out scores at most as much as every expert that stays.
\<close>

theorem cache_evicts_lowest_scores:
  assumes "cache_reachable cap c" and "cap + n < size_mod" and "cache_ensure c l e n p = (ok, c')"
  shows "\<forall>b \<in> set (c_blocks c). \<forall>d \<in> set (c_blocks c).
    b_key b \<notin> b_key ` set (c_blocks c') \<and> b_key d \<in> b_key ` set (c_blocks c') \<longrightarrow>
    eviction_score b \<le> eviction_score d"
  using ensure_survivors [OF _ _ assms(3)] cache_reachable_inv [OF assms(1)] assms(2) by blast

theorem cache_evicts_lowest_scores_witness:
  "eviction_score (c_blocks example_cache2 ! 0) \<le> eviction_score (c_blocks example_cache2 ! 1) \<and>
   map b_key (c_blocks (snd (cache_ensure example_cache2 0 2 256 0))) = [ExpertKey 0 1, ExpertKey 0 2]"
proof -
  have "c_blocks example_cache2 ! 0 \<in> set (c_blocks example_cache2)"
    "c_blocks example_cache2 ! 1 \<in> set (c_blocks example_cache2)"
    "map b_key (c_blocks (snd (cache_ensure example_cache2 0 2 256 0))) = [ExpertKey 0 1, ExpertKey 0 2]"
    "b_key (c_blocks example_cache2 ! 0) = ExpertKey 0 0" "b_key (c_blocks example_cache2 ! 1) = ExpertKey 0 1"
    by (simp_all add: cache_eval)
  moreover have "(512::nat) + 256 < size_mod" by (simp add: size_mod_def)
  ultimately show ?thesis
    using cache_evicts_lowest_scores [OF example_cache2_reachable _ surjective_pairing, of 256 0 2 0]
    by (simp del: set_map add: set_map [symmetric])
qed

text \<open>
  C19: for experts of one size that fits the budget, every request is served, after any history of
  requests: the expert is resident afterwards with its full size, at most one other expert was
  evicted for it, and never more than \<^verbatim>\<open>budget / size\<close> experts are resident.
\<close>

theorem cache_uniform_always_serves:
  assumes "cache_init cache_new cap be = (True, c0)" and "0 < n" and "n \<le> cap" and "cap + n < size_mod"
    and "c = acquire_all (cache_acquire n) ks c0" and "cache_ensure c l e n p = (ok, c')"
  shows "ok \<and> cache_is_resident c' l e \<and> cache_size_of c' l e = n \<and>
    cs_evictions (c_stats c') \<le> cs_evictions (c_stats c) + 1 \<and> cache_resident_count c' \<le> cap div n"
proof -
  have c0: "cache_ok n c0" by (rule cache_init_ok [OF assms(1-4)])
  have c: "cache_ok n c" and sp: "cache_space c = cache_space c0"
    using vram_store.acquire_all_inv [OF c0, of ks] assms(5) by auto
  have ok: "ok" and c': "cache_ok n c'"
    using cache_ensure_ok [OF c, of l e p] assms(6) by auto
  have cap: "a_cap (c_arena c') = cap"
    using cache_ensure_inv [OF _ _ assms(6)] c sp cache_init_inv [OF assms(1)] assms(4)
    by (simp add: cache_ok_def cache_space_def)
  obtain a len where r: "cache_region c' (ExpertKey l e) = Some (a, len)"
    using cache_ensure_regions(1) [OF c assms(6)] by auto
  have inv': "cache_inv c'" using c' by (simp add: cache_ok_def)
  have "cs_evictions (c_stats c') \<le> cs_evictions (c_stats c) + 1"
  proof (cases "find_block c l e")
    case (Some b)
    have "cache_inv c" using c by (simp add: cache_ok_def)
    from cache_ensure_hit [OF this Some, of n p] assms(6) show ?thesis by auto
  next
    case None
    show ?thesis
      by (rule ensure_uniform_miss [OF c None, where p = p])
        (use assms(6) in \<open>auto simp: load_block_def evict_block_def\<close>)
  qed
  moreover have "len = n"
    using r c' by (auto simp: cache_ok_def cache_region_Some cache_uniform_size)
  moreover have "cache_resident_count c' \<le> cap div n"
    using cache_room_iff(2) [OF c'] cap cache_resident_count_eq [OF inv'] by simp
  ultimately show ?thesis using ok r by (simp add: cache_data_region)
qed

theorem cache_uniform_always_serves_witness:
  "cache_is_resident (snd (cache_ensure example_cache2 0 2 256 0)) 0 2 \<and>
   cache_resident_count (snd (cache_ensure example_cache2 0 2 256 0)) \<le> 512 div 256"
proof -
  have "cache_init cache_new 512 example_backend = (True, example_cache)" by (simp add: cache_eval)
  moreover have "example_cache2 = acquire_all (cache_acquire 256) [(ExpertKey 0 0, 0), (ExpertKey 0 1, 0)] example_cache"
    by (simp add: example_cache2_def cache_acquire_def)
  moreover have "(512::nat) + 256 < size_mod" by (simp add: size_mod_def)
  ultimately show ?thesis
    using cache_uniform_always_serves [of 512 example_backend example_cache 256 example_cache2
        "[(ExpertKey 0 0, 0), (ExpertKey 0 1, 0)]" 0 2 0, OF _ _ _ _ _ surjective_pairing] by simp
qed

text \<open>
  C20: for experts of one size the cache refines the abstract scored slot cache: every request is
  a step of the specification with \<^verbatim>\<open>budget / size\<close> slots.
\<close>

theorem cache_refines_scored_slots:
  assumes "cache_init cache_new cap be = (True, c0)" and "0 < n" and "n \<le> cap" and "cap + n < size_mod"
    and "c = acquire_all (cache_acquire n) ks c0"
  shows "spec_ensure (cap div n) (abs_cache c) (ExpertKey l e) p (abs_cache (snd (cache_ensure c l e n p)))"
proof -
  have c0: "cache_ok n c0" by (rule cache_init_ok [OF assms(1-4)])
  have "cache_ok n c" and "cache_space c = cache_space c0"
    using vram_store.acquire_all_inv [OF c0, of ks] assms(5) by auto
  then show ?thesis
    using cache_ensure_refines [of n c l e p] cache_init_inv [OF assms(1)] assms(4)
    by (simp add: cache_space_def)
qed

theorem cache_refines_scored_slots_witness:
  "spec_ensure 2 (abs_cache example_cache2) (ExpertKey 0 2) 0
     (abs_cache (snd (cache_ensure example_cache2 0 2 256 0)))"
proof -
  have "cache_init cache_new 512 example_backend = (True, example_cache)" by (simp add: cache_eval)
  moreover have "example_cache2 = acquire_all (cache_acquire 256) [(ExpertKey 0 0, 0), (ExpertKey 0 1, 0)] example_cache"
    by (simp add: example_cache2_def cache_acquire_def)
  moreover have "(512::nat) + 256 < size_mod" by (simp add: size_mod_def)
  ultimately show ?thesis
    using cache_refines_scored_slots [of 512 example_backend example_cache 256 example_cache2
        "[(ExpertKey 0 0, 0), (ExpertKey 0 1, 0)]" 0 2 0] by simp
qed

text \<open>
  A hit ignores the requested size: an expert that is resident with fewer bytes is reported as
  served for a larger request, so a caller that then copies the requested bytes runs past the block.
\<close>

theorem cache_hit_ignores_size:
  "\<exists>c l e n p. cache_reachable 512 c \<and> n \<le> 512 \<and> fst (cache_ensure c l e n p) \<and>
     cache_size_of (snd (cache_ensure c l e n p)) l e < n"
proof -
  have "fst (cache_ensure example_cache2 0 0 300 0)"
    "cache_size_of (snd (cache_ensure example_cache2 0 0 300 0)) 0 0 < 300"
    by (simp_all add: cache_eval)
  moreover have "(300::nat) \<le> 512" by simp
  ultimately show ?thesis using example_cache2_reachable by blast
qed

text \<open>
  With experts of different sizes a request that is within the budget can be refused even
  though everything else has been evicted for it: the bytes are free but not contiguous.
\<close>

theorem cache_refuses_within_budget:
  "\<exists>c l e n p. cache_reachable 512 c \<and> n \<le> 512 \<and> \<not> fst (cache_ensure c l e n p) \<and>
     cache_resident_count (snd (cache_ensure c l e n p)) = 0"
proof -
  let ?c = "snd (cache_ensure example_cache 0 0 256 0)"
  have "cache_reachable 512 ?c"
    by (rule cache_reachable.step [OF example_cache_reachable cache_step.ensure]) (simp add: cache_eval)
  moreover have "\<not> fst (cache_ensure ?c 0 1 400 0)"
    "cache_resident_count (snd (cache_ensure ?c 0 1 400 0)) = 0"
    by (simp_all add: cache_eval)
  moreover have "(400::nat) \<le> 512" by simp
  ultimately show ?thesis by blast
qed

text \<open>
  The score the code computes in 64-bit signed arithmetic does not overflow as long as the
  tick counter is below \<open>2 ^ 62\<close>, for every \<^verbatim>\<open>int\<close> priority.
\<close>

theorem score_in_int64:
  assumes "cache_reachable cap c" and "b \<in> set (c_blocks c)" and "is_int32 (b_priority b)"
    and "c_tick c < 2 ^ 62"
  shows "- (2 ^ 63) \<le> b_priority b * PRIORITY_WEIGHT \<and> b_priority b * PRIORITY_WEIGHT < 2 ^ 63 \<and>
    - (2 ^ 63) \<le> eviction_score b \<and> eviction_score b < 2 ^ 63"
proof -
  have "0 < b_last_used b \<and> b_last_used b \<le> c_tick c"
    using cache_reachable_inv [OF assms(1)] cache_invD(8) assms(2) by blast
  then show ?thesis
    using assms(3,4) by (simp add: is_int32_def eviction_score_def PRIORITY_WEIGHT_def)
qed

theorem score_in_int64_witness:
  "eviction_score (c_blocks example_cache2 ! 1) < 2 ^ 63"
proof -
  have "c_blocks example_cache2 ! 1 \<in> set (c_blocks example_cache2)"
    "is_int32 (b_priority (c_blocks example_cache2 ! 1))" "c_tick example_cache2 < 2 ^ 62"
    by (simp_all add: cache_eval is_int32_def)
  from score_in_int64 [OF example_cache2_reachable this] show ?thesis by blast
qed

end
