(* ===== verification/Prefetcher.thy ===== *)
theory Prefetcher
  imports VramCache
begin

text \<open>
  The class \<^verbatim>\<open>dee::AsyncPrefetcher\<close> of \<^verbatim>\<open>include/dee/async_prefetcher.h\<close> and
  \<^verbatim>\<open>src/async_prefetcher.cpp\<close>, in the default build (\<^verbatim>\<open>DEE_CUDA=OFF\<close>): transfers are queued and the
  copies run, in submission order, when somebody waits. The fields that only the CUDA build writes
  (events, stream, pinned staging buffer) are in \<open>PrefetcherCuda\<close>. The prefetcher holds the cache by
  reference; the model keeps it as a field. Memory is passed explicitly, because the copies and
  the regions of evicted experts alias.
\<close>

section \<open>State\<close>

record Transfer =
  t_key :: ExpertKey
  t_dst :: nat
  t_src :: nat
  t_nbytes :: nat
  t_done :: bool
  t_abandoned :: bool

record PrefetchStats =
  ps_issued :: nat
  ps_waited :: nat
  ps_fallbacks :: nat

record AsyncPrefetcher =
  p_cache :: VramCache
  p_use_cuda :: bool
  p_ring_size :: nat
  p_inflight :: "Transfer list"
  p_key_to_idx :: "(64 word \<times> int) list"
  p_next_id :: int
  p_stats :: PrefetchStats

definition prefetcher_new :: "VramCache \<Rightarrow> nat \<Rightarrow> AsyncPrefetcher" where
  "prefetcher_new cache ring_size =
     \<lparr>p_cache = cache, p_use_cuda = False, p_ring_size = ring_size, p_inflight = [],
      p_key_to_idx = [], p_next_id = 0,
      p_stats = \<lparr>ps_issued = 0, ps_waited = 0, ps_fallbacks = 0\<rparr>\<rparr>"

section \<open>Operations\<close>

definition prefetcher_destroy :: "AsyncPrefetcher \<Rightarrow> AsyncPrefetcher" where
  "prefetcher_destroy pf = pf\<lparr>p_inflight := [], p_key_to_idx := []\<rparr>"

definition prefetcher_reset :: "AsyncPrefetcher \<Rightarrow> AsyncPrefetcher" where
  "prefetcher_reset pf = pf\<lparr>p_inflight := [], p_key_to_idx := []\<rparr>"

text \<open>Without CUDA support the initialisation of a CUDA stream reports failure.\<close>

definition cuda_init :: "AsyncPrefetcher \<Rightarrow> bool \<times> AsyncPrefetcher" where
  "cuda_init pf = (False, pf)"

definition prefetcher_init :: "AsyncPrefetcher \<Rightarrow> bool \<Rightarrow> bool \<times> AsyncPrefetcher" where
  "prefetcher_init pf use_cuda =
     (let pf1 = pf\<lparr>p_use_cuda := use_cuda\<rparr>
      in if use_cuda then cuda_init pf1 else (True, pf1))"

definition in_flight :: "AsyncPrefetcher \<Rightarrow> nat" where
  "in_flight pf = length (p_inflight pf)"

text \<open>
  \<^verbatim>\<open>((size_t)(uint32_t)layer << 32) ^ (size_t)(uint32_t)expert\<close>; the conversion of the result to
  the map's key type \<^verbatim>\<open>long\<close> keeps the bits.
\<close>

definition pack_key :: "int \<Rightarrow> int \<Rightarrow> 64 word" where
  "pack_key layer expert =
     xor (push_bit 32 (ucast (word_of_int layer :: 32 word))) (ucast (word_of_int expert :: 32 word))"

definition find_inflight :: "AsyncPrefetcher \<Rightarrow> int \<Rightarrow> int \<Rightarrow> int" where
  "find_inflight pf layer expert =
     (case map_of (p_key_to_idx pf) (pack_key layer expert) of None \<Rightarrow> - 1 | Some i \<Rightarrow> i)"

text \<open>In the default build submitting to and waiting on the CUDA stream do nothing.\<close>

definition cuda_submit :: "AsyncPrefetcher \<Rightarrow> int \<Rightarrow> AsyncPrefetcher" where
  "cuda_submit pf idx = pf"

definition cuda_wait :: "AsyncPrefetcher \<Rightarrow> int \<Rightarrow> AsyncPrefetcher" where
  "cuda_wait pf idx = pf"

definition prefetch ::
  "AsyncPrefetcher \<Rightarrow> int \<Rightarrow> int \<Rightarrow> nat \<Rightarrow> nat \<Rightarrow> int \<Rightarrow> int \<times> AsyncPrefetcher" where
  "prefetch pf layer expert src nbytes priority =
     (case cache_ensure (p_cache pf) layer expert nbytes priority of (ok, c) \<Rightarrow>
        let pf1 = pf\<lparr>p_cache := c\<rparr>
        in if \<not> ok then (- 1, pf1)
           else
             let dst = cache_data c layer expert
             in if dst = nullptr then (- 1, pf1)
                else
                  let t = \<lparr>t_key = ExpertKey layer expert, t_dst = dst, t_src = src, t_nbytes = nbytes,
                           t_done = False, t_abandoned = False\<rparr>;
                      inflight = p_inflight pf1 @ [t];
                      idx = length inflight - 1;
                      pf2 = pf1\<lparr>p_next_id := p_next_id pf1 + 1,
                        p_inflight := inflight,
                        p_key_to_idx := AList.update (pack_key layer expert) (to_int32 (int idx)) (p_key_to_idx pf1),
                        p_stats := (p_stats pf1)\<lparr>ps_issued := Suc (ps_issued (p_stats pf1))\<rparr>\<rparr>
                  in (p_next_id pf1, if p_use_cuda pf2 then cuda_submit pf2 (int idx) else pf2))"

text \<open>The body of the loop of \<^verbatim>\<open>drain_until\<close>, and the loop.\<close>

definition copy_one :: "memory \<times> Transfer list \<Rightarrow> nat \<Rightarrow> memory \<times> Transfer list" where
  "copy_one mt i =
     (let t = snd mt ! i
      in if \<not> t_done t \<and> \<not> t_abandoned t \<and> t_src t \<noteq> nullptr \<and> t_dst t \<noteq> nullptr
         then (memcpy (fst mt) (t_dst t) (t_src t) (t_nbytes t), (snd mt)[i := t\<lparr>t_done := True\<rparr>])
         else mt)"

definition drain_until :: "memory \<Rightarrow> AsyncPrefetcher \<Rightarrow> int \<Rightarrow> memory \<times> AsyncPrefetcher" where
  "drain_until m pf idx =
     (let stop = nat (min (idx + 1) (to_int32 (int (length (p_inflight pf)))))
      in case foldl copy_one (m, p_inflight pf) [0 ..< stop] of (m', ts) \<Rightarrow>
           (m', pf\<lparr>p_inflight := ts\<rparr>))"

definition wait :: "memory \<Rightarrow> AsyncPrefetcher \<Rightarrow> int \<Rightarrow> int \<Rightarrow> bool \<times> memory \<times> AsyncPrefetcher" where
  "wait m pf layer expert =
     (let pf1 = pf\<lparr>p_stats := (p_stats pf)\<lparr>ps_waited := Suc (ps_waited (p_stats pf))\<rparr>\<rparr>;
          idx = find_inflight pf1 layer expert
      in if idx < 0
         then (False, m, pf1\<lparr>p_stats := (p_stats pf1)\<lparr>ps_fallbacks := Suc (ps_fallbacks (p_stats pf1))\<rparr>\<rparr>)
         else if p_use_cuda pf1 then (True, m, cuda_wait pf1 idx)
         else case drain_until m pf1 (to_int32 idx) of (m', pf2) \<Rightarrow>
                (t_done (p_inflight pf2 ! nat idx), m', pf2))"

definition synchronize_all :: "memory \<Rightarrow> AsyncPrefetcher \<Rightarrow> memory \<times> AsyncPrefetcher" where
  "synchronize_all m pf =
     (if p_use_cuda pf then (m, pf)
      else drain_until m pf (to_int32 (int (length (p_inflight pf))) - 1))"

section \<open>The key of a transfer\<close>

lemma word32_inj:
  assumes "(word_of_int a :: 32 word) = word_of_int b" and "is_int32 a" and "is_int32 b"
  shows "a = b"
proof -
  have "take_bit 32 a = take_bit 32 b"
    using arg_cong [OF assms(1), of uint] by (simp add: uint_word_of_int take_bit_eq_mod)
  then have "signed_take_bit 31 a = signed_take_bit 31 b"
    by (simp add: signed_take_bit_eq_iff_take_bit_eq)
  then show ?thesis
    using assms(2,3) by (simp add: is_int32_def signed_take_bit_int_eq_self)
qed

lemma pack_key_inj:
  assumes eq: "pack_key l e = pack_key l' e'" and "is_int32 l" "is_int32 e" "is_int32 l'" "is_int32 e'"
  shows "l = l' \<and> e = e'"
proof -
  have b: "bit (pack_key x y) i \<longleftrightarrow>
      i < 64 \<and> (if i < 32 then bit (word_of_int y :: 32 word) i else bit (word_of_int x :: 32 word) (i - 32))"
    for x y i
    by (auto simp: pack_key_def bit_xor_iff bit_push_bit_iff bit_ucast_iff dest: bit_imp_le_length)
  have "bit (word_of_int e :: 32 word) i = bit (word_of_int e' :: 32 word) i"
    "bit (word_of_int l :: 32 word) i = bit (word_of_int l' :: 32 word) i" if "i < 32" for i
    using b [of l e i] b [of l' e' i] b [of l e "i + 32"] b [of l' e' "i + 32"] eq that by auto
  then have "(word_of_int e :: 32 word) = word_of_int e'" "(word_of_int l :: 32 word) = word_of_int l'"
    by (auto intro!: bit_word_eqI)
  then show ?thesis using word32_inj assms by blast
qed

section \<open>The queue of transfers\<close>

text \<open>
  \<open>src\<close> gives the host address of each expert's weights, \<open>n\<close> their size, \<open>sp\<close> the device region.
  A transfer is current when no later one writes into its destination.
\<close>

definition transfer_ok :: "(ExpertKey \<Rightarrow> nat) \<Rightarrow> nat \<Rightarrow> region \<Rightarrow> Transfer \<Rightarrow> bool" where
  "transfer_ok src n sp t \<longleftrightarrow> t_src t = src (t_key t) \<and> t_nbytes t = n \<and> \<not> t_abandoned t \<and>
     t_src t \<noteq> nullptr \<and> t_dst t \<noteq> nullptr \<and> span (t_dst t) n \<subseteq> span (fst sp) (snd sp)"

definition current :: "nat \<Rightarrow> Transfer list \<Rightarrow> nat \<Rightarrow> bool" where
  "current n ts i \<longleftrightarrow>
     (\<forall>j. i < j \<and> j < length ts \<longrightarrow> span (t_dst (ts ! i)) n \<inter> span (t_dst (ts ! j)) n = {})"

definition stream_inv ::
  "(ExpertKey \<Rightarrow> nat) \<Rightarrow> nat \<Rightarrow> region \<Rightarrow> memory \<times> Transfer list \<Rightarrow> bool" where
  "stream_inv src n sp mt \<longleftrightarrow>
     (\<forall>t \<in> set (snd mt). transfer_ok src n sp t) \<and>
     (\<forall>i j. i < j \<and> j < length (snd mt) \<and> t_done (snd mt ! j) \<longrightarrow> t_done (snd mt ! i)) \<and>
     (\<forall>i < length (snd mt). t_done (snd mt ! i) \<and> current n (snd mt) i \<longrightarrow>
        same_bytes (fst mt) (t_dst (snd mt ! i)) (t_src (snd mt ! i)) n)"

definition away :: "(ExpertKey \<Rightarrow> nat) \<Rightarrow> nat \<Rightarrow> region \<Rightarrow> bool" where
  "away src n sp \<longleftrightarrow> (\<forall>k. span (src k) n \<inter> span (fst sp) (snd sp) = {})"

lemma stream_invD:
  assumes "stream_inv src n sp (m, ts)"
  shows "i < length ts \<Longrightarrow> transfer_ok src n sp (ts ! i)"
    and "i < j \<Longrightarrow> j < length ts \<Longrightarrow> t_done (ts ! j) \<Longrightarrow> t_done (ts ! i)"
    and "i < length ts \<Longrightarrow> t_done (ts ! i) \<Longrightarrow> current n ts i \<Longrightarrow> same_bytes m (t_dst (ts ! i)) (t_src (ts ! i)) n"
  using assms unfolding stream_inv_def by (auto simp del: mem_span)

lemma current_cong:
  assumes "map t_dst ts' = map t_dst ts"
  shows "current n ts' i = current n ts i"
proof -
  have len: "length ts' = length ts" using assms by (metis length_map)
  have eq: "t_dst (ts' ! j) = t_dst (ts ! j)" if "j < length ts" for j
    using assms that len by (metis nth_map)
  have "span (t_dst (ts' ! i)) n \<inter> span (t_dst (ts' ! j)) n = span (t_dst (ts ! i)) n \<inter> span (t_dst (ts ! j)) n"
    if "i < j" "j < length ts" for j
    using eq [of i] eq [of j] that by simp
  then show ?thesis
    unfolding current_def len by blast
qed

lemma copy_one_done: "t_done (snd mt ! i) \<Longrightarrow> copy_one mt i = mt"
  by (simp add: copy_one_def)

lemma copy_one_step:
  assumes inv: "stream_inv src n sp (m, ts)" and aw: "away src n sp" and i: "i < length ts"
    and new: "\<not> t_done (ts ! i)" and before: "\<forall>j < i. t_done (ts ! j)"
  defines "ts' \<equiv> ts[i := (ts ! i)\<lparr>t_done := True\<rparr>]"
  defines "m' \<equiv> memcpy m (t_dst (ts ! i)) (t_src (ts ! i)) n"
  shows "copy_one (m, ts) i = (m', ts')" and "stream_inv src n sp (m', ts')"
proof -
  have ok: "transfer_ok src n sp (ts ! i)" by (rule stream_invD(1) [OF inv i])
  then show "copy_one (m, ts) i = (m', ts')"
    using new by (simp add: copy_one_def transfer_ok_def m'_def ts'_def Let_def)
  have dst: "map t_dst ts' = map t_dst ts" "map t_src ts' = map t_src ts"
    using i by (simp_all add: ts'_def map_update_same)
  have later: "\<not> t_done (ts ! j)" if "i \<le> j" "j < length ts" for j
    using stream_invD(2) [OF inv, of i j] new that by (cases "i = j") auto
  have src_off: "span (src k) n \<inter> span (t_dst (ts ! i)) n = {}" for k
    using aw ok unfolding away_def transfer_ok_def by blast
  have ok': "\<forall>t \<in> set ts'. transfer_ok src n sp t"
  proof
    fix t assume "t \<in> set ts'"
    then have "t = (ts ! i)\<lparr>t_done := True\<rparr> \<or> t \<in> set ts"
      using set_update_subset_insert [of ts i] by (auto simp: ts'_def)
    then show "transfer_ok src n sp t"
      using ok inv by (auto simp: transfer_ok_def stream_inv_def simp del: mem_span)
  qed
  have pre: "t_done (ts' ! a)" if "a < b" "b < length ts'" "t_done (ts' ! b)" for a b
  proof -
    have "b \<le> i"
    proof (rule ccontr)
      assume "\<not> b \<le> i"
      then show False using that later [of b] by (simp add: ts'_def)
    qed
    then show ?thesis using that before i by (simp add: ts'_def)
  qed
  have bytes: "same_bytes m' (t_dst (ts' ! a)) (t_src (ts' ! a)) n"
    if a: "a < length ts'" "t_done (ts' ! a)" "current n ts' a" for a
  proof (cases "a = i")
    case True
    then show ?thesis
      using memcpy_same_bytes [OF src_off, of m "t_key (ts ! i)"] ok i
      by (simp add: m'_def ts'_def transfer_ok_def)
  next
    case False
    then have a': "a < length ts" "t_done (ts ! a)" "ts' ! a = ts ! a" using a by (auto simp: ts'_def)
    then have "a < i" using later [of a] False by (metis linorder_le_less_linear)
    have cur: "current n ts a" using a(3) current_cong [OF dst(1)] by simp
    have "span (t_dst (ts ! a)) n \<inter> span (t_dst (ts ! i)) n = {}"
      using cur \<open>a < i\<close> i unfolding current_def by blast
    moreover have "t_src (ts ! a) = src (t_key (ts ! a))"
      using stream_invD(1) [OF inv a'(1)] by (simp add: transfer_ok_def)
    ultimately show ?thesis
      using memcpy_frame [OF stream_invD(3) [OF inv a'(1,2) cur]] src_off a'(3) by (simp add: m'_def)
  qed
  show "stream_inv src n sp (m', ts')"
    unfolding stream_inv_def fst_conv snd_conv using ok' pre bytes by blast
qed

text \<open>What the loop of \<^verbatim>\<open>drain_until\<close> does: the first \<open>k\<close> transfers are done, the rest is untouched.\<close>

definition shape :: "Transfer list \<Rightarrow> (ExpertKey \<times> nat) list" where
  "shape ts = map (\<lambda>t. (t_key t, t_dst t)) ts"

lemma shape_update: "i < length ts \<Longrightarrow> shape (ts[i := (ts ! i)\<lparr>t_done := True\<rparr>]) = shape ts"
  by (simp add: shape_def map_update_same)

lemma shape_dst: "shape ts' = shape ts \<Longrightarrow> map t_dst ts' = map t_dst ts"
  by (drule arg_cong [where f = "map snd"]) (simp add: shape_def o_def)

lemma shape_length: "shape ts' = shape ts \<Longrightarrow> length ts' = length ts"
  by (metis shape_def length_map)

lemma shape_nth:
  "shape ts' = shape ts \<Longrightarrow> i < length ts \<Longrightarrow> t_key (ts' ! i) = t_key (ts ! i) \<and> t_dst (ts' ! i) = t_dst (ts ! i)"
  using shape_length [of ts' ts] nth_map [of i ts "\<lambda>t. (t_key t, t_dst t)"]
    nth_map [of i ts' "\<lambda>t. (t_key t, t_dst t)"] by (simp add: shape_def)

lemma drain_loop:
  assumes inv: "stream_inv src n sp (m, ts)" and aw: "away src n sp" and k: "k \<le> length ts"
  shows "\<exists>m' ts'. foldl copy_one (m, ts) [0 ..< k] = (m', ts') \<and> stream_inv src n sp (m', ts') \<and>
    shape ts' = shape ts \<and> (\<forall>j < k. t_done (ts' ! j)) \<and> (\<forall>j \<ge> k. ts' ! j = ts ! j) \<and>
    (\<forall>x \<in> - span (fst sp) (snd sp). m' x = m x)"
  using k
proof (induction k)
  case 0
  then show ?case using inv by simp
next
  case (Suc k)
  obtain m1 ts1 where IH: "foldl copy_one (m, ts) [0 ..< k] = (m1, ts1)"
    "stream_inv src n sp (m1, ts1)" "shape ts1 = shape ts" "\<forall>j < k. t_done (ts1 ! j)"
    "\<forall>j \<ge> k. ts1 ! j = ts ! j" "\<forall>x \<in> - span (fst sp) (snd sp). m1 x = m x"
    using Suc by auto
  have k: "k < length ts1" using Suc.prems shape_length [OF IH(3)] by simp
  have fold: "foldl copy_one (m, ts) [0 ..< Suc k] = copy_one (m1, ts1) k" using IH(1) by simp
  show ?case
  proof (cases "t_done (ts1 ! k)")
    case True
    then have "copy_one (m1, ts1) k = (m1, ts1)" by (simp add: copy_one_done)
    moreover have "\<forall>j < Suc k. t_done (ts1 ! j)" using IH(4) True by (simp add: less_Suc_eq)
    moreover have "\<forall>j \<ge> Suc k. ts1 ! j = ts ! j" using IH(5) by simp
    ultimately show ?thesis using fold IH(2,3,6) by (intro exI conjI) (simp, assumption+)
  next
    case False
    note st = copy_one_step [OF IH(2) aw k False IH(4)]
    let ?m = "memcpy m1 (t_dst (ts1 ! k)) (t_src (ts1 ! k)) n"
    let ?ts = "ts1[k := (ts1 ! k)\<lparr>t_done := True\<rparr>]"
    have ins: "span (t_dst (ts1 ! k)) n \<subseteq> span (fst sp) (snd sp)"
      using stream_invD(1) [OF IH(2) k] unfolding transfer_ok_def by blast
    have "\<forall>x \<in> - span (fst sp) (snd sp). ?m x = m x"
    proof
      fix x assume x: "x \<in> - span (fst sp) (snd sp)"
      then have "x \<notin> span (t_dst (ts1 ! k)) n" using ins by blast
      then show "?m x = m x" using bspec [OF IH(6) x] memcpy_outside by metis
    qed
    moreover have "\<forall>j < Suc k. t_done (?ts ! j)" using IH(4) k by (auto simp: less_Suc_eq nth_list_update)
    moreover have "\<forall>j \<ge> Suc k. ?ts ! j = ts ! j" using IH(5) by auto
    moreover have "shape ?ts = shape ts" using shape_update [OF k] IH(3) by simp
    ultimately show ?thesis using fold st by (intro exI conjI) (simp, assumption+)
  qed
qed

section \<open>The invariant of the prefetcher\<close>

text \<open>
  The index of a key points to its latest transfer; as long as the expert is resident, that
  transfer goes to its block and no later transfer touches the block.
\<close>

definition index_ok :: "nat \<Rightarrow> AsyncPrefetcher \<Rightarrow> bool" where
  "index_ok n pf \<longleftrightarrow>
     (\<forall>l e i. is_int32 l \<and> is_int32 e \<and> map_of (p_key_to_idx pf) (pack_key l e) = Some i \<longrightarrow>
        0 \<le> i \<and> i < int (length (p_inflight pf)) \<and> t_key (p_inflight pf ! nat i) = ExpertKey l e \<and>
        (\<forall>a len. cache_region (p_cache pf) (ExpertKey l e) = Some (a, len) \<longrightarrow>
           t_dst (p_inflight pf ! nat i) = a \<and> current n (p_inflight pf) (nat i)))"

definition prefetcher_inv :: "(ExpertKey \<Rightarrow> nat) \<Rightarrow> nat \<Rightarrow> region \<Rightarrow> memory \<times> AsyncPrefetcher \<Rightarrow> bool" where
  "prefetcher_inv src n sp mp \<longleftrightarrow>
     cache_ok n (p_cache (snd mp)) \<and> cache_space (p_cache (snd mp)) = sp \<and> \<not> p_use_cuda (snd mp) \<and>
     length (p_inflight (snd mp)) < 2 ^ 31 \<and> away src n sp \<and> (\<forall>k. src k \<noteq> nullptr) \<and>
     stream_inv src n sp (fst mp, p_inflight (snd mp)) \<and> index_ok n (snd mp)"

lemma prefetcher_invD:
  assumes "prefetcher_inv src n sp (m, pf)"
  shows "cache_ok n (p_cache pf)" "cache_space (p_cache pf) = sp" "\<not> p_use_cuda pf"
    "length (p_inflight pf) < 2 ^ 31" "away src n sp" "src k \<noteq> nullptr"
    "stream_inv src n sp (m, p_inflight pf)" "index_ok n pf"
  using assms by (simp_all add: prefetcher_inv_def)

lemma index_okD:
  assumes "index_ok n pf" and "is_int32 l" and "is_int32 e"
    and "map_of (p_key_to_idx pf) (pack_key l e) = Some i"
  shows "0 \<le> i" "i < int (length (p_inflight pf))" "t_key (p_inflight pf ! nat i) = ExpertKey l e"
    "cache_region (p_cache pf) (ExpertKey l e) = Some (a, len) \<Longrightarrow>
       t_dst (p_inflight pf ! nat i) = a \<and> current n (p_inflight pf) (nat i)"
  using assms unfolding index_ok_def by blast+

lemma int32_length: "k < 2 ^ 31 \<Longrightarrow> to_int32 (int k) = int k"
  by (simp add: to_int32_def)

lemma index_ok_shape:
  assumes "index_ok n pf" and "shape ts = shape (p_inflight pf)"
  shows "index_ok n (pf\<lparr>p_inflight := ts\<rparr>)"
proof -
  have *: "t_key (ts ! nat i) = t_key (p_inflight pf ! nat i) \<and> t_dst (ts ! nat i) = t_dst (p_inflight pf ! nat i)"
    if "0 \<le> i" "i < int (length (p_inflight pf))" for i
    using shape_nth [OF assms(2)] that by (simp add: nat_less_iff)
  show ?thesis
    unfolding index_ok_def
  proof (intro allI impI, elim conjE)
    fix l e i
    assume "is_int32 l" "is_int32 e" and i: "map_of (p_key_to_idx (pf\<lparr>p_inflight := ts\<rparr>)) (pack_key l e) = Some i"
    then show "0 \<le> i \<and> i < int (length (p_inflight (pf\<lparr>p_inflight := ts\<rparr>))) \<and>
      t_key (p_inflight (pf\<lparr>p_inflight := ts\<rparr>) ! nat i) = ExpertKey l e \<and>
      (\<forall>a len. cache_region (p_cache (pf\<lparr>p_inflight := ts\<rparr>)) (ExpertKey l e) = Some (a, len) \<longrightarrow>
         t_dst (p_inflight (pf\<lparr>p_inflight := ts\<rparr>) ! nat i) = a \<and> current n (p_inflight (pf\<lparr>p_inflight := ts\<rparr>)) (nat i))"
      using index_okD [OF assms(1), of l e i] * [of i] shape_length [OF assms(2)] current_cong [OF shape_dst [OF assms(2)]]
      by simp
  qed
qed

lemma drain_until_inv:
  assumes inv: "prefetcher_inv src n sp (m, pf)" and i: "i < int (length (p_inflight pf))"
    and dr: "drain_until m pf i = (m', pf')"
  shows "prefetcher_inv src n sp (m', pf')" and "p_cache pf' = p_cache pf"
    and "p_key_to_idx pf' = p_key_to_idx pf" and "shape (p_inflight pf') = shape (p_inflight pf)"
    and "\<forall>j. int j \<le> i \<longrightarrow> t_done (p_inflight pf' ! j)"
    and "\<forall>j. i < int j \<longrightarrow> p_inflight pf' ! j = p_inflight pf ! j"
    and "\<forall>x \<in> - span (fst sp) (snd sp). m' x = m x"
proof -
  let ?k = "nat (i + 1)"
  have stop: "nat (min (i + 1) (to_int32 (int (length (p_inflight pf))))) = ?k"
    using i prefetcher_invD(4) [OF inv] by (simp add: int32_length)
  obtain ts where ts: "foldl copy_one (m, p_inflight pf) [0 ..< ?k] = (m', ts)" "pf' = pf\<lparr>p_inflight := ts\<rparr>"
    using dr unfolding drain_until_def stop Let_def by (auto split: prod.splits)
  have k: "?k \<le> length (p_inflight pf)" using i by linarith
  have st: "stream_inv src n sp (m', ts)" and sh: "shape ts = shape (p_inflight pf)"
    and dn: "\<forall>j < ?k. t_done (ts ! j)" and rest: "\<forall>j \<ge> ?k. ts ! j = p_inflight pf ! j"
    and out: "\<forall>x \<in> - span (fst sp) (snd sp). m' x = m x"
    using drain_loop [OF prefetcher_invD(7,5) [OF inv] k] unfolding ts(1) by blast+
  show "prefetcher_inv src n sp (m', pf')"
    using inv st index_ok_shape [OF prefetcher_invD(8) [OF inv] sh] shape_length [OF sh]
    by (simp add: prefetcher_inv_def ts(2))
  show "p_cache pf' = p_cache pf" "p_key_to_idx pf' = p_key_to_idx pf" "shape (p_inflight pf') = shape (p_inflight pf)"
    using sh by (simp_all add: ts(2))
  show "\<forall>j. int j \<le> i \<longrightarrow> t_done (p_inflight pf' ! j)"
    using dn by (auto simp: ts(2))
  show "\<forall>j. i < int j \<longrightarrow> p_inflight pf' ! j = p_inflight pf ! j"
    using rest by (auto simp: ts(2))
  show "\<forall>x \<in> - span (fst sp) (snd sp). m' x = m x" by (rule out)
qed

lemma prefetcher_inv_stats: "prefetcher_inv src n sp (m, pf\<lparr>p_stats := st\<rparr>) = prefetcher_inv src n sp (m, pf)"
  by (simp add: prefetcher_inv_def index_ok_def)

text \<open>
  A wait succeeds exactly for an expert whose transfer was issued, and then the bytes of the
  expert are in place if it is resident.
\<close>

lemma wait_inv:
  assumes inv: "prefetcher_inv src n sp (m, pf)" and le: "is_int32 l" "is_int32 e"
    and w: "wait m pf l e = (ok, m', pf')"
  shows "prefetcher_inv src n sp (m', pf')" and "p_cache pf' = p_cache pf"
    and "p_key_to_idx pf' = p_key_to_idx pf"
    and "ok \<longleftrightarrow> map_of (p_key_to_idx pf) (pack_key l e) \<noteq> None"
    and "ok \<Longrightarrow> cache_region (p_cache pf) (ExpertKey l e) = Some (a, len) \<Longrightarrow>
      same_bytes m' a (src (ExpertKey l e)) n"
    and "\<forall>x \<in> - span (fst sp) (snd sp). m' x = m x"
proof -
  let ?pf = "pf\<lparr>p_stats := (p_stats pf)\<lparr>ps_waited := Suc (ps_waited (p_stats pf))\<rparr>\<rparr>"
  have inv1: "prefetcher_inv src n sp (m, ?pf)" using inv prefetcher_inv_stats by blast
  have "prefetcher_inv src n sp (m', pf') \<and> p_cache pf' = p_cache pf \<and> p_key_to_idx pf' = p_key_to_idx pf \<and>
    ok = (map_of (p_key_to_idx pf) (pack_key l e) \<noteq> None) \<and>
    (ok \<longrightarrow> cache_region (p_cache pf) (ExpertKey l e) = Some (a, len) \<longrightarrow> same_bytes m' a (src (ExpertKey l e)) n) \<and>
    (\<forall>x \<in> - span (fst sp) (snd sp). m' x = m x)"
  proof (cases "map_of (p_key_to_idx pf) (pack_key l e)")
    case None
    then obtain st where "m' = m" "\<not> ok" "pf' = pf\<lparr>p_stats := st\<rparr>"
      using w by (auto simp: wait_def find_inflight_def Let_def)
    then show ?thesis using None inv prefetcher_inv_stats by simp
  next
    case (Some i)
    note ix = index_okD [OF prefetcher_invD(8) [OF inv] le Some]
    have i32: "to_int32 i = i"
      using ix(1,2) prefetcher_invD(4) [OF inv] int32_length [of "nat i"] by simp
    have dr: "drain_until m ?pf i = (m', pf')" and ok: "ok = t_done (p_inflight pf' ! nat i)"
      using w ix(1) prefetcher_invD(3) [OF inv] i32 Some
      by (auto simp: wait_def find_inflight_def Let_def split: prod.splits)
    have "i < int (length (p_inflight ?pf))" using ix(2) by simp
    note d = drain_until_inv [OF inv1 this dr]
    have k: "nat i < length (p_inflight pf')" using shape_length [OF d(4)] ix(1,2) by simp
    have dn: "t_done (p_inflight pf' ! nat i)" using d(5) ix(1) by simp
    have sk: "t_src (p_inflight pf' ! nat i) = src (ExpertKey l e)" "t_key (p_inflight pf' ! nat i) = ExpertKey l e"
      using stream_invD(1) [OF prefetcher_invD(7) [OF d(1)] k] shape_nth [OF d(4), of "nat i"] ix(1-3)
      by (simp_all add: transfer_ok_def nat_less_iff)
    have "same_bytes m' a (src (ExpertKey l e)) n" if "cache_region (p_cache pf) (ExpertKey l e) = Some (a, len)"
      using index_okD(4) [OF prefetcher_invD(8) [OF d(1)] le, of i a len] that d(2,3) Some sk
        stream_invD(3) [OF prefetcher_invD(7) [OF d(1)] k dn] by simp
    then show ?thesis using d(1-3,7) ok dn Some by simp
  qed
  then show "prefetcher_inv src n sp (m', pf')" and "p_cache pf' = p_cache pf"
    and "p_key_to_idx pf' = p_key_to_idx pf"
    and "ok \<longleftrightarrow> map_of (p_key_to_idx pf) (pack_key l e) \<noteq> None"
    and "ok \<Longrightarrow> cache_region (p_cache pf) (ExpertKey l e) = Some (a, len) \<Longrightarrow>
      same_bytes m' a (src (ExpertKey l e)) n"
    and "\<forall>x \<in> - span (fst sp) (snd sp). m' x = m x"
    by blast+
qed

lemma current_append_old:
  "i < length ts \<Longrightarrow> current n (ts @ [t]) i \<longleftrightarrow> current n ts i \<and> span (t_dst (ts ! i)) n \<inter> span (t_dst t) n = {}"
  by (auto simp: current_def nth_append less_Suc_eq simp del: mem_span)

lemma current_append_new: "current n (ts @ [t]) (length ts)"
  by (auto simp: current_def)

lemma stream_inv_snoc:
  assumes inv: "stream_inv src n sp (m, ts)" and t: "transfer_ok src n sp t" "\<not> t_done t"
  shows "stream_inv src n sp (m, ts @ [t])"
proof -
  have "t_done ((ts @ [t]) ! i)" if "i < j" "j < length (ts @ [t])" "t_done ((ts @ [t]) ! j)" for i j
    using that t(2) stream_invD(2) [OF inv that(1)] by (auto simp: nth_append less_Suc_eq split: if_splits)
  moreover have "same_bytes m (t_dst ((ts @ [t]) ! i)) (t_src ((ts @ [t]) ! i)) n"
    if "i < length (ts @ [t])" "t_done ((ts @ [t]) ! i)" "current n (ts @ [t]) i" for i
  proof -
    have "i < length ts" using that(1,2) t(2) by (cases "i = length ts") auto
    then show ?thesis
      using that(2,3) stream_invD(3) [OF inv] current_append_old by (auto simp: nth_append simp del: mem_span)
  qed
  ultimately show ?thesis
    using inv t(1) unfolding stream_inv_def fst_conv snd_conv by auto
qed

lemma prefetch_eq:
  assumes "cache_ok n (p_cache pf)"
  obtains c a len where "cache_ensure (p_cache pf) l e n p = (True, c)"
    "cache_region c (ExpertKey l e) = Some (a, len)" "cache_ok n c" "cache_space c = cache_space (p_cache pf)"
    "a \<noteq> nullptr" "span a n \<subseteq> span (fst (cache_space c)) (snd (cache_space c))"
    "prefetch pf l e s n p = (p_next_id pf, pf\<lparr>p_cache := c, p_next_id := p_next_id pf + 1,
       p_inflight := p_inflight pf @ [\<lparr>t_key = ExpertKey l e, t_dst = a, t_src = s, t_nbytes = n,
          t_done = False, t_abandoned = False\<rparr>],
       p_key_to_idx := AList.update (pack_key l e) (to_int32 (int (length (p_inflight pf)))) (p_key_to_idx pf),
       p_stats := (p_stats pf)\<lparr>ps_issued := Suc (ps_issued (p_stats pf))\<rparr>\<rparr>)"
proof -
  obtain c where c: "cache_ensure (p_cache pf) l e n p = (True, c)" and ok: "cache_ok n c"
    using cache_ensure_ok [OF assms, of l e p] by (metis prod.collapse)
  have ac: "cache_acquire n (p_cache pf) (ExpertKey l e) p = (True, c)" using c by (simp add: cache_acquire_def)
  obtain a len where r: "cache_region c (ExpertKey l e) = Some (a, len)"
    using vram_store.acquire_present [OF assms ac] by fastforce
  have "a \<noteq> nullptr" "span a n \<subseteq> span (fst (cache_space c)) (snd (cache_space c))"
  proof -
    show "a \<noteq> nullptr" using vram_store.region_inside [OF ok r] by blast
    have "span a n \<subseteq> span a len" using vram_store.region_size [OF ok r] by auto
    then show "span a n \<subseteq> span (fst (cache_space c)) (snd (cache_space c))"
      using vram_store.region_inside [OF ok r] by blast
  qed
  then show ?thesis
    using that c r ok vram_store.acquire_space [OF assms ac]
    by (simp add: prefetch_def cuda_submit_def cache_data_region Let_def)
qed

lemma prefetch_index:
  assumes ix: "index_ok n pf" and cok: "cache_ok n (p_cache pf)" and le: "is_int32 l" "is_int32 e"
    and c: "cache_ensure (p_cache pf) l e n p = (True, c)" "cache_ok n c"
    and r: "cache_region c (ExpertKey l e) = Some (a, len)" and t: "t_key t = ExpertKey l e" "t_dst t = a"
    and pf': "p_cache pf' = c" "p_inflight pf' = p_inflight pf @ [t]"
      "p_key_to_idx pf' = AList.update (pack_key l e) (int (length (p_inflight pf))) (p_key_to_idx pf)"
  shows "index_ok n pf'"
  unfolding index_ok_def
proof (intro allI impI, elim conjE)
  fix l' e' i
  assume le': "is_int32 l'" "is_int32 e'" and i: "map_of (p_key_to_idx pf') (pack_key l' e') = Some i"
  show "0 \<le> i \<and> i < int (length (p_inflight pf')) \<and> t_key (p_inflight pf' ! nat i) = ExpertKey l' e' \<and>
    (\<forall>a len. cache_region (p_cache pf') (ExpertKey l' e') = Some (a, len) \<longrightarrow>
       t_dst (p_inflight pf' ! nat i) = a \<and> current n (p_inflight pf') (nat i))"
  proof (cases "(l', e') = (l, e)")
    case True
    then have "i = int (length (p_inflight pf))" using i pf' by (simp add: update_conv')
    then show ?thesis using True r t pf' by (simp add: current_append_new)
  next
    case False
    then have ne: "pack_key l' e' \<noteq> pack_key l e" using pack_key_inj le le' by blast
    then have i': "map_of (p_key_to_idx pf) (pack_key l' e') = Some i" using i pf' by (simp add: update_conv')
    note ix = index_okD [OF ix le' i']
    have ac: "cache_acquire n (p_cache pf) (ExpertKey l e) p = (True, c)" using c by (simp add: cache_acquire_def)
    have "t_dst (p_inflight pf ! nat i) = b \<and> current n (p_inflight pf') (nat i)"
      if rb: "cache_region c (ExpertKey l' e') = Some (b, k)" for b k
    proof -
      have "cache_region (p_cache pf) (ExpertKey l' e') = Some (b, k)"
        using vram_store.acquire_frame [OF cok ac, of "ExpertKey l' e'"] False rb by auto
      then have old: "t_dst (p_inflight pf ! nat i) = b" "current n (p_inflight pf) (nat i)" using ix(4) by blast+
      have "span b k \<inter> span a len = {}"
        using vram_store.region_disjoint [OF c(2) rb r] False by simp
      moreover have "span b n \<subseteq> span b k" "span a n \<subseteq> span a len"
        using vram_store.region_size [OF c(2) rb] vram_store.region_size [OF c(2) r] by auto
      ultimately have "span b n \<inter> span a n = {}" by blast
      then show ?thesis using old ix(1,2) t by (simp add: pf' current_append_old nat_less_iff del: mem_span)
    qed
    then show ?thesis using ix(1-3) pf' by (simp add: nth_append nat_less_iff)
  qed
qed

lemma prefetch_inv:
  assumes inv: "prefetcher_inv src n sp (m, pf)" and le: "is_int32 l" "is_int32 e"
    and len: "Suc (length (p_inflight pf)) < 2 ^ 31"
    and pr: "prefetch pf l e (src (ExpertKey l e)) n p = (r, pf')"
  shows "prefetcher_inv src n sp (m, pf')" and "r = p_next_id pf"
    and "p_cache pf' = snd (cache_ensure (p_cache pf) l e n p)" and "cache_is_resident (p_cache pf') l e"
    and "p_key_to_idx pf' = AList.update (pack_key l e) (int (length (p_inflight pf))) (p_key_to_idx pf)"
proof -
  obtain c a k where c: "cache_ensure (p_cache pf) l e n p = (True, c)"
    "cache_region c (ExpertKey l e) = Some (a, k)" "cache_ok n c" "cache_space c = cache_space (p_cache pf)"
    "a \<noteq> nullptr" "span a n \<subseteq> span (fst (cache_space c)) (snd (cache_space c))"
    "prefetch pf l e (src (ExpertKey l e)) n p = (p_next_id pf, pf\<lparr>p_cache := c, p_next_id := p_next_id pf + 1,
       p_inflight := p_inflight pf @ [\<lparr>t_key = ExpertKey l e, t_dst = a, t_src = src (ExpertKey l e), t_nbytes = n,
          t_done = False, t_abandoned = False\<rparr>],
       p_key_to_idx := AList.update (pack_key l e) (to_int32 (int (length (p_inflight pf)))) (p_key_to_idx pf),
       p_stats := (p_stats pf)\<lparr>ps_issued := Suc (ps_issued (p_stats pf))\<rparr>\<rparr>)"
    by (rule prefetch_eq [OF prefetcher_invD(1) [OF inv], where l = l and e = e and p = p and s = "src (ExpertKey l e)"])
  define t where "t = \<lparr>t_key = ExpertKey l e, t_dst = a, t_src = src (ExpertKey l e), t_nbytes = n,
          t_done = False, t_abandoned = False\<rparr>"
  have pf': "p_cache pf' = c" "p_inflight pf' = p_inflight pf @ [t]"
    "p_key_to_idx pf' = AList.update (pack_key l e) (int (length (p_inflight pf))) (p_key_to_idx pf)"
    "p_use_cuda pf' = p_use_cuda pf"
    using pr c(7) len int32_length [of "length (p_inflight pf)"] by (auto simp: t_def)
  have "index_ok n pf'"
    by (rule prefetch_index [OF prefetcher_invD(8,1) [OF inv] le c(1,3,2) _ _ pf'(1-3)]) (simp_all add: t_def)
  moreover have "transfer_ok src n sp t" "\<not> t_done t"
    using c(5,6) c(4) prefetcher_invD(2,6) [OF inv] by (auto simp: t_def transfer_ok_def simp del: mem_span)
  ultimately show "prefetcher_inv src n sp (m, pf')"
    using stream_inv_snoc [OF prefetcher_invD(7) [OF inv], of t] inv pf' c(3,4) len by (simp add: prefetcher_inv_def)
  show "r = p_next_id pf" using pr c(7) by auto
  show "p_cache pf' = snd (cache_ensure (p_cache pf) l e n p)" using c(1) pf'(1) by simp
  show "cache_is_resident (p_cache pf') l e" using c(2) pf'(1) by (simp add: cache_data_region)
  show "p_key_to_idx pf' = AList.update (pack_key l e) (int (length (p_inflight pf))) (p_key_to_idx pf)" by (rule pf'(3))
qed

lemma synchronize_all_inv:
  assumes inv: "prefetcher_inv src n sp (m, pf)" and sy: "synchronize_all m pf = (m', pf')"
  shows "prefetcher_inv src n sp (m', pf')" and "p_cache pf' = p_cache pf"
    and "p_key_to_idx pf' = p_key_to_idx pf"
    and "\<forall>x \<in> - span (fst sp) (snd sp). m' x = m x"
    and "\<forall>t \<in> set (p_inflight pf'). t_done t"
    and "is_int32 l \<Longrightarrow> is_int32 e \<Longrightarrow> map_of (p_key_to_idx pf) (pack_key l e) \<noteq> None \<Longrightarrow>
      cache_region (p_cache pf) (ExpertKey l e) = Some (a, len) \<Longrightarrow> same_bytes m' a (src (ExpertKey l e)) n"
proof -
  have dr: "drain_until m pf (int (length (p_inflight pf)) - 1) = (m', pf')"
    using sy prefetcher_invD(3,4) [OF inv] by (simp add: synchronize_all_def int32_length)
  note d = drain_until_inv [OF inv _ dr, simplified]
  have dn: "t_done (p_inflight pf' ! j)" if "j < length (p_inflight pf')" for j
    using d(5) that shape_length [OF d(4)] by simp
  show "prefetcher_inv src n sp (m', pf')" "p_cache pf' = p_cache pf" "p_key_to_idx pf' = p_key_to_idx pf"
    by (rule d)+
  show "\<forall>x \<in> - span (fst sp) (snd sp). m' x = m x" using d(7) by simp
  show "\<forall>t \<in> set (p_inflight pf'). t_done t" using dn by (auto simp: in_set_conv_nth)
  show "same_bytes m' a (src (ExpertKey l e)) n"
    if le: "is_int32 l" "is_int32 e" and ix: "map_of (p_key_to_idx pf) (pack_key l e) \<noteq> None"
      and r: "cache_region (p_cache pf) (ExpertKey l e) = Some (a, len)"
  proof -
    obtain i where i: "map_of (p_key_to_idx pf') (pack_key l e) = Some i" using ix d(3) by auto
    note x = index_okD [OF prefetcher_invD(8) [OF d(1)] le i]
    have k: "nat i < length (p_inflight pf')" using x(1,2) by linarith
    have "t_src (p_inflight pf' ! nat i) = src (ExpertKey l e)"
      using stream_invD(1) [OF prefetcher_invD(7) [OF d(1)] k] x(3) by (simp add: transfer_ok_def)
    then show ?thesis
      using stream_invD(3) [OF prefetcher_invD(7) [OF d(1)] k dn [OF k]] x(4) r d(2) by simp
  qed
qed

section \<open>Reachable states\<close>

text \<open>
  Every use of the prefetcher by the engine, and writes of other code to memory outside the
  device region and the weights. At most \<open>2 ^ 31 - 1\<close> transfers are issued between resets: the
  index is kept in an \<^verbatim>\<open>int\<close>.
\<close>

inductive prefetcher_step ::
  "(ExpertKey \<Rightarrow> nat) \<Rightarrow> nat \<Rightarrow> memory \<times> AsyncPrefetcher \<Rightarrow> memory \<times> AsyncPrefetcher \<Rightarrow> bool" for src n where
  prefetch: "is_int32 l \<Longrightarrow> is_int32 e \<Longrightarrow> Suc (length (p_inflight pf)) < 2 ^ 31 \<Longrightarrow>
    prefetcher_step src n (m, pf) (m, snd (prefetch pf l e (src (ExpertKey l e)) n p))"
| wait: "is_int32 l \<Longrightarrow> is_int32 e \<Longrightarrow> prefetcher_step src n (m, pf) (snd (wait m pf l e))"
| synchronize_all: "prefetcher_step src n (m, pf) (synchronize_all m pf)"
| reset: "prefetcher_step src n (m, pf) (m, prefetcher_reset pf)"
| touch: "prefetcher_step src n (m, pf) (m, pf\<lparr>p_cache := cache_touch (p_cache pf) l e\<rparr>)"
| host_write: "(\<forall>x \<in> span (fst (cache_space (p_cache pf))) (snd (cache_space (p_cache pf))). m' x = m x) \<Longrightarrow>
    (\<forall>k. \<forall>x \<in> span (src k) n. m' x = m x) \<Longrightarrow> prefetcher_step src n (m, pf) (m', pf)"

inductive prefetcher_reachable ::
  "(ExpertKey \<Rightarrow> nat) \<Rightarrow> nat \<Rightarrow> nat \<Rightarrow> memory \<times> AsyncPrefetcher \<Rightarrow> bool" for src n cap where
  start: "cache_init cache_new cap be = (True, c) \<Longrightarrow> 0 < n \<Longrightarrow> n \<le> cap \<Longrightarrow> cap + n < size_mod \<Longrightarrow>
    away src n (cache_space c) \<Longrightarrow> (\<forall>k. src k \<noteq> nullptr) \<Longrightarrow>
    prefetcher_init (prefetcher_new c ring) False = (ok, pf) \<Longrightarrow> prefetcher_reachable src n cap (m, pf)"
| step: "prefetcher_reachable src n cap mp \<Longrightarrow> prefetcher_step src n mp mp' \<Longrightarrow> prefetcher_reachable src n cap mp'"

lemma reset_inv:
  "prefetcher_inv src n sp (m, pf) \<Longrightarrow> prefetcher_inv src n sp (m, prefetcher_reset pf)"
  by (simp add: prefetcher_inv_def prefetcher_reset_def stream_inv_def index_ok_def)

lemma cache_touch_region:
  assumes ok: "cache_ok n c"
  shows "cache_ok n (cache_touch c l e)" "cache_region (cache_touch c l e) = cache_region c"
    "cache_space (cache_touch c l e) = cache_space c"
proof -
  let ?d = "cache_touch c l e" and ?f = "\<lambda>b :: ExpertBlock. b\<lparr>b_last_used := c_tick c + 1\<rparr>"
  have inv: "cache_inv c" and inv': "cache_inv ?d" using ok cache_touch_inv by (auto simp: cache_ok_def)
  consider "?d = c" | "c_blocks ?d = map (\<lambda>b. if b_key b = ExpertKey l e then ?f b else b) (c_blocks c)" "c_arena ?d = c_arena c"
    by (cases "find_block c l e"; cases "b_resident (the (find_block c l e))") (simp_all add: cache_touch_def)
  then have "cache_ok n ?d \<and> cache_region ?d = cache_region c \<and> cache_space ?d = cache_space c"
  proof cases
    case 1
    then show ?thesis using ok by simp
  next
    case 2
    have "live ?d = live c" unfolding 2(1) by (rule live_refresh) simp
    then have "cache_uniform n ?d" using ok cache_uniform_same_blocks 2(2) by (metis cache_ok_def)
    moreover have "cache_region ?d = cache_region c"
      by (rule cache_region_refresh [OF inv inv' 2(1)]) simp
    ultimately show ?thesis using ok inv' 2(2) by (simp add: cache_ok_def cache_space_def)
  qed
  then show "cache_ok n ?d" "cache_region ?d = cache_region c" "cache_space ?d = cache_space c" by blast+
qed

lemma touch_inv:
  assumes "prefetcher_inv src n sp (m, pf)"
  shows "prefetcher_inv src n sp (m, pf\<lparr>p_cache := cache_touch (p_cache pf) l e\<rparr>)"
  using assms cache_touch_region [OF prefetcher_invD(1) [OF assms], of l e]
  by (simp add: prefetcher_inv_def index_ok_def)

lemma write_inv:
  assumes inv: "prefetcher_inv src n sp (m, pf)"
    and eq: "\<forall>x \<in> span (fst sp) (snd sp). m' x = m x" "\<forall>t \<in> set (p_inflight pf). \<forall>x \<in> span (src (t_key t)) n. m' x = m x"
  shows "prefetcher_inv src n sp (m', pf)"
proof -
  note st = stream_invD [OF prefetcher_invD(7) [OF inv]]
  have "same_bytes m' (t_dst t) (t_src t) n \<longleftrightarrow> same_bytes m (t_dst t) (t_src t) n" if t: "t \<in> set (p_inflight pf)" "transfer_ok src n sp t" for t
  proof -
    have "t_dst t + i \<in> span (fst sp) (snd sp)" "t_src t + i \<in> span (src (t_key t)) n" if "i < n" for i
    proof -
      have "t_dst t + i \<in> span (t_dst t) n" "t_src t + i \<in> span (src (t_key t)) n"
        using that t(2) by (auto simp: transfer_ok_def)
      then show "t_dst t + i \<in> span (fst sp) (snd sp)" "t_src t + i \<in> span (src (t_key t)) n"
        using t(2) unfolding transfer_ok_def by blast+
    qed
    then show ?thesis using eq t(1) unfolding same_bytes_def by (metis (no_types))
  qed
  then have "stream_inv src n sp (m', p_inflight pf)"
    using prefetcher_invD(7) [OF inv] st(1) unfolding stream_inv_def fst_conv snd_conv by (metis nth_mem)
  then show ?thesis using inv by (simp add: prefetcher_inv_def)
qed

lemma prefetcher_step_inv:
  "prefetcher_step src n mp mp' \<Longrightarrow> prefetcher_inv src n sp mp \<Longrightarrow> prefetcher_inv src n sp mp'"
proof (induction rule: prefetcher_step.induct)
  case (prefetch l e pf m p)
  then show ?case using prefetch_inv(1) [OF _ _ _ _ surjective_pairing] by blast
next
  case (wait l e m pf)
  then show ?case using wait_inv(1) [of src n sp m pf l e] by (metis prod.collapse)
next
  case (synchronize_all m pf)
  then show ?case using synchronize_all_inv(1) [of src n sp m pf] by (metis prod.collapse)
next
  case (reset m pf)
  then show ?case by (rule reset_inv)
next
  case (touch m pf l e)
  then show ?case by (rule touch_inv)
next
  case (host_write pf m' m)
  then show ?case using write_inv [of src n sp m pf m'] prefetcher_invD(2) by metis
qed

lemma start_inv:
  assumes "cache_init cache_new cap be = (True, c)" "0 < n" "n \<le> cap" "cap + n < size_mod"
    "away src n (cache_space c)" "\<forall>k. src k \<noteq> nullptr" "prefetcher_init (prefetcher_new c ring) False = (ok, pf)"
  shows "prefetcher_inv src n (cache_space c) (m, pf)" and "p_cache pf = c"
  using assms cache_init_ok [OF assms(1-4)]
  by (auto simp: prefetcher_init_def prefetcher_new_def prefetcher_inv_def stream_inv_def index_ok_def)

lemma prefetcher_reachable_inv:
  assumes "prefetcher_reachable src n cap mp"
  shows "prefetcher_inv src n (cache_space (p_cache (snd mp))) mp"
proof -
  have "\<exists>sp. prefetcher_inv src n sp mp"
    using assms by induction (use start_inv(1) prefetcher_step_inv in blast)+
  then show ?thesis by (auto simp: prefetcher_inv_def)
qed

text \<open>The keys in the queue.\<close>

lemma copy_one_keys: "map t_key (snd (foldl copy_one mt is)) = map t_key (snd mt)"
proof (induction "is" arbitrary: mt)
  case (Cons i "is")
  have "map t_key (snd (copy_one mt i)) = map t_key (snd mt)" 
    by (cases "i < length (snd mt)") (simp_all add: copy_one_def Let_def map_update_same list_update_beyond)
  then show ?case using Cons by simp
qed simp

lemma drain_keys: "drain_until m pf i = (m', pf') \<Longrightarrow> map t_key (p_inflight pf') = map t_key (p_inflight pf)"
  using copy_one_keys [of "(m, p_inflight pf)"] by (auto simp: drain_until_def Let_def split: prod.splits) (metis snd_conv)

lemma wait_keys: "wait m pf l e = (r, m', pf') \<Longrightarrow> map t_key (p_inflight pf') = map t_key (p_inflight pf)"
  by (auto simp: wait_def cuda_wait_def Let_def dest!: drain_keys split: if_splits prod.splits)

lemma prefetch_keys:
  assumes "cache_ok n (p_cache pf)" and "prefetch pf l e s n p = (r, pf')"
  shows "map t_key (p_inflight pf') = map t_key (p_inflight pf) @ [ExpertKey l e]"
  by (rule prefetch_eq [OF assms(1), where l = l and e = e and s = s and p = p]) (use assms(2) in simp)

section \<open>Sequences of prefetches\<close>

fun prefetch_all :: "(ExpertKey \<Rightarrow> nat) \<Rightarrow> nat \<Rightarrow> (ExpertKey \<times> int) list \<Rightarrow> AsyncPrefetcher \<Rightarrow> AsyncPrefetcher" where
  "prefetch_all src n [] pf = pf"
| "prefetch_all src n ((k, p) # ks) pf =
     prefetch_all src n ks (snd (prefetch pf (key_layer k) (key_expert k) (src k) n p))"

definition key_ok :: "ExpertKey \<Rightarrow> bool" where
  "key_ok k \<longleftrightarrow> is_int32 (key_layer k) \<and> is_int32 (key_expert k)"

definition issued :: "AsyncPrefetcher \<Rightarrow> ExpertKey \<Rightarrow> bool" where
  "issued pf k \<longleftrightarrow> map_of (p_key_to_idx pf) (pack_key (key_layer k) (key_expert k)) \<noteq> None"

lemma prefetch_all_inv:
  assumes "prefetcher_inv src n sp (m, pf)" and "\<forall>k \<in> fst ` set ks. key_ok k"
    and "length (p_inflight pf) + length ks < 2 ^ 31"
  shows "prefetcher_inv src n sp (m, prefetch_all src n ks pf) \<and>
    p_cache (prefetch_all src n ks pf) = acquire_all (cache_acquire n) ks (p_cache pf) \<and>
    (\<forall>k. k \<in> fst ` set ks \<or> issued pf k \<longrightarrow> issued (prefetch_all src n ks pf) k)"
  using assms
proof (induction ks arbitrary: pf)
  case Nil
  then show ?case by simp
next
  case (Cons x ks)
  obtain k p where x: "x = (k, p)" by fastforce
  have le: "is_int32 (key_layer k)" "is_int32 (key_expert k)" using Cons.prems(2) by (simp_all add: x key_ok_def)
  let ?r = "prefetch pf (key_layer k) (key_expert k) (src k) n p"
  have pr: "prefetch pf (key_layer k) (key_expert k) (src (ExpertKey (key_layer k) (key_expert k))) n p = (fst ?r, snd ?r)"
    by simp
  have len: "Suc (length (p_inflight pf)) < 2 ^ 31" using Cons.prems(3) by simp
  note st = prefetch_inv [OF Cons.prems(1) le len pr]
  have "length (p_inflight (snd ?r)) = Suc (length (p_inflight pf))"
    by (rule prefetch_eq [OF prefetcher_invD(1) [OF Cons.prems(1)], where l = "key_layer k"
          and e = "key_expert k" and p = p and s = "src k"]) simp
  then have IH: "prefetcher_inv src n sp (m, prefetch_all src n ks (snd ?r)) \<and>
    p_cache (prefetch_all src n ks (snd ?r)) = acquire_all (cache_acquire n) ks (p_cache (snd ?r)) \<and>
    (\<forall>k. k \<in> fst ` set ks \<or> issued (snd ?r) k \<longrightarrow> issued (prefetch_all src n ks (snd ?r)) k)"
    using Cons.IH [OF st(1)] Cons.prems(2,3) by simp
  have "issued (snd ?r) j" if "j = k \<or> issued pf j" for j
    using that st(5) by (auto simp: issued_def update_conv')
  then show ?case using IH st(3) cache_acquire_def [of n "p_cache pf" k p] by (auto simp: x)
qed

section \<open>Properties\<close>

text \<open>A prefetcher over the cache of two slots; the weights of each expert are above the region.\<close>

definition example_src :: "ExpertKey \<Rightarrow> nat" where
  "example_src k = (if k = ExpertKey 0 0 then 100000 else if k = ExpertKey 0 1 then 200000 else 300000)"

definition example_prefetcher :: AsyncPrefetcher where
  "example_prefetcher = snd (prefetcher_init (prefetcher_new example_cache 64) False)"

definition example_memory :: memory where
  "example_memory = (\<lambda>a. word_of_nat (a div 100000))"

lemmas prefetcher_eval = cache_eval example_prefetcher_def prefetcher_init_def prefetcher_new_def prefetch_def
  to_int32_def pack_key_def wait_def find_inflight_def drain_until_def copy_one_def synchronize_all_def

lemma example_init: "cache_init cache_new 512 example_backend = (True, example_cache)"
  by (simp add: cache_eval)

lemma example_away: "away example_src 256 (cache_space example_cache)"
  by (auto simp: away_def example_src_def cache_space_def cache_eval)

lemma example_src_nonnull: "\<forall>k. example_src k \<noteq> nullptr"
  by (simp add: example_src_def)

lemma example_prefetcher_init:
  "prefetcher_init (prefetcher_new example_cache 64) False = (True, example_prefetcher)"
  by (simp add: example_prefetcher_def prefetcher_init_def)

lemma example_fits: "(0::nat) < 256" "(256::nat) \<le> 512" "(512::nat) + 256 < size_mod"
  by (simp_all add: size_mod_def)

lemma example_prefetcher_reachable: "prefetcher_reachable example_src 256 512 (m, example_prefetcher)"
  by (rule prefetcher_reachable.start
      [OF example_init example_fits example_away example_src_nonnull example_prefetcher_init])

text \<open>Three experts are prefetched into two slots: the first is evicted again.\<close>

definition example_prefetcher3 :: AsyncPrefetcher where
  "example_prefetcher3 = prefetch_all example_src 256
     [(ExpertKey 0 0, 0), (ExpertKey 0 1, 0), (ExpertKey 0 2, 0)] example_prefetcher"

lemma prefetch_all_reachable:
  assumes "prefetcher_reachable src n cap (m, pf)" and "\<forall>k \<in> fst ` set ks. key_ok k"
    and "length (p_inflight pf) + length ks < 2 ^ 31"
  shows "prefetcher_reachable src n cap (m, prefetch_all src n ks pf)"
  using assms
proof (induction ks arbitrary: pf)
  case Nil
  then show ?case by simp
next
  case (Cons x ks)
  obtain k p where x: "x = (k, p)" by fastforce
  let ?r = "prefetch pf (key_layer k) (key_expert k) (src k) n p"
  note inv = prefetcher_reachable_inv [OF Cons.prems(1), simplified]
  have "length (p_inflight (snd ?r)) = Suc (length (p_inflight pf))"
    by (rule prefetch_eq [OF prefetcher_invD(1) [OF inv], where l = "key_layer k"
          and e = "key_expert k" and p = p and s = "src k"]) simp
  moreover have "prefetcher_reachable src n cap (m, snd ?r)"
    using prefetcher_reachable.step [OF Cons.prems(1) prefetcher_step.prefetch [of "key_layer k" "key_expert k" pf src n m p]]
      Cons.prems(2,3) by (simp add: x key_ok_def)
  ultimately show ?case using Cons.IH [of "snd ?r"] Cons.prems(2,3) by (simp add: x)
qed

lemma example_prefetcher3_reachable: "prefetcher_reachable example_src 256 512 (m, example_prefetcher3)"
  unfolding example_prefetcher3_def
  by (rule prefetch_all_reachable [OF example_prefetcher_reachable])
    (simp_all add: key_ok_def is_int32_def example_prefetcher_def prefetcher_init_def prefetcher_new_def)



text \<open>
  An expert that was prefetched can be waited for after any number of further prefetches: the
  wait reports success, and if the expert has not been evicted meanwhile its weights are in place.
\<close>

theorem prefetched_expert_arrives:
  assumes "prefetcher_reachable src n cap (m, pf)" and "\<forall>k \<in> fst ` set ks. key_ok k"
    and "length (p_inflight pf) + length ks < 2 ^ 31" and "ExpertKey l e \<in> fst ` set ks"
    and "pf1 = prefetch_all src n ks pf" and "wait m pf1 l e = (ok, m', pf')"
  shows "ok \<and> (cache_is_resident (p_cache pf1) l e \<longrightarrow>
    same_bytes m' (cache_data (p_cache pf1) l e) (src (ExpertKey l e)) n)"
proof -
  have inv: "prefetcher_inv src n (cache_space (p_cache pf)) (m, pf)"
    using prefetcher_reachable_inv [OF assms(1)] by simp
  note pa = prefetch_all_inv [OF inv assms(2,3), folded assms(5)]
  have "key_ok (ExpertKey l e)" using assms(2,4) by blast
  then have le: "is_int32 l" "is_int32 e" by (simp_all add: key_ok_def)
  note w = wait_inv [OF conjunct1 [OF pa] le assms(6)]
  have "issued pf1 (ExpertKey l e)" using pa assms(4) by blast
  then have "ok" using w(4) by (simp add: issued_def)
  then show ?thesis using w(5) by (auto simp: cache_data_region split: option.splits)
qed

theorem prefetched_expert_arrives_witness:
  "fst (wait example_memory example_prefetcher3 0 2) \<and>
   same_bytes (fst (snd (wait example_memory example_prefetcher3 0 2)))
     (cache_data (p_cache example_prefetcher3) 0 2) 300000 256"
proof -
  let ?ks = "[(ExpertKey 0 0, 0), (ExpertKey 0 1, 0), (ExpertKey 0 2, 0)]"
  have "\<forall>k \<in> fst ` set ?ks. key_ok k" "length (p_inflight example_prefetcher) + length ?ks < 2 ^ 31"
    by (simp_all add: key_ok_def is_int32_def example_prefetcher_def prefetcher_init_def prefetcher_new_def)
  moreover have "ExpertKey 0 2 \<in> fst ` set ?ks" "example_src (ExpertKey 0 2) = 300000"
    by (simp_all add: example_src_def)
  moreover have "cache_is_resident (p_cache example_prefetcher3) 0 2"
    by (simp add: example_prefetcher3_def prefetcher_eval example_src_def)
  ultimately show ?thesis
    using prefetched_expert_arrives [where m = example_memory and l = 0 and e = 2,
        OF example_prefetcher_reachable _ _ _ example_prefetcher3_def]
    by (metis prod.collapse)
qed

text \<open>
  C27: streaming refines synchronous loading. Starting from a fresh cache, prefetching a list of
  experts and synchronising leaves the same experts resident in the same blocks as loading them
  one by one, and every resident block holds the same bytes.
\<close>

theorem streaming_refines_synchronous_fill:
  assumes "cache_init cache_new cap be = (True, c)" and "0 < n" and "n \<le> cap" and "cap + n < size_mod"
    and "away src n (cache_space c)" and "\<forall>k. src k \<noteq> nullptr"
    and "prefetcher_init (prefetcher_new c ring) False = (ok, pf)"
    and "\<forall>k \<in> fst ` set ks. key_ok k" and "length ks < 2 ^ 31"
    and "synchronize_all m (prefetch_all src n ks pf) = (m', pf')"
    and "fill_all (cache_acquire n) cache_region src n ks (c, m) = (cs, ms)"
  shows "p_cache pf' = cs \<and>
    (\<forall>k a len. cache_region cs k = Some (a, len) \<longrightarrow>
       (\<forall>i < n. m' (a + i) = ms (a + i) \<and> m' (a + i) = m (src k + i)))"
proof -
  note st = start_inv [OF assms(1-7)]
  have len: "length (p_inflight pf) + length ks < 2 ^ 31"
    using assms(7,9) by (auto simp: prefetcher_init_def prefetcher_new_def)
  note pa = prefetch_all_inv [OF st(1) assms(8) len]
  note sy = synchronize_all_inv [OF conjunct1 [OF pa] assms(10)]
  have ok: "cache_ok n c" by (rule cache_init_ok [OF assms(1-4)])
  have cs: "p_cache pf' = cs" "p_cache (prefetch_all src n ks pf) = cs" "cs = acquire_all (cache_acquire n) ks c"
    using vram_store.fill_all_store [OF ok, of src ks m] assms(11) pa sy(2) st(2) by auto
  have none: "cache_region c k = None" for k
    using cache_init_inv [OF assms(1)] assms(4) cache_region_None [of c k] by simp
  then have "filled cache_region src n (c, m)" by (simp add: filled_def)
  then have fl: "filled cache_region src n (cs, ms)"
    using vram_store.fill_all_filled [OF ok, of src m ks] assms(5,11) by (simp add: away_def)
  have "m' (a + i) = ms (a + i) \<and> m' (a + i) = m (src k + i)"
    if r: "cache_region cs k = Some (a, l)" and i: "i < n" for k a l i
  proof -
    have k: "k \<in> fst ` set ks"
      using vram_store.acquire_all_frame [OF ok, of k ks] none r cs(3) by auto
    then have "key_ok k" "issued (prefetch_all src n ks pf) k" using assms(8) pa by blast+
    then have "same_bytes m' a (src k) n"
      using sy(6) [of "key_layer k" "key_expert k" a l] r cs(2) by (simp add: key_ok_def issued_def)
    moreover have "same_bytes ms a (src k) n" using fl r by (auto simp: filled_def)
    moreover have "src k + i \<notin> span (fst (cache_space c)) (snd (cache_space c))"
    proof -
      have "src k + i \<in> span (src k) n" using i by simp
      then show ?thesis using assms(5) unfolding away_def by blast
    qed
    moreover from this have "m' (src k + i) = m (src k + i)" "ms (src k + i) = m (src k + i)"
      using sy(4) vram_store.fill_all_outside [OF ok, of "src k + i" src ks m] assms(11) by (simp_all del: mem_span)
    ultimately show ?thesis using i by (simp add: same_bytes_def)
  qed
  then show ?thesis using cs(1) by blast
qed

theorem streaming_refines_synchronous_fill_witness:
  "fst (synchronize_all example_memory example_prefetcher3) (4096 + 5) = 3 \<and>
   fst (synchronize_all example_memory example_prefetcher3) (4352 + 5) = 2"
proof -
  let ?ks = "[(ExpertKey 0 0, 0), (ExpertKey 0 1, 0), (ExpertKey 0 2, 0)] :: (ExpertKey \<times> int) list"
  obtain cs ms where cs: "fill_all (cache_acquire 256) cache_region example_src 256 ?ks (example_cache, example_memory) = (cs, ms)"
    by fastforce
  have ks: "\<forall>k \<in> fst ` set ?ks. key_ok k" "length ?ks < 2 ^ 31"
    by (simp_all add: key_ok_def is_int32_def)
  have ok: "cache_ok 256 example_cache" by (rule cache_init_ok [OF example_init example_fits])
  have "cs = acquire_all (cache_acquire 256) ?ks example_cache"
    using vram_store.fill_all_store [OF ok, of example_src ?ks example_memory] cs by simp
  then have "cache_region cs (ExpertKey 0 2) = Some (4096, 256)" "cache_region cs (ExpertKey 0 1) = Some (4352, 256)"
    by (simp_all add: cache_acquire_def cache_region_def cache_eval)
  moreover have "(5::nat) < 256" by simp
  ultimately have "fst (synchronize_all example_memory example_prefetcher3) (4096 + 5) = example_memory (example_src (ExpertKey 0 2) + 5)"
    "fst (synchronize_all example_memory example_prefetcher3) (4352 + 5) = example_memory (example_src (ExpertKey 0 1) + 5)"
    using streaming_refines_synchronous_fill [OF example_init example_fits example_away example_src_nonnull
        example_prefetcher_init ks surjective_pairing cs, folded example_prefetcher3_def] by blast+
  then show ?thesis by (simp add: example_memory_def example_src_def)
qed

text \<open>
  \<^verbatim>\<open>wait\<close> reports success for an expert that is no longer in the cache. Three experts are
  prefetched into a cache of two slots; waiting for the first one succeeds although it was evicted
  by the third.
\<close>

theorem wait_succeeds_for_evicted:
  "\<exists>src m pf l e. prefetcher_reachable src 256 512 (m, pf) \<and> fst (wait m pf l e) \<and>
     \<not> cache_is_resident (p_cache (snd (snd (wait m pf l e)))) l e"
proof -
  have "fst (wait example_memory example_prefetcher3 0 0)"
    "\<not> cache_is_resident (p_cache (snd (snd (wait example_memory example_prefetcher3 0 0)))) 0 0"
    by (simp_all add: example_prefetcher3_def prefetcher_eval example_src_def)
  then show ?thesis using example_prefetcher3_reachable by blast
qed

end
