(* ===== verification/PtLoader.thy ===== *)
theory PtLoader
  imports CText Floats
begin

text \<open>
  The reader of PyTorch archives \<^verbatim>\<open>dee::PtLoader\<close> of \<^verbatim>\<open>include/dee/pt_loader.h\<close> and
  \<^verbatim>\<open>src/pt_loader.cpp\<close>: a minimal ZIP reader, a scanner for the pickle and the access to tensors. A
  file is its list of bytes; reading outside a buffer is \<open>Undefined\<close>. zlib is a parameter: what
  \<^verbatim>\<open>inflateInit2\<close> and each call of \<^verbatim>\<open>inflate\<close> return. The loop around \<^verbatim>\<open>inflate\<close> and the scan of the
  pickle need not end; not returning is \<open>Diverges\<close>.
\<close>

section \<open>State\<close>

record PtTensor =
  pt_name :: string
  pt_storage :: int
  pt_offset :: nat
  pt_shape :: "int list"
  pt_ndim :: int
  pt_dtype :: int

definition pt_nbytes :: "PtTensor \<Rightarrow> nat" where
  "pt_nbytes t = mul64 (foldl (\<lambda>n d. mul64 n (nat (d mod 2 ^ 64))) 1 (pt_shape t)) 4"

record PtLoader =
  pl_path :: string
  pl_err :: string
  pl_buffers :: "(int \<times> byte list) list"
  pl_tensors :: "(string \<times> PtTensor) list"
  pl_pkl :: "byte list"

definition pt_new :: PtLoader where
  "pt_new = \<lparr>pl_path = [], pl_err = [], pl_buffers = [], pl_tensors = [], pl_pkl = []\<rparr>"

text \<open>The shape of a tensor of the fixed architecture.\<close>

definition oracle_tensor_shape :: "string \<Rightarrow> int \<Rightarrow> int \<Rightarrow> int \<Rightarrow> int list" where
  "oracle_tensor_shape local D H E =
     (let is_bias = contains ''bias'' local;
          is_first = contains ''net.0.'' local
      in if is_bias then [H] else if is_first then [H, D] else [H, H])"

section \<open>Decompression\<close>

datatype ZRet = Z_OK | Z_STREAM_END | Z_BUF_ERROR | Z_FAILED

text \<open>The stream that \<^verbatim>\<open>inflateInit2\<close> sets up for an input, and one call of \<^verbatim>\<open>inflate\<close> with output space.\<close>

record 'z Zlib =
  z_init :: "byte list \<Rightarrow> 'z option"
  z_inflate :: "'z \<Rightarrow> nat \<Rightarrow> ZRet \<times> byte list \<times> 'z"

partial_function (option) inflate_loop ::
  "('z \<Rightarrow> nat \<Rightarrow> ZRet \<times> byte list \<times> 'z) \<Rightarrow> 'z \<Rightarrow> byte list \<Rightarrow> (bool \<times> byte list) option" where
  "inflate_loop inflate zs out =
     (case inflate zs 65536 of (ret, chunk, zs') \<Rightarrow>
        if ret = Z_FAILED then Some (False, out)
        else if ret = Z_STREAM_END then Some (True, out @ chunk)
        else inflate_loop inflate zs' (out @ chunk))"

definition inflate_entry :: "'z Zlib \<Rightarrow> byte list \<Rightarrow> (bool \<times> byte list) outcome" where
  "inflate_entry z src =
     (case z_init z src of
        None \<Rightarrow> Ret (False, [])
      | Some zs \<Rightarrow> of_option (inflate_loop (z_inflate z) zs []))"

section \<open>The pickle\<close>

definition bytes_string :: "byte list \<Rightarrow> string" where
  "bytes_string bs = map (\<lambda>b. char_of (unat b)) bs"

definition get16 :: "byte list \<Rightarrow> nat \<Rightarrow> nat" where
  "get16 d p = unat (d ! p) + 256 * unat (d ! (p + 1))"

definition get32 :: "byte list \<Rightarrow> nat \<Rightarrow> nat" where
  "get32 d p = unat (d ! p) + 256 * unat (d ! (p + 1)) + 65536 * unat (d ! (p + 2)) + 16777216 * unat (d ! (p + 3))"

definition slice :: "byte list \<Rightarrow> nat \<Rightarrow> nat \<Rightarrow> byte list" where
  "slice d p n = take n (drop p d)"

definition read_binunicode :: "byte list \<Rightarrow> nat \<Rightarrow> string option" where
  "read_binunicode d pos =
     (let n = length d
      in if n \<le> pos then None
         else if d ! pos = 0x58 then
           (if n < pos + 5 then None
            else let len = get32 d (pos + 1)
                 in if n < pos + 5 + len then None else Some (bytes_string (slice d (pos + 5) len)))
         else if d ! pos = 0x8c then
           (if n < pos + 2 then None
            else let len = unat (d ! (pos + 1))
                 in if n < pos + 2 + len then None else Some (bytes_string (slice d (pos + 2) len)))
         else None)"

definition kLocalNames :: "string list" where
  "kLocalNames = [''net.0.weight'', ''net.0.bias'', ''net.2.weight'', ''net.2.bias'', ''net.4.weight'', ''net.4.bias'']"

definition local_shape :: "int \<Rightarrow> int list" where
  "local_shape local =
     (if local = 0 then [256, 2048]
      else if local = 1 then [256]
      else if local = 2 then [256, 256]
      else if local = 3 then [256]
      else if local = 4 then [256, 256]
      else if local = 5 then [256] else [])"

definition is_tensor :: "string \<Rightarrow> bool" where
  "is_tensor s \<longleftrightarrow> starts_with ''net.'' s \<and> (contains ''.weight'' s \<or> contains ''.bias'' s)"

text \<open>The search for a storage key after a tensor name, at the given positions.\<close>

fun find_storage :: "byte list \<Rightarrow> nat list \<Rightarrow> int outcome" where
  "find_storage d [] = Ret (- 1)"
| "find_storage d (j # js) =
     (case read_binunicode d j of
        Some key \<Rightarrow> if key \<noteq> [] \<and> list_all isdigit key then atoi key else find_storage d js
      | None \<Rightarrow> find_storage d js)"

text \<open>What is found at a position: whether the scan moves on by more than one byte, and the tensor.\<close>

definition scan_at :: "byte list \<Rightarrow> nat \<Rightarrow> (nat \<times> (string \<times> int) list) outcome" where
  "scan_at d i =
     (case read_binunicode d i of
        None \<Rightarrow> Ret (i + 1, [])
      | Some s \<Rightarrow>
          let i' = (if d ! i = 0x58 then i + (5 + get32 d (i + 1)) mod 2 ^ 32 else i + (2 + unat (d ! (i + 1))))
          in if is_tensor s
             then bind_out (find_storage d [i + 1 ..< min (length d) (i + 200)]) (\<lambda>storage. Ret (i', [(s, storage)]))
             else Ret (i', []))"

partial_function (option) scan_loop :: "byte list \<Rightarrow> nat \<Rightarrow> (string \<times> int) list \<Rightarrow> (string \<times> int) list outcome option" where
  "scan_loop d i found =
     (if length d \<le> i then Some (Ret found)
      else case scan_at d i of
             Ret (i', f) \<Rightarrow> scan_loop d i' (found @ f)
           | _ \<Rightarrow> Some Undefined)"

definition pickle_scan :: "byte list \<Rightarrow> (string \<times> int) list outcome" where
  "pickle_scan d =
     (case scan_loop d (if 1 < length d \<and> d ! 0 = 0x80 then 2 else 0) [] of None \<Rightarrow> Diverges | Some r \<Rightarrow> r)"

definition full_name :: "int \<Rightarrow> string" where
  "full_name G = ''layers.'' @ show_int (G div 6) @ ''.'' @ kLocalNames ! nat (G mod 6)"

definition table_entry :: "int \<Rightarrow> PtTensor" where
  "table_entry G =
     \<lparr>pt_name = full_name G, pt_storage = G, pt_offset = 0, pt_shape = local_shape (G mod 6),
      pt_ndim = int (length (local_shape (G mod 6))), pt_dtype = 0\<rparr>"

definition build_table :: "int \<Rightarrow> (string \<times> PtTensor) list \<Rightarrow> (string \<times> PtTensor) list" where
  "build_table num_storage ts = foldl (\<lambda>ts G. AList.update (full_name G) (table_entry G) ts) ts [0 .. num_storage - 1]"

fun validate :: "int \<Rightarrow> (string \<times> int) list \<Rightarrow> string option" where
  "validate num_storage [] = None"
| "validate num_storage ((name, storage) # fs) =
     (if storage < 0 \<or> num_storage \<le> storage then validate num_storage fs
      else let expected = kLocalNames ! nat (storage mod 6)
           in if expected \<noteq> name
              then Some (''oracle tensor order mismatch at storage '' @ show_int storage @ '': expected '' @ expected @
                     '' but pickle says '' @ name)
              else validate num_storage fs)"

definition parse_pickle :: "PtLoader \<Rightarrow> byte list \<Rightarrow> (bool \<times> PtLoader) outcome" where
  "parse_pickle ld pkl =
     bind_out (pickle_scan pkl) (\<lambda>found.
       let num_storage = to_int32 (int (length (pl_buffers ld)));
           ld1 = ld\<lparr>pl_tensors := build_table num_storage (pl_tensors ld)\<rparr>
       in case validate num_storage found of
            Some msg \<Rightarrow> Ret (False, ld1\<lparr>pl_err := msg\<rparr>)
          | None \<Rightarrow> Ret (True, ld1))"

section \<open>The archive\<close>

definition has_eocd :: "byte list \<Rightarrow> nat \<Rightarrow> bool" where
  "has_eocd d i \<longleftrightarrow> d ! i = 0x50 \<and> d ! (i + 1) = 0x4b \<and> d ! (i + 2) = 0x05 \<and> d ! (i + 3) = 0x06"

text \<open>
  The backward search. At position 0 the decrement wraps, \<^verbatim>\<open>i + 22\<close> wraps to 21, and the loop reads
  before the buffer.
\<close>

fun eocd_loop :: "byte list \<Rightarrow> nat \<Rightarrow> nat outcome" where
  "eocd_loop d i =
     (if has_eocd d i then Ret i
      else case i of 0 \<Rightarrow> Undefined | Suc j \<Rightarrow> eocd_loop d j)"

declare eocd_loop.simps [simp del]

definition find_eocd :: "byte list \<Rightarrow> nat option outcome" where
  "find_eocd d =
     (if length d < 22 then Ret None
      else bind_out (eocd_loop d (length d - 22)) (\<lambda>i. Ret (Some i)))"

datatype Member = Inflated "byte list" | Unsupported | Inflate_failed

definition member_data :: "'z Zlib \<Rightarrow> nat \<Rightarrow> byte list \<Rightarrow> Member outcome" where
  "member_data z meth cdata =
     (if meth = 0 then Ret (Inflated cdata)
      else if meth = 8 then bind_out (inflate_entry z cdata) (\<lambda>(ok, out). Ret (if ok then Inflated out else Inflate_failed))
      else Ret Unsupported)"

text \<open>An entry of the central directory whose name has been read; \<open>False\<close> means that \<^verbatim>\<open>parse_zip\<close> fails.\<close>

definition load_entry :: "'z Zlib \<Rightarrow> byte list \<Rightarrow> nat \<Rightarrow> string \<Rightarrow> PtLoader \<Rightarrow> (bool \<times> PtLoader) outcome" where
  "load_entry z d p name ld =
     (let n = length d;
          meth = get16 d (p + 10);
          comp_size = get32 d (p + 20);
          lho = get32 d (p + 42)
      in if n < lho + 30 then Ret (True, ld)
         else let data_off = lho + 30 + get16 d (lho + 26) + get16 d (lho + 28)
              in if n < data_off + comp_size then Ret (True, ld)
                 else let cdata = slice d data_off comp_size
                      in if name = ''oracle/data.pkl'' then
                           bind_out (member_data z meth cdata) (\<lambda>r.
                             case r of Inflated bs \<Rightarrow> Ret (True, ld\<lparr>pl_pkl := bs\<rparr>)
                                     | Unsupported \<Rightarrow> Ret (True, ld)
                                     | Inflate_failed \<Rightarrow> Ret (False, ld\<lparr>pl_err := ''inflate failed for data.pkl''\<rparr>))
                         else if starts_with ''oracle/data/'' name then
                           bind_out (atoi (drop 12 name)) (\<lambda>idx.
                             bind_out (member_data z meth cdata) (\<lambda>r.
                               case r of Inflated bs \<Rightarrow> Ret (True, ld\<lparr>pl_buffers := AList.update idx bs (pl_buffers ld)\<rparr>)
                                       | Unsupported \<Rightarrow> Ret (True, ld)
                                       | Inflate_failed \<Rightarrow> Ret (False, ld\<lparr>pl_err := ''inflate failed for '' @ name\<rparr>)))
                         else Ret (True, ld))"

fun entries_loop :: "'z Zlib \<Rightarrow> byte list \<Rightarrow> nat \<Rightarrow> nat \<Rightarrow> PtLoader \<Rightarrow> (bool \<times> PtLoader) outcome" where
  "entries_loop z d 0 p ld = Ret (True, ld)"
| "entries_loop z d (Suc e) p ld =
     (let n = length d;
          nlen = get16 d (p + 28)
      in if n < p + 46 then Ret (True, ld)
         else if n < p + 46 + nlen then Undefined
         else bind_out (load_entry z d p (bytes_string (slice d (p + 46) nlen)) ld) (\<lambda>(ok, ld1).
                if \<not> ok then Ret (False, ld1)
                else entries_loop z d e (p + 46 + nlen + get16 d (p + 30) + get16 d (p + 32)) ld1))"

definition parse_zip :: "'z Zlib \<Rightarrow> PtLoader \<Rightarrow> byte list \<Rightarrow> (bool \<times> PtLoader) outcome" where
  "parse_zip z ld raw =
     bind_out (find_eocd raw) (\<lambda>e.
       case e of
         None \<Rightarrow> Ret (False, ld\<lparr>pl_err := ''not a ZIP (no EOCD)''\<rparr>)
       | Some eocd \<Rightarrow>
           bind_out (entries_loop z raw (get16 raw (eocd + 10)) (get32 raw (eocd + 16)) ld) (\<lambda>(ok, ld1).
             if \<not> ok then Ret (False, ld1)
             else if pl_pkl ld1 \<noteq> [] then parse_pickle ld1 (pl_pkl ld1)
             else Ret (True, ld1)))"

section \<open>Opening and reading\<close>

text \<open>The file system: the bytes of a file that can be opened.\<close>

type_synonym files = "string \<Rightarrow> byte list option"

definition read_file :: "files \<Rightarrow> string \<Rightarrow> byte list option" where
  "read_file fs path = (case fs path of None \<Rightarrow> None | Some bs \<Rightarrow> if bs = [] then None else Some bs)"

definition pt_close :: "PtLoader \<Rightarrow> PtLoader" where
  "pt_close ld = ld\<lparr>pl_buffers := [], pl_tensors := [], pl_path := []\<rparr>"

definition pt_open :: "files \<Rightarrow> 'z Zlib \<Rightarrow> PtLoader \<Rightarrow> string \<Rightarrow> (bool \<times> PtLoader) outcome" where
  "pt_open fs z ld path =
     (let ld1 = (pt_close ld)\<lparr>pl_path := path\<rparr>
      in case read_file fs path of
           None \<Rightarrow> Ret (False, ld1\<lparr>pl_err := ''cannot read file''\<rparr>)
         | Some raw \<Rightarrow>
             if length raw < 4 \<or> raw ! 0 \<noteq> 0x50 \<or> raw ! 1 \<noteq> 0x4b
             then Ret (False, ld1\<lparr>pl_err := ''not a ZIP (bad magic)''\<rparr>)
             else bind_out (parse_zip z ld1 raw) (\<lambda>(ok, ld2). Ret (ok \<and> pl_tensors ld2 \<noteq> [], ld2)))"

definition pt_is_open :: "PtLoader \<Rightarrow> bool" where
  "pt_is_open ld \<longleftrightarrow> pl_path ld \<noteq> [] \<and> pl_tensors ld \<noteq> []"

text \<open>The bytes copied to \<^verbatim>\<open>out\<close>.\<close>

definition read_tensor :: "PtLoader \<Rightarrow> string \<Rightarrow> byte list option" where
  "read_tensor ld name =
     (case map_of (pl_tensors ld) name of
        None \<Rightarrow> None
      | Some t \<Rightarrow>
          case map_of (pl_buffers ld) (pt_storage t) of
            None \<Rightarrow> None
          | Some b \<Rightarrow>
              if length b < add64 (pt_offset t) (pt_nbytes t)
              then (if pt_offset t \<noteq> 0 \<and> pt_nbytes t \<le> length b then Some (slice b 0 (pt_nbytes t)) else None)
              else Some (slice b (pt_offset t) (pt_nbytes t)))"

definition read_tensor_vec :: "PtLoader \<Rightarrow> string \<Rightarrow> real list option" where
  "read_tensor_vec ld name =
     (case map_of (pl_tensors ld) name of
        None \<Rightarrow> None
      | Some t \<Rightarrow> map_option (\<lambda>bs. buffer_floats bs (pt_nbytes t div 4)) (read_tensor ld name))"

definition manifest_entry :: "PtTensor \<Rightarrow> string" where
  "manifest_entry t =
     ''  '' @ [CHR 0x22] @ pt_name t @ [CHR 0x22] @ '': {'' @ [CHR 0x22] @ ''storage'' @ [CHR 0x22] @ '':'' @
     show_int (pt_storage t) @ '', '' @ [CHR 0x22] @ ''offset'' @ [CHR 0x22] @ '':'' @ show_nat (pt_offset t) @
     '', '' @ [CHR 0x22] @ ''shape'' @ [CHR 0x22] @ '':['' @
     concat (map (\<lambda>k. (if k = 0 then [] else '','') @ show_int (pt_shape t ! k)) [0 ..< length (pt_shape t)]) @
     ''], '' @ [CHR 0x22] @ ''nbytes'' @ [CHR 0x22] @ '':'' @ show_nat (pt_nbytes t) @ ''}''"

text \<open>The text written to the file, if it can be opened for writing.\<close>

definition manifest_text :: "PtLoader \<Rightarrow> string" where
  "manifest_text ld =
     [CHR ''{'', CHR 0x0A] @
     concat (map (\<lambda>k. (if k = 0 then [] else [CHR '','', CHR 0x0A]) @ manifest_entry (snd (pl_tensors ld ! k)))
       [0 ..< length (pl_tensors ld)]) @
     [CHR 0x0A, CHR ''}'', CHR 0x0A]"

definition dump_manifest :: "PtLoader \<Rightarrow> (string \<Rightarrow> bool) \<Rightarrow> string \<Rightarrow> (string \<times> string) option" where
  "dump_manifest ld can_write path = (if can_write path then Some (path, manifest_text ld) else None)"

section \<open>The end of the central directory\<close>

lemma eocd_loop_Ret: "eocd_loop d i = Ret j \<Longrightarrow> j \<le> i \<and> has_eocd d j"
  by (induction i) (auto simp: eocd_loop.simps [of d] split: if_splits)

lemma eocd_loop_Undefined: "\<forall>j \<le> i. \<not> has_eocd d j \<Longrightarrow> eocd_loop d i = Undefined"
  by (induction i) (simp_all add: eocd_loop.simps [of d])

lemma eocd_at_end: "22 \<le> length d \<Longrightarrow> has_eocd d (length d - 22) \<Longrightarrow> find_eocd d = Ret (Some (length d - 22))"
  by (simp add: find_eocd_def eocd_loop.simps [of d])

section \<open>The scan of the pickle ends\<close>

lemma find_storage_returns: "find_storage d js \<noteq> Diverges \<and> find_storage d js \<noteq> Throw e"
  by (induction js) (auto simp: atoi_def split: option.splits)

lemma scan_at_progress:
  assumes "scan_at d i = Ret (i', f)" and "length d < 2 ^ 32"
  shows "i < i'"
proof (cases "read_binunicode d i")
  case None
  then show ?thesis using assms(1) by (simp add: scan_at_def)
next
  case (Some s)
  have i': "i' = (if d ! i = 0x58 then i + (5 + get32 d (i + 1)) mod 2 ^ 32 else i + (2 + unat (d ! (i + 1))))"
    using assms(1) Some by (auto simp: scan_at_def Let_def ret_iff split: if_splits)
  show ?thesis
  proof (cases "d ! i = 0x58")
    case True
    then have "i + 5 + get32 d (i + 1) \<le> length d"
      using Some by (auto simp: read_binunicode_def Let_def split: if_splits)
    then have "(5 + get32 d (i + 1)) mod 2 ^ 32 = 5 + get32 d (i + 1)"
      using assms(2) by (intro mod_less) linarith
    then have "i' = i + (5 + get32 d (i + 1))" using True i' by presburger
    then show ?thesis by simp
  next
    case False
    then show ?thesis using i' by simp
  qed
qed

lemma scan_loop_returns:
  assumes "length d < 2 ^ 32"
  shows "\<exists>r. scan_loop d i found = Some r \<and> r \<noteq> Diverges"
proof (induction "length d - i" arbitrary: i found rule: less_induct)
  case less
  show ?case
  proof (cases "length d \<le> i")
    case True
    then show ?thesis by (subst scan_loop.simps) simp
  next
    case False
    show ?thesis
    proof (cases "\<exists>p. scan_at d i = Ret p")
      case True
      then obtain i' f where p: "scan_at d i = Ret (i', f)" by auto
      have "length d - i' < length d - i" using scan_at_progress [OF p assms] False by linarith
      from less [OF this, of "found @ f"] show ?thesis by (subst scan_loop.simps) (simp add: False p)
    next
      case False
      then have "scan_loop d i found = Some Undefined"
        using \<open>\<not> length d \<le> i\<close> by (subst scan_loop.simps) (cases "scan_at d i"; simp)
      then show ?thesis by simp
    qed
  qed
qed

section \<open>Decompression that does not end\<close>

lemma inflate_loop_stuck:
  assumes "inflate zs 65536 = (Z_BUF_ERROR, [], zs)"
  shows "inflate_loop inflate zs out = None"
proof (rule ccontr)
  assume "inflate_loop inflate zs out \<noteq> None"
  then obtain r where r: "inflate_loop inflate zs out = Some r" by blast
  have "inflate = inflate \<longrightarrow> zs \<noteq> zs"
    by (rule inflate_loop.raw_induct [where P = "\<lambda>i z _ _. i = inflate \<longrightarrow> z \<noteq> zs", OF _ r])
      (clarsimp simp: assms, blast)
  then show False by simp
qed

section \<open>An archive writer\<close>

definition le16 :: "nat \<Rightarrow> byte list" where
  "le16 n = [word_of_nat n, word_of_nat (n div 256)]"

definition le32 :: "nat \<Rightarrow> byte list" where
  "le32 n = [word_of_nat n, word_of_nat (n div 256), word_of_nat (n div 65536), word_of_nat (n div 16777216)]"

definition string_bytes :: "string \<Rightarrow> byte list" where
  "string_bytes s = map (\<lambda>c. word_of_nat (code_of c)) s"

type_synonym member = "string \<times> byte list"

definition local_record :: "member \<Rightarrow> byte list" where
  "local_record m =
     [0x50, 0x4b, 3, 4, 20, 0, 0, 0, 0, 0, 0, 0, 0, 0, 0, 0, 0, 0] @ le32 (length (snd m)) @ le32 (length (snd m)) @
     le16 (length (fst m)) @ le16 0 @ string_bytes (fst m) @ snd m"

definition central_record :: "nat \<Rightarrow> member \<Rightarrow> byte list" where
  "central_record off m =
     [0x50, 0x4b, 1, 2, 20, 0, 20, 0, 0, 0, 0, 0, 0, 0, 0, 0, 0, 0, 0, 0] @ le32 (length (snd m)) @ le32 (length (snd m)) @
     le16 (length (fst m)) @ le16 0 @ le16 0 @ [0, 0, 0, 0, 0, 0, 0, 0] @ le32 off @ string_bytes (fst m)"

definition locals :: "member list \<Rightarrow> byte list" where
  "locals ms = concat (map local_record ms)"

fun central :: "nat \<Rightarrow> member list \<Rightarrow> byte list" where
  "central off [] = []"
| "central off (m # ms) = central_record off m @ central (off + length (local_record m)) ms"

definition archive :: "member list \<Rightarrow> byte list" where
  "archive ms =
     locals ms @ central 0 ms @
     [0x50, 0x4b, 5, 6, 0, 0, 0, 0] @ le16 (length ms) @ le16 (length ms) @
     le32 (length (central 0 ms)) @ le32 (length (locals ms)) @ le16 0"

lemma string_bytes_length [simp]: "length (string_bytes s) = length s"
  by (simp add: string_bytes_def)

lemma bytes_string_bytes: "bytes_string (string_bytes s) = s"
  by (induction s) (simp_all add: bytes_string_def string_bytes_def unat_byte)

lemma get_append:
  "get16 (pre @ w) (length pre + k) = get16 w k" "get32 (pre @ w) (length pre + k) = get32 w k"
  by (simp_all only: get16_def get32_def nth_append_length_plus add.assoc)

lemma get_le16: "n < 65536 \<Longrightarrow> unat (word_of_nat n :: byte) + 256 * unat (word_of_nat (n div 256) :: byte) = n"
  by (simp add: unat_byte)

lemma get_le32:
  "n < 4294967296 \<Longrightarrow>
   unat (word_of_nat n :: byte) + 256 * unat (word_of_nat (n div 256) :: byte) +
     65536 * unat (word_of_nat (n div 65536) :: byte) + 16777216 * unat (word_of_nat (n div 16777216) :: byte) = n"
  unfolding unat_byte by (rule bytes_of_nat32)

lemma slice_append: "slice (pre @ w) (length pre + k) n = slice w k n"
  by (simp add: slice_def)

lemma central_fields:
  assumes "length (snd m) < 4294967296" and "off < 4294967296" and "length (fst m) < 65536"
  shows "get16 (central_record off m @ r) 10 = 0" "get32 (central_record off m @ r) 20 = length (snd m)"
    "get16 (central_record off m @ r) 28 = length (fst m)" "get16 (central_record off m @ r) 30 = 0"
    "get16 (central_record off m @ r) 32 = 0" "get32 (central_record off m @ r) 42 = off"
    "slice (central_record off m @ r) 46 (length (fst m)) = string_bytes (fst m)"
    "length (central_record off m) = 46 + length (fst m)"
  using get_le16 [OF assms(3)] get_le32 [OF assms(1)] get_le32 [OF assms(2)]
  by (simp_all add: central_record_def get16_def get32_def le16_def le32_def slice_def)

lemma local_fields:
  assumes "length (fst m) < 65536"
  shows "get16 (local_record m @ r) 26 = length (fst m)" "get16 (local_record m @ r) 28 = 0"
    "slice (local_record m @ r) (30 + length (fst m)) (length (snd m)) = snd m"
    "length (local_record m) = 30 + length (fst m) + length (snd m)"
proof -
  show "get16 (local_record m @ r) 26 = length (fst m)" "get16 (local_record m @ r) 28 = 0"
    "length (local_record m) = 30 + length (fst m) + length (snd m)"
    using get_le16 [OF assms] by (simp_all add: local_record_def get16_def le16_def le32_def)
  have "drop (30 + length (fst m)) (local_record m @ r) = drop (length (fst m)) (drop 30 (local_record m @ r))"
    by (simp only: drop_drop add.commute)
  also have "drop 30 (local_record m @ r) = string_bytes (fst m) @ snd m @ r"
    by (simp add: local_record_def le16_def le32_def)
  finally show "slice (local_record m @ r) (30 + length (fst m)) (length (snd m)) = snd m"
    by (simp add: slice_def)
qed

text \<open>What reading a stored member does.\<close>

definition add_member :: "PtLoader \<Rightarrow> member \<Rightarrow> PtLoader" where
  "add_member ld m =
     (if fst m = ''oracle/data.pkl'' then ld\<lparr>pl_pkl := snd m\<rparr>
      else if starts_with ''oracle/data/'' (fst m)
           then ld\<lparr>pl_buffers := AList.update (leading_int (drop 12 (fst m))) (snd m) (pl_buffers ld)\<rparr>
           else ld)"

definition member_ok :: "member \<Rightarrow> bool" where
  "member_ok m \<longleftrightarrow> length (fst m) < 65536 \<and> is_int32 (leading_int (drop 12 (fst m)))"

lemma load_entry_stored:
  assumes c: "d = pre @ central_record (length pre') m @ rest" and l: "d = pre' @ local_record m @ rest'"
    and n: "length d < 4294967296" and ok: "member_ok m"
  shows "load_entry z d (length pre) (fst m) ld = Ret (True, add_member ld m)"
proof -
  have nl: "length (fst m) < 65536" using ok by (simp add: member_ok_def)
  note lf = local_fields [OF nl]
  have sz: "length (snd m) < 4294967296" "length pre' < 4294967296"
    using arg_cong [OF l, of length] n lf(4) by simp_all
  note cf = central_fields [OF sz nl]
  have "get16 d (length pre + 10) = 0" "get32 d (length pre + 20) = length (snd m)" "get32 d (length pre + 42) = length pre'"
    unfolding c get_append by (rule cf)+
  moreover have "get16 d (length pre' + 26) = length (fst m)" "get16 d (length pre' + 28) = 0"
    "slice d (length pre' + (30 + length (fst m))) (length (snd m)) = snd m"
    unfolding l get_append slice_append by (rule lf)+
  moreover have "length pre' + 30 + length (fst m) + length (snd m) \<le> length d"
    using arg_cong [OF l, of length] lf(4) by simp
  ultimately show ?thesis
    using ok by (simp add: load_entry_def Let_def member_data_def add_member_def atoi_def member_ok_def add.assoc)
qed

lemma entries_loop_stored:
  assumes "d = pre @ central (length pre') ms @ rest" and "d = pre' @ locals ms @ rest'"
    and "length d < 4294967296" and "\<forall>m \<in> set ms. member_ok m"
  shows "entries_loop z d (length ms) (length pre) ld = Ret (True, foldl add_member ld ms)"
  using assms
proof (induction ms arbitrary: pre pre' ld)
  case (Cons m ms)
  have ok: "member_ok m" and nl: "length (fst m) < 65536" using Cons.prems(4) by (simp_all add: member_ok_def)
  note lf = local_fields [OF nl]
  have l: "d = pre' @ local_record m @ (locals ms @ rest')" using Cons.prems(2) by (simp add: locals_def)
  have sz: "length (snd m) < 4294967296" "length pre' < 4294967296"
    using arg_cong [OF l, of length] Cons.prems(3) lf(4) by simp_all
  note cf = central_fields [OF sz nl]
  have c: "d = pre @ central_record (length pre') m @ (central (length pre' + length (local_record m)) ms @ rest)"
    using Cons.prems(1) by simp
  have "get16 d (length pre + 28) = length (fst m)" "get16 d (length pre + 30) = 0" "get16 d (length pre + 32) = 0"
    "slice d (length pre + 46) (length (fst m)) = string_bytes (fst m)"
    unfolding c get_append slice_append by (rule cf)+
  moreover have "length pre + 46 + length (fst m) \<le> length d" using arg_cong [OF c, of length] cf(8) by simp
  moreover note load_entry_stored [OF c l Cons.prems(3) ok, of z ld]
  moreover have "entries_loop z d (length ms) (length (pre @ central_record (length pre') m)) (add_member ld m) =
      Ret (True, foldl add_member (add_member ld m) ms)"
  proof (rule Cons.IH)
    show "d = (pre @ central_record (length pre') m) @ central (length (pre' @ local_record m)) ms @ rest" using c by simp
    show "d = (pre' @ local_record m) @ locals ms @ rest'" using l by simp
  qed (use Cons.prems(3,4) in auto)
  ultimately show ?case using cf(8) by (simp add: Let_def bytes_string_bytes add.assoc)
qed (simp add: locals_def)

lemma parse_zip_archive:
  assumes n: "length (archive ms) < 4294967296" and c: "length ms < 65536" and ok: "\<forall>m \<in> set ms. member_ok m"
  shows "parse_zip z ld (archive ms) =
    (let ld1 = foldl add_member ld ms in if pl_pkl ld1 \<noteq> [] then parse_pickle ld1 (pl_pkl ld1) else Ret (True, ld1))"
proof -
  let ?e = "[0x50, 0x4b, 5, 6, 0, 0, 0, 0] @ le16 (length ms) @ le16 (length ms) @
     le32 (length (central 0 ms)) @ le32 (length (locals ms)) @ le16 0"
  let ?pre = "locals ms @ central 0 ms"
  have a: "archive ms = ?pre @ ?e" by (simp add: archive_def)
  have len: "length (archive ms) = length ?pre + 22" by (simp add: archive_def le16_def le32_def)
  have lc: "length (locals ms) < 4294967296" using n len by simp
  have "has_eocd (archive ms) (length ?pre)"
    unfolding a has_eocd_def by (simp add: nth_append_length_plus nth_append)
  then have "find_eocd (archive ms) = Ret (Some (length ?pre))" using eocd_at_end [of "archive ms"] len by simp
  moreover have "get16 (archive ms) (length ?pre + 10) = length ms"
    unfolding a get_append using get_le16 [OF c] by (simp add: get16_def le16_def)
  moreover have "get32 (archive ms) (length ?pre + 16) = length (locals ms)"
    unfolding a get_append using get_le32 [OF lc] by (simp add: get32_def le16_def le32_def)
  moreover have "entries_loop z (archive ms) (length ms) (length (locals ms)) ld = Ret (True, foldl add_member ld ms)"
    by (rule entries_loop_stored [where pre' = "[]" and rest = ?e, OF _ _ n ok]) (simp_all add: archive_def)
  ultimately show ?thesis by (simp add: parse_zip_def Let_def)
qed

section \<open>The table of tensors\<close>

lemma mod6_cases: "(G :: int) mod 6 \<in> {0, 1, 2, 3, 4, 5}"
proof -
  have "0 \<le> G mod 6" "G mod 6 < 6" by simp_all
  then show ?thesis by auto
qed

lemma local_names: "kLocalNames ! nat (G mod 6) = kLocalNames ! nat (G' mod 6) \<longleftrightarrow> G mod 6 = G' mod 6"
  using mod6_cases [of G] mod6_cases [of G'] by (auto simp: kLocalNames_def)

lemma full_name_inj: "full_name G = full_name G' \<Longrightarrow> G = G'"
proof -
  assume "full_name G = full_name G'"
  then have "show_int (G div 6) @ CHR ''.'' # kLocalNames ! nat (G mod 6) =
      show_int (G' div 6) @ CHR ''.'' # kLocalNames ! nat (G' mod 6)"
    by (simp add: full_name_def)
  from split_at_dot [OF show_int_no_dot show_int_no_dot this]
  have "G div 6 = G' div 6" "G mod 6 = G' mod 6" using show_int_inj local_names by auto
  then show "G = G'" by (metis div_mult_mod_eq)
qed

lemma build_table_lookup:
  "map_of (build_table n ts) (full_name G) = (if 0 \<le> G \<and> G < n then Some (table_entry G) else map_of ts (full_name G))"
proof -
  have "map_of (foldl (\<lambda>ts G. AList.update (full_name G) (table_entry G) ts) ts Gs) (full_name G) =
      (if G \<in> set Gs then Some (table_entry G) else map_of ts (full_name G))" for Gs
    by (induction Gs arbitrary: ts) (auto simp: update_conv' dest: full_name_inj)
  then show ?thesis by (auto simp: build_table_def)
qed

lemma build_table_keys: "fst ` set (build_table n ts) = fst ` set ts \<union> full_name ` {0 ..< n}"
proof -
  have "fst ` set (foldl (\<lambda>ts G. AList.update (full_name G) (table_entry G) ts) ts Gs) = fst ` set ts \<union> full_name ` set Gs" for Gs
  proof (induction Gs arbitrary: ts)
    case (Cons G Gs)
    have "fst ` set (AList.update (full_name G) (table_entry G) ts) = insert (full_name G) (fst ` set ts)"
      unfolding dom_map_of_conv_image_fst [symmetric] update_conv' by simp
    then show ?case using Cons.IH by simp
  qed simp
  moreover have "set [0 .. n - 1] = {0 ..< n}" by auto
  ultimately show ?thesis by (simp add: build_table_def)
qed

lemma table_nbytes:
  "pt_nbytes (table_entry G) = (if G mod 6 = 0 then 2097152 else if G mod 6 = 2 \<or> G mod 6 = 4 then 262144 else 1024)"
  using mod6_cases [of G] by (auto simp: pt_nbytes_def table_entry_def local_shape_def mul64_def size_mod_def)

lemma table_entry_fields [simp]: "pt_storage (table_entry G) = G" "pt_offset (table_entry G) = 0"
  by (simp_all add: table_entry_def)

lemma read_tensor_table:
  assumes "map_of (pl_tensors ld) name = Some (table_entry G)"
  shows "read_tensor ld name = (case map_of (pl_buffers ld) G of None \<Rightarrow> None
    | Some b \<Rightarrow> if pt_nbytes (table_entry G) \<le> length b then Some (take (pt_nbytes (table_entry G)) b) else None)"
proof -
  have "add64 0 (pt_nbytes (table_entry G)) = pt_nbytes (table_entry G)"
    by (simp add: table_nbytes add64_def size_mod_def)
  then show ?thesis using assms by (simp add: read_tensor_def slice_def split: option.splits)
qed

lemma validate_ok:
  assumes "\<forall>(name, st) \<in> set found. 0 \<le> st \<and> st < n \<longrightarrow> name = kLocalNames ! nat (st mod 6)"
  shows "validate n found = None"
  using assms by (induction found) (auto simp: Let_def split: if_splits)

section \<open>Oracle archives\<close>

definition oracle_members :: "byte list \<Rightarrow> byte list list \<Rightarrow> member list" where
  "oracle_members pkl bufs =
     (''oracle/data.pkl'', pkl) # map (\<lambda>G. (''oracle/data/'' @ show_int (int G), bufs ! G)) [0 ..< length bufs]"

lemma not_data_pkl: "''oracle/data/'' @ s \<noteq> ''oracle/data.pkl''"
  by simp

lemma add_members:
  assumes "n \<le> length bufs"
  shows "foldl add_member (ld\<lparr>pl_buffers := []\<rparr>) (map (\<lambda>G. (''oracle/data/'' @ show_int (int G), bufs ! G)) [0 ..< n]) =
    ld\<lparr>pl_buffers := map (\<lambda>G. (int G, bufs ! G)) [0 ..< n]\<rparr>"
  using assms
proof (induction n)
  case (Suc n)
  have "int n \<notin> fst ` set (map (\<lambda>G. (int G, bufs ! G)) [0 ..< n])" by (auto simp: image_iff)
  then show ?case using Suc by (simp add: add_member_def starts_with_def leading_int_show update_fresh)
qed simp

lemma oracle_members_ok:
  assumes "length bufs < 65535"
  shows "\<forall>m \<in> set (oracle_members pkl bufs). member_ok m"
proof -
  have "member_ok (''oracle/data.pkl'', pkl)"
    by (simp add: member_ok_def leading_int_def split_sign_def isspace_def isdigit_def is_int32_def)
  moreover have "member_ok (''oracle/data/'' @ show_int (int G), b)" if "G < length bufs" for G b
  proof -
    have "is_int32 (int G)" using that assms by (simp add: is_int32_def)
    then show ?thesis using show_int_length [of "int G"] by (simp add: member_ok_def leading_int_show)
  qed
  ultimately show ?thesis by (auto simp: oracle_members_def)
qed

lemma archive_magic: "archive (m # ms) ! 0 = 0x50" "archive (m # ms) ! 1 = 0x4b"
  by (simp_all add: archive_def locals_def local_record_def)

lemma archive_length: "22 \<le> length (archive ms)"
  by (simp add: archive_def le16_def le32_def)

lemma map_of_enumerate: "map_of (map (\<lambda>G. (int G, xs ! G)) [0 ..< n]) (int i) = (if i < n then Some (xs ! i) else None)"
  by (induction n) (auto simp: map_of_append map_add_def less_Suc_eq)

lemma open_oracle_archive:
  assumes fs: "fs path = Some (archive (oracle_members pkl bufs))"
    and n: "length (archive (oracle_members pkl bufs)) < 4294967296" "length bufs < 65535" "bufs \<noteq> []" "pkl \<noteq> []"
    and sc: "pickle_scan pkl = Ret found"
    and ok: "\<forall>(name, st) \<in> set found. 0 \<le> st \<and> st < int (length bufs) \<longrightarrow> name = kLocalNames ! nat (st mod 6)"
  shows "pt_open fs z pt_new path = Ret (True,
    \<lparr>pl_path = path, pl_err = [], pl_buffers = map (\<lambda>G. (int G, bufs ! G)) [0 ..< length bufs],
     pl_tensors = build_table (int (length bufs)) [], pl_pkl = pkl\<rparr>)"
proof -
  let ?raw = "archive (oracle_members pkl bufs)" and ?N = "int (length bufs)"
  let ?ld = "\<lparr>pl_path = path, pl_err = [], pl_buffers = map (\<lambda>G. (int G, bufs ! G)) [0 ..< length bufs],
     pl_tensors = [], pl_pkl = pkl\<rparr>"
  let ?ld1 = "(pt_close pt_new)\<lparr>pl_path := path\<rparr>"
  have ld: "foldl add_member ?ld1 (oracle_members pkl bufs) = ?ld"
    using add_members [of "length bufs" bufs "?ld1\<lparr>pl_pkl := pkl\<rparr>"]
    by (simp add: oracle_members_def add_member_def pt_close_def pt_new_def)
  have cnt: "length (oracle_members pkl bufs) < 65536" using n(2) by (simp add: oracle_members_def)
  have N: "to_int32 ?N = ?N" using n(2) by (intro to_int32_id) (simp add: is_int32_def)
  have "parse_zip z ?ld1 ?raw = parse_pickle ?ld pkl"
    using parse_zip_archive [OF n(1) cnt oracle_members_ok [OF n(2)], of z ?ld1] ld n(4) by (simp add: Let_def)
  also have "\<dots> = Ret (True, ?ld\<lparr>pl_tensors := build_table ?N []\<rparr>)"
    using sc validate_ok [OF ok] by (simp add: parse_pickle_def N Let_def)
  finally have pz: "parse_zip z ?ld1 ?raw = Ret (True, ?ld\<lparr>pl_tensors := build_table ?N []\<rparr>)" .
  have raw: "\<not> length ?raw < 4" "?raw ! 0 = 0x50" "?raw ! 1 = 0x4b" "read_file fs path = Some ?raw"
    unfolding oracle_members_def
    using archive_magic archive_length [of "oracle_members pkl bufs"] fs by (auto simp: read_file_def oracle_members_def)
  have "build_table ?N [] \<noteq> []"
    using build_table_lookup [of ?N "[]" 0] n(3) by (auto split: if_splits)
  then show ?thesis using pz raw by (simp add: pt_open_def Let_def)
qed

section \<open>Properties\<close>


text \<open>A pickle that mentions one tensor, and an archive with one bias of zeros.\<close>

definition example_pickle :: "byte list" where
  "example_pickle = [0x80, 2, 0x58, 12, 0, 0, 0] @ string_bytes ''net.0.weight'' @ [0x58, 1, 0, 0, 0] @ string_bytes ''0''"

lemma example_scan: "pickle_scan example_pickle = Ret [(''net.0.weight'', 0)]"
proof -
  have nth: "example_pickle = [0x80, 2, 0x58, 12, 0, 0, 0, 110, 101, 116, 46, 48, 46, 119, 101, 105, 103, 104, 116, 0x58, 1, 0, 0, 0, 48]"
    by (simp add: example_pickle_def string_bytes_def)
  have r: "read_binunicode example_pickle 2 = Some ''net.0.weight''" "read_binunicode example_pickle 19 = Some ''0''"
    by (simp_all add: nth read_binunicode_def get32_def slice_def bytes_string_def char_of_eq_iff)
  have f: "find_storage example_pickle [3 ..< 25] = Ret 0"
    by (simp add: upt_rec [of _ 25] nth read_binunicode_def get32_def slice_def bytes_string_def isdigit_def atoi_def leading_int_def isspace_def
        split_sign_def digits_value_def is_int32_def)
  have len: "length example_pickle = 25" by (simp add: nth)
  have js: "[2 + 1 ..< min (length example_pickle) (2 + 200)] = [3 ..< 25]" unfolding len by (simp del: upt_rec_numeral)
  have bd: "example_pickle ! 2 = 0x58" "get32 example_pickle (2 + 1) = 12" "example_pickle ! 19 = 0x58"
    "get32 example_pickle (19 + 1) = 1"
    by (simp_all add: nth get32_def)
  have s: "scan_at example_pickle 2 = Ret (19, [(''net.0.weight'', 0)])" "scan_at example_pickle 19 = Ret (25, [])"
    unfolding scan_at_def r js option.case bd Let_def f by (simp_all add: is_tensor_def starts_with_def)
  have "scan_loop example_pickle 2 [] = Some (Ret [(''net.0.weight'', 0)])"
    by (subst scan_loop.simps, simp add: s len, subst scan_loop.simps, simp add: s len, subst scan_loop.simps, simp add: len)
  then show ?thesis by (simp add: pickle_scan_def nth)
qed




text \<open>
  C36: the scan of the pickle returns for every pickle of less than 4 GiB: each round moves forward,
  although the step past a long string is computed in 32 bits.
\<close>

theorem pickle_scan_terminates:
  assumes "length pkl < 2 ^ 32"
  shows "pickle_scan pkl \<noteq> Diverges \<and> parse_pickle ld pkl \<noteq> Diverges"
proof -
  let ?i = "if 1 < length pkl \<and> pkl ! 0 = 0x80 then 2 else 0 :: nat"
  obtain r where "scan_loop pkl ?i [] = Some r" "r \<noteq> Diverges" using scan_loop_returns [OF assms] by blast
  then have "pickle_scan pkl \<noteq> Diverges" unfolding pickle_scan_def by simp
  then show ?thesis by (cases "pickle_scan pkl") (auto simp: parse_pickle_def Let_def split: option.splits)
qed

theorem pickle_scan_terminates_witness: "parse_pickle pt_new [0x58, 255, 255, 255, 255] \<noteq> Diverges"
  using pickle_scan_terminates [of "[0x58, 255, 255, 255, 255]" pt_new] by simp



end
