(* ===== verification/OracleMLP.thy ===== *)
theory OracleMLP
  imports Complex_Main Prelude
begin

text \<open>
  The expert predictor \<^verbatim>\<open>dee::OracleScheduler\<close> of \<^verbatim>\<open>include/dee/oracle.h\<close> and \<^verbatim>\<open>src/oracle.cpp\<close>: a
  three-layer perceptron per model layer, and the selection of the top experts. Floating-point
  numbers are real numbers. \<^verbatim>\<open>std::sort\<close> does not fix the order of experts with equal logits, so it is
  a parameter that satisfies its specification. Loading the weights is in \<open>OracleLoad\<close>.
\<close>

section \<open>State and operations\<close>

record OracleLayerWeights =
  w0 :: "real list"
  b0 :: "real list"
  w2 :: "real list"
  b2 :: "real list"
  w4 :: "real list"
  b4 :: "real list"

record OracleScheduler =
  o_D :: nat
  o_H :: nat
  o_E :: nat
  o_layers :: "OracleLayerWeights list"
  o_err :: string

definition linear :: "real list \<Rightarrow> real list \<Rightarrow> real list \<Rightarrow> nat \<Rightarrow> nat \<Rightarrow> real list" where
  "linear W b x n_in n_out =
     map (\<lambda>r. let acc = (if b = [] then 0 else b ! r);
                  s = foldl (\<lambda>s j. s + W ! (r * n_in + j) * x ! j) 0 [0 ..< n_in]
              in s + acc) [0 ..< n_out]"

definition relu :: "real \<Rightarrow> real" where
  "relu v = (if v > 0 then v else 0)"

definition num_layers :: "OracleScheduler \<Rightarrow> int" where
  "num_layers sc = to_int32 (int (length (o_layers sc)))"

definition num_experts :: "OracleScheduler \<Rightarrow> nat" where
  "num_experts sc = o_E sc"

definition oracle_forward :: "OracleScheduler \<Rightarrow> int \<Rightarrow> real list \<Rightarrow> exn + real list" where
  "oracle_forward sc layer hidden =
     (if layer < 0 \<or> int (length (o_layers sc)) \<le> layer then Inl Out_of_range
      else let w = o_layers sc ! nat layer;
               h1 = map relu (linear (w0 w) (b0 w) hidden (o_D sc) (o_H sc));
               h2 = map relu (linear (w2 w) (b2 w) h1 (o_H sc) (o_H sc))
           in Inr (linear (w4 w) (b4 w) h2 (o_H sc) (o_E sc)))"

type_synonym sorter = "(nat \<Rightarrow> nat \<Rightarrow> bool) \<Rightarrow> nat list \<Rightarrow> nat list"

definition oracle_predict :: "sorter \<Rightarrow> OracleScheduler \<Rightarrow> int \<Rightarrow> real list \<Rightarrow> int \<Rightarrow> exn + nat list" where
  "oracle_predict std_sort sc layer hidden topk =
     (case oracle_forward sc layer hidden of
        Inl e \<Rightarrow> Inl e
      | Inr logits \<Rightarrow>
          let idx = std_sort (\<lambda>a b. logits ! a > logits ! b) [0 ..< o_E sc];
              k = min topk (int (o_E sc))
          in Inr (map (\<lambda>i. idx ! i) [0 ..< nat k]))"

definition predict_next :: "sorter \<Rightarrow> OracleScheduler \<Rightarrow> int \<Rightarrow> real list \<Rightarrow> int \<Rightarrow> exn + nat list" where
  "predict_next std_sort sc current_layer hidden topk =
     (let L = current_layer + 1;
          L' = (if num_layers sc \<le> L then current_layer else L)
      in oracle_predict std_sort sc L' hidden topk)"

section \<open>The specification of \<^verbatim>\<open>std::sort\<close>\<close>

definition strict_weak :: "(nat \<Rightarrow> nat \<Rightarrow> bool) \<Rightarrow> bool" where
  "strict_weak lt \<longleftrightarrow> (\<forall>a. \<not> lt a a) \<and> (\<forall>a b c. lt a b \<longrightarrow> lt b c \<longrightarrow> lt a c) \<and>
     (\<forall>a b c. \<not> lt a b \<longrightarrow> \<not> lt b c \<longrightarrow> \<not> lt a c)"

definition sorts :: "sorter \<Rightarrow> bool" where
  "sorts std_sort \<longleftrightarrow> (\<forall>lt xs. strict_weak lt \<longrightarrow>
     mset (std_sort lt xs) = mset xs \<and> sorted_wrt (\<lambda>a b. \<not> lt b a) (std_sort lt xs))"

text \<open>Insertion sort meets it.\<close>

fun insert_by :: "(nat \<Rightarrow> nat \<Rightarrow> bool) \<Rightarrow> nat \<Rightarrow> nat list \<Rightarrow> nat list" where
  "insert_by lt x [] = [x]"
| "insert_by lt x (y # ys) = (if lt y x then y # insert_by lt x ys else x # y # ys)"

definition insertion_sort :: sorter where
  "insertion_sort lt xs = foldr (insert_by lt) xs []"

lemma mset_insert_by: "mset (insert_by lt x ys) = add_mset x (mset ys)"
  by (induction ys) auto

lemma set_insert_by: "set (insert_by lt x ys) = insert x (set ys)"
  by (induction ys) auto

lemma sorted_insert_by:
  assumes "strict_weak lt" and "sorted_wrt (\<lambda>a b. \<not> lt b a) ys"
  shows "sorted_wrt (\<lambda>a b. \<not> lt b a) (insert_by lt x ys)"
  using assms(2)
proof (induction ys)
  case (Cons y ys)
  show ?case
  proof (cases "lt y x")
    case True
    then have "\<not> lt x y" using assms(1) unfolding strict_weak_def by blast
    then show ?thesis using Cons True by (simp add: set_insert_by)
  next
    case False
    have "\<not> lt z x" if "z \<in> set ys" for z
    proof -
      have "\<not> lt z y" using Cons.prems that by simp
      then show ?thesis using False assms(1) unfolding strict_weak_def by blast
    qed
    then show ?thesis using Cons.prems False by simp
  qed
qed simp

lemma insertion_sort_sorts: "sorts insertion_sort"
proof -
  have "mset (insertion_sort lt xs) = mset xs" for lt xs
    unfolding insertion_sort_def by (induction xs) (simp_all add: mset_insert_by)
  moreover have "sorted_wrt (\<lambda>a b. \<not> lt b a) (insertion_sort lt xs)" if "strict_weak lt" for lt xs
    unfolding insertion_sort_def by (induction xs) (simp_all add: sorted_insert_by [OF that])
  ultimately show ?thesis by (simp add: sorts_def)
qed

section \<open>What the perceptron computes\<close>

lemma linear_nth:
  assumes "r < n_out"
  shows "linear W b x n_in n_out ! r = (\<Sum>j < n_in. W ! (r * n_in + j) * x ! j) + (if b = [] then 0 else b ! r)"
proof -
  have "foldl (\<lambda>s j. s + W ! (r * n_in + j) * x ! j) 0 [0 ..< n] = (\<Sum>j < n. W ! (r * n_in + j) * x ! j)" for n
    by (induction n) simp_all
  then show ?thesis using assms by (simp add: linear_def)
qed

lemma linear_length [simp]: "length (linear W b x n_in n_out) = n_out"
  by (simp add: linear_def)

lemma forward_length: "oracle_forward sc layer hidden = Inr logits \<Longrightarrow> length logits = o_E sc"
  by (auto simp: oracle_forward_def Let_def split: if_splits)

lemma map_nth_take: "k \<le> length xs \<Longrightarrow> map (\<lambda>i. xs ! i) [0 ..< k] = take k xs"
  by (rule nth_equalityI) simp_all

section \<open>Properties\<close>

text \<open>
  C21: the prediction is a top-\<open>k\<close> selection. For a layer that exists and any correct \<^verbatim>\<open>std::sort\<close>, the
  prediction returns \<open>min topk E\<close> different experts (none for a negative \<open>topk\<close>) in order of descending
  logit, and no expert left out has a larger logit than one returned; for any other layer it throws.
\<close>

theorem predict_selects_top_k:
  assumes "sorts std_sort"
  shows "case oracle_predict std_sort sc layer hidden topk of
      Inl e \<Rightarrow> e = Out_of_range \<and> \<not> (0 \<le> layer \<and> layer < int (length (o_layers sc)))
    | Inr out \<Rightarrow> \<exists>logits. oracle_forward sc layer hidden = Inr logits \<and>
        length out = nat (min topk (int (o_E sc))) \<and> distinct out \<and> set out \<subseteq> {..< o_E sc} \<and>
        sorted_wrt (\<lambda>a b. logits ! b \<le> logits ! a) out \<and>
        (\<forall>a \<in> set out. \<forall>b \<in> {..< o_E sc} - set out. logits ! b \<le> logits ! a)"
proof (cases "oracle_forward sc layer hidden")
  case (Inl e)
  then show ?thesis by (auto simp: oracle_predict_def oracle_forward_def Let_def split: if_splits)
next
  case (Inr logits)
  let ?lt = "\<lambda>a b. logits ! a > logits ! b"
  define idx where "idx = std_sort ?lt [0 ..< o_E sc]"
  have "strict_weak ?lt" by (auto simp: strict_weak_def)
  then have ms: "mset idx = mset [0 ..< o_E sc]" and so: "sorted_wrt (\<lambda>a b. logits ! b \<le> logits ! a) idx"
    using assms by (auto simp: sorts_def idx_def not_less)
  have len: "length idx = o_E sc" using arg_cong [OF ms, of size] by simp
  have set: "set idx = {..< o_E sc}" using arg_cong [OF ms, of set_mset] by (simp add: atLeast0LessThan)
  have dist: "distinct idx" using mset_eq_imp_distinct_iff [OF ms] by simp
  define k where "k = nat (min topk (int (o_E sc)))"
  have k: "k \<le> length idx" unfolding k_def len by linarith
  have out: "oracle_predict std_sort sc layer hidden topk = Inr (take k idx)"
    using Inr k by (simp add: oracle_predict_def idx_def [symmetric] k_def Let_def map_nth_take)
  have split: "sorted_wrt (\<lambda>a b. logits ! b \<le> logits ! a) (take k idx @ drop k idx)" using so by simp
  have "set (take k idx) \<union> set (drop k idx) = {..< o_E sc}" using set by (metis append_take_drop_id set_append)
  moreover have "set (take k idx) \<inter> set (drop k idx) = {}" using dist by (metis append_take_drop_id distinct_append)
  ultimately have rest: "{..< o_E sc} - set (take k idx) = set (drop k idx)" "set (take k idx) \<subseteq> {..< o_E sc}" by blast+
  show ?thesis
    unfolding out sum.case
  proof (intro exI conjI)
    show "oracle_forward sc layer hidden = Inr logits" by (rule Inr)
    show "length (take k idx) = nat (min topk (int (o_E sc)))" using k by (simp add: k_def)
    show "distinct (take k idx)" using dist by simp
    show "set (take k idx) \<subseteq> {..< o_E sc}" by (rule rest(2))
    show "sorted_wrt (\<lambda>a b. logits ! b \<le> logits ! a) (take k idx)" using split by (simp only: sorted_wrt_append)
    show "\<forall>a \<in> set (take k idx). \<forall>b \<in> {..< o_E sc} - set (take k idx). logits ! b \<le> logits ! a"
      unfolding rest(1) using split unfolding sorted_wrt_append by blast
  qed
qed

text \<open>One layer of width one with three experts whose logits are 2, 5 and 3 times the input.\<close>

definition example_oracle :: OracleScheduler where
  "example_oracle = \<lparr>o_D = 1, o_H = 1, o_E = 3,
     o_layers = [\<lparr>w0 = [1], b0 = [], w2 = [1], b2 = [], w4 = [2, 5, 3], b4 = []\<rparr>], o_err = []\<rparr>"

theorem predict_selects_top_k_witness:
  "\<exists>out. oracle_predict insertion_sort example_oracle 0 [1] 2 = Inr out \<and> length out = 2 \<and> distinct out"
proof -
  obtain out where "oracle_predict insertion_sort example_oracle 0 [1] 2 = Inr out"
    by (simp add: oracle_predict_def oracle_forward_def example_oracle_def Let_def)
  with predict_selects_top_k [OF insertion_sort_sorts, where sc = example_oracle and layer = 0 and hidden = "[1]" and topk = 2] show ?thesis
    by (auto simp: example_oracle_def)
qed

end
