(* ===== verification/OracleLoad.thy ===== *)
theory OracleLoad
  imports PtLoader OracleMLP
begin

text \<open>
  \<^verbatim>\<open>OracleScheduler::load\<close> of \<^verbatim>\<open>src/oracle.cpp\<close>: the perceptron's weights from a PyTorch archive, and
  what the loaded weights have to do with the dimensions that the forward pass assumes.
\<close>

section \<open>Loading\<close>

definition layer_base :: "nat \<Rightarrow> string" where
  "layer_base l = ''layers.'' @ show_int (int l) @ ''.''"

lemma layer_base_inj: "layer_base l @ s = layer_base l' @ s \<Longrightarrow> l = l'"
  by (auto simp: layer_base_def dest: show_int_inj)

text \<open>\<^verbatim>\<open>while (tensors().count(...)) ++L\<close>.\<close>

function count_layers :: "(string \<times> PtTensor) list \<Rightarrow> nat \<Rightarrow> nat" where
  "count_layers ts L =
     (if layer_base L @ ''net.0.weight'' \<in> fst ` set ts then count_layers ts (Suc L) else L)"
  by pat_completeness auto
termination
proof (relation "measure (\<lambda>(ts, L). card {l. L \<le> l \<and> layer_base l @ ''net.0.weight'' \<in> fst ` set ts})")
  fix ts :: "(string \<times> PtTensor) list" and L
  let ?S = "\<lambda>L. {l. L \<le> l \<and> layer_base l @ ''net.0.weight'' \<in> fst ` set ts}"
  assume "layer_base L @ ''net.0.weight'' \<in> fst ` set ts"
  then have "L \<in> ?S L" by simp
  moreover have "?S (Suc L) = ?S L - {L}" by auto
  moreover have "finite (?S L)"
  proof (rule finite_imageD)
    show "finite ((\<lambda>l. layer_base l @ ''net.0.weight'') ` ?S L)" by (rule finite_subset [of _ "fst ` set ts"]) auto
    show "inj_on (\<lambda>l. layer_base l @ ''net.0.weight'') (?S L)" by (rule inj_onI) (erule layer_base_inj)
  qed
  ultimately have "card (?S (Suc L)) < card (?S L)" using card_Diff1_less [of "?S L" L] by presburger
  then show "((ts, Suc L), ts, L) \<in> measure (\<lambda>(ts, L). card {l. L \<le> l \<and> layer_base l @ ''net.0.weight'' \<in> fst ` set ts})"
    by (simp only: in_measure case_prod_conv)
qed simp

declare count_layers.simps [simp del]

text \<open>The six reads of a layer; the first failure ends the load.\<close>

definition read_layer :: "PtLoader \<Rightarrow> nat \<Rightarrow> OracleLayerWeights option" where
  "read_layer loader l =
     (let rd = (\<lambda>local. read_tensor_vec loader (layer_base l @ local))
      in case (rd ''net.0.weight'', rd ''net.0.bias'', rd ''net.2.weight'', rd ''net.2.bias'', rd ''net.4.weight'', rd ''net.4.bias'') of
           (Some x0, Some y0, Some x2, Some y2, Some x4, Some y4) \<Rightarrow>
             Some \<lparr>w0 = x0, b0 = y0, w2 = x2, b2 = y2, w4 = x4, b4 = y4\<rparr>
         | _ \<Rightarrow> None)"

fun load_layers :: "PtLoader \<Rightarrow> nat list \<Rightarrow> OracleScheduler \<Rightarrow> bool \<times> OracleScheduler" where
  "load_layers loader [] sc = (True, sc)"
| "load_layers loader (l # ls) sc =
     (case read_layer loader l of
        None \<Rightarrow> (False, sc\<lparr>o_err := ''missing tensor for layer '' @ show_int (int l)\<rparr>)
      | Some w \<Rightarrow> load_layers loader ls (sc\<lparr>o_layers := (o_layers sc)[l := w]\<rparr>))"

definition no_weights :: OracleLayerWeights where
  "no_weights = \<lparr>w0 = [], b0 = [], w2 = [], b2 = [], w4 = [], b4 = []\<rparr>"

definition oracle_load ::
  "files \<Rightarrow> 'z Zlib \<Rightarrow> OracleScheduler \<Rightarrow> string \<Rightarrow> nat \<Rightarrow> nat \<Rightarrow> nat \<Rightarrow> (bool \<times> OracleScheduler) outcome" where
  "oracle_load fs z sc oracle_pt_path D H E =
     (let sc1 = sc\<lparr>o_D := D, o_H := H, o_E := E\<rparr>
      in bind_out (pt_open fs z pt_new oracle_pt_path) (\<lambda>(ok, loader).
           if \<not> ok then Ret (False, sc1\<lparr>o_err := ''PtLoader: '' @ pl_err loader\<rparr>)
           else let L = count_layers (pl_tensors loader) 0
                in if L = 0 then Ret (False, sc1\<lparr>o_err := ''no layers found in oracle.pt''\<rparr>)
                   else Ret (load_layers loader [0 ..< L]
                          (sc1\<lparr>o_layers := take L (o_layers sc1 @ replicate L no_weights)\<rparr>))))"

section \<open>Typing of weights\<close>

text \<open>The lengths that the forward pass assumes for the dimensions of the scheduler.\<close>

definition weights_typed :: "nat \<Rightarrow> nat \<Rightarrow> nat \<Rightarrow> OracleLayerWeights \<Rightarrow> bool" where
  "weights_typed D H E w \<longleftrightarrow> length (w0 w) = H * D \<and> length (b0 w) = H \<and> length (w2 w) = H * H \<and> length (b2 w) = H \<and>
     length (w4 w) = E * H \<and> length (b4 w) = E"

definition oracle_typed :: "OracleScheduler \<Rightarrow> bool" where
  "oracle_typed sc \<longleftrightarrow> (\<forall>w \<in> set (o_layers sc). weights_typed (o_D sc) (o_H sc) (o_E sc) w)"

text \<open>Whether every element that \<^verbatim>\<open>linear\<close> and \<^verbatim>\<open>forward\<close> read exists.\<close>

definition linear_in_bounds :: "real list \<Rightarrow> real list \<Rightarrow> real list \<Rightarrow> nat \<Rightarrow> nat \<Rightarrow> bool" where
  "linear_in_bounds W b x n_in n_out \<longleftrightarrow>
     (\<forall>r < n_out. (b = [] \<or> r < length b) \<and> (\<forall>j < n_in. r * n_in + j < length W \<and> j < length x))"

definition forward_in_bounds :: "OracleScheduler \<Rightarrow> nat \<Rightarrow> real list \<Rightarrow> bool" where
  "forward_in_bounds sc layer hidden \<longleftrightarrow>
     (let w = o_layers sc ! layer;
          h1 = map relu (linear (w0 w) (b0 w) hidden (o_D sc) (o_H sc));
          h2 = map relu (linear (w2 w) (b2 w) h1 (o_H sc) (o_H sc))
      in linear_in_bounds (w0 w) (b0 w) hidden (o_D sc) (o_H sc) \<and>
         linear_in_bounds (w2 w) (b2 w) h1 (o_H sc) (o_H sc) \<and>
         linear_in_bounds (w4 w) (b4 w) h2 (o_H sc) (o_E sc))"

lemma linear_in_boundsI:
  assumes "length W = n_out * n_in" and "length b = n_out" and "length x = n_in"
  shows "linear_in_bounds W b x n_in n_out"
proof -
  have "r * n_in + j < n_out * n_in" if "r < n_out" "j < n_in" for r j
  proof -
    have "r * n_in + j < Suc r * n_in" using that by simp
    also have "\<dots> \<le> n_out * n_in" using that by (intro mult_right_mono) simp_all
    finally show ?thesis .
  qed
  then show ?thesis using assms by (simp add: linear_in_bounds_def)
qed

lemma typed_in_bounds:
  assumes "oracle_typed sc" and "layer < length (o_layers sc)" and "length hidden = o_D sc"
  shows "forward_in_bounds sc layer hidden"
proof -
  have "weights_typed (o_D sc) (o_H sc) (o_E sc) (o_layers sc ! layer)" using assms(1,2) by (simp add: oracle_typed_def)
  then show ?thesis
    using assms(3) unfolding forward_in_bounds_def Let_def weights_typed_def by (intro conjI linear_in_boundsI) simp_all
qed

section \<open>What the loader's table gives\<close>

lemma case_Member_Ret [ret_iff]:
  "(case r of Inflated bs \<Rightarrow> f bs | Unsupported \<Rightarrow> u | Inflate_failed \<Rightarrow> v) = Ret y \<longleftrightarrow>
   (\<exists>bs. r = Inflated bs \<and> f bs = Ret y) \<or> r = Unsupported \<and> u = Ret y \<or> r = Inflate_failed \<and> v = Ret y"
  by (cases r) simp_all

lemma load_entry_tensors: "load_entry z d p name ld = Ret (ok, ld') \<Longrightarrow> pl_tensors ld' = pl_tensors ld"
  by (auto simp: load_entry_def Let_def ret_iff split: if_splits)

lemma entries_loop_tensors: "entries_loop z d e p ld = Ret (ok, ld') \<Longrightarrow> pl_tensors ld' = pl_tensors ld"
  by (induction e arbitrary: p ld) (auto simp: Let_def ret_iff dest: load_entry_tensors split: if_splits)

lemma pt_open_tensors:
  assumes "pt_open fs z ld path = Ret (True, ld')"
  shows "\<exists>n. pl_tensors ld' = build_table n []"
proof -
  let ?ld = "(pt_close ld)\<lparr>pl_path := path\<rparr>"
  have base: "pl_tensors ?ld = []" by (simp add: pt_close_def)
  obtain raw where "parse_zip z ?ld raw = Ret (True, ld')" "pl_tensors ld' \<noteq> []"
    using assms by (auto simp: pt_open_def Let_def ret_iff split: option.splits if_splits)
  then obtain e p ld1 where "entries_loop z raw e p ?ld = Ret (True, ld1)"
    and pk: "if pl_pkl ld1 \<noteq> [] then parse_pickle ld1 (pl_pkl ld1) = Ret (True, ld') else ld' = ld1"
    and ne: "pl_tensors ld' \<noteq> []"
    by (auto simp: parse_zip_def ret_iff split: option.splits if_splits prod.splits)
  then have t: "pl_tensors ld1 = []" using entries_loop_tensors base by metis
  then have "parse_pickle ld1 (pl_pkl ld1) = Ret (True, ld')" using pk ne by (auto split: if_splits)
  then show ?thesis using t by (auto simp: parse_pickle_def ret_iff Let_def split: option.splits)
qed

lemma layer_base_full: "i < 6 \<Longrightarrow> layer_base l @ kLocalNames ! i = full_name (6 * int l + int i)"
  by (simp add: layer_base_def full_name_def)

lemma kLocalNames_nth:
  "kLocalNames ! 0 = ''net.0.weight''" "kLocalNames ! 1 = ''net.0.bias''" "kLocalNames ! 2 = ''net.2.weight''"
  "kLocalNames ! 3 = ''net.2.bias''" "kLocalNames ! 4 = ''net.4.weight''" "kLocalNames ! 5 = ''net.4.bias''"
  by (simp_all add: kLocalNames_def)

lemma read_vec_length:
  assumes "pl_tensors ld = build_table n []" and "i < 6" and "read_tensor_vec ld (layer_base l @ kLocalNames ! i) = Some xs"
  shows "length xs = [524288, 256, 65536, 256, 65536, 256] ! i"
proof -
  let ?G = "6 * int l + int i"
  have "map_of (pl_tensors ld) (full_name ?G) = Some (table_entry ?G)"
    using assms build_table_lookup [of n "[]" ?G] unfolding layer_base_full [OF assms(2)]
    by (auto simp: read_tensor_vec_def split: option.splits if_splits)
  then have "length xs = pt_nbytes (table_entry ?G) div 4"
    using assms(3) unfolding layer_base_full [OF assms(2)] by (auto simp: read_tensor_vec_def)
  moreover have "i \<in> {0, 1, 2, 3, 4, 5}" using assms(2) by auto
  ultimately show ?thesis using assms(2) by (auto simp: table_nbytes)
qed

lemma read_layer_typed:
  assumes "pl_tensors ld = build_table n []" and "read_layer ld l = Some w"
  shows "weights_typed 2048 256 256 w"
proof -
  note len = read_vec_length [OF assms(1), where l = l]
  have ls: "read_tensor_vec ld (layer_base l @ ''net.0.weight'') = Some xs \<Longrightarrow> length xs = 524288"
    "read_tensor_vec ld (layer_base l @ ''net.0.bias'') = Some xs \<Longrightarrow> length xs = 256"
    "read_tensor_vec ld (layer_base l @ ''net.2.weight'') = Some xs \<Longrightarrow> length xs = 65536"
    "read_tensor_vec ld (layer_base l @ ''net.2.bias'') = Some xs \<Longrightarrow> length xs = 256"
    "read_tensor_vec ld (layer_base l @ ''net.4.weight'') = Some xs \<Longrightarrow> length xs = 65536"
    "read_tensor_vec ld (layer_base l @ ''net.4.bias'') = Some xs \<Longrightarrow> length xs = 256" for xs
    using len [of 0 xs] len [of 1 xs, unfolded kLocalNames_nth] len [of 2 xs] len [of 3 xs] len [of 4 xs] len [of 5 xs]
    by (simp_all add: kLocalNames_nth)
  show ?thesis
    using assms(2) by (auto simp: read_layer_def Let_def weights_typed_def split: option.splits dest: ls)
qed

lemma load_layers_typed:
  assumes "pl_tensors ld = build_table n []" and "load_layers ld ls sc = (True, sc')"
  shows "length (o_layers sc') = length (o_layers sc) \<and> o_D sc' = o_D sc \<and> o_H sc' = o_H sc \<and> o_E sc' = o_E sc \<and>
    (\<forall>i < length (o_layers sc). i \<in> set ls \<or> weights_typed 2048 256 256 (o_layers sc ! i) \<longrightarrow> weights_typed 2048 256 256 (o_layers sc' ! i))"
  using assms(2)
proof (induction ls arbitrary: sc)
  case (Cons l ls)
  then obtain w where w: "read_layer ld l = Some w" by (auto split: option.splits)
  note t = read_layer_typed [OF assms(1) w]
  have "load_layers ld ls (sc\<lparr>o_layers := (o_layers sc)[l := w]\<rparr>) = (True, sc')" using Cons.prems w by simp
  note IH = Cons.IH [OF this]
  have "weights_typed 2048 256 256 (o_layers sc' ! i)"
    if "i < length (o_layers sc)" "i = l \<or> i \<in> set ls \<or> weights_typed 2048 256 256 (o_layers sc ! i)" for i
    using IH that t by (cases "i = l") auto
  then show ?case using IH by auto
qed simp

section \<open>Complete archives\<close>

definition tensor_bytes :: "nat \<Rightarrow> nat" where
  "tensor_bytes G = (if G mod 6 = 0 then 2097152 else if G mod 6 = 2 \<or> G mod 6 = 4 then 262144 else 1024)"

lemma count_layers_table:
  assumes "L \<le> n"
  shows "count_layers (build_table (6 * int n) []) L = n"
  using assms
proof (induction "n - L" arbitrary: L)
  case 0
  have "layer_base L @ ''net.0.weight'' = full_name (6 * int L)" using layer_base_full [of 0 L] by (simp add: kLocalNames_nth)
  then have "layer_base L @ ''net.0.weight'' \<notin> fst ` set (build_table (6 * int n) [])"
    using 0 build_table_keys [of "6 * int n" "[]"] by (auto dest: full_name_inj)
  then show ?case using 0 by (simp add: count_layers.simps)
next
  case (Suc k)
  have "layer_base L @ ''net.0.weight'' = full_name (6 * int L)" using layer_base_full [of 0 L] by (simp add: kLocalNames_nth)
  then have "layer_base L @ ''net.0.weight'' \<in> fst ` set (build_table (6 * int n) [])"
    using Suc.hyps(2) build_table_keys [of "6 * int n" "[]"] by auto
  moreover have "count_layers (build_table (6 * int n) []) (Suc L) = n" using Suc.hyps by (intro Suc.hyps(1)) linarith+
  ultimately show ?case by (simp add: count_layers.simps [of _ L])
qed

lemma read_layer_table:
  assumes t: "pl_tensors ld = build_table (6 * int n) []"
    and b: "\<forall>G < 6 * n. \<exists>b. map_of (pl_buffers ld) (int G) = Some b \<and> tensor_bytes G \<le> length b" and l: "l < n"
  shows "read_layer ld l \<noteq> None"
proof -
  have rd: "\<exists>xs. read_tensor_vec ld (layer_base l @ kLocalNames ! i) = Some xs" if i: "i < 6" for i
  proof -
    let ?G = "6 * l + i"
    have G: "6 * int l + int i = int ?G" by simp
    have m: "map_of (pl_tensors ld) (full_name (int ?G)) = Some (table_entry (int ?G))"
      using l i build_table_lookup [of "6 * int n" "[]" "int ?G"] t by simp
    have "?G < 6 * n" using l i by simp
    then obtain bs where bs: "map_of (pl_buffers ld) (int ?G) = Some bs" "tensor_bytes ?G \<le> length bs" using b by blast
    have "int ?G mod 6 = int (?G mod 6)" by (simp add: zmod_int)
    then have "pt_nbytes (table_entry (int ?G)) = tensor_bytes ?G" by (simp add: table_nbytes tensor_bytes_def)
    then show ?thesis
      unfolding layer_base_full [OF i] G using m bs read_tensor_table [OF m] by (simp add: read_tensor_vec_def)
  qed
  show ?thesis
    using rd [of 0] rd [of 1, unfolded kLocalNames_nth] rd [of 2] rd [of 3] rd [of 4] rd [of 5]
    by (auto simp: kLocalNames_nth read_layer_def Let_def)
qed

lemma load_layers_all: "\<forall>l \<in> set ls. read_layer ld l \<noteq> None \<Longrightarrow>
    \<exists>sc'. load_layers ld ls sc = (True, sc') \<and> length (o_layers sc') = length (o_layers sc)"
  by (induction ls arbitrary: sc) (auto split: option.splits, metis length_list_update OracleScheduler.select_convs(4) OracleScheduler.update_convs(4) OracleScheduler.surjective)

lemma load_complete_archive:
  assumes "fs path = Some (archive (oracle_members pkl bufs))"
    and "length (archive (oracle_members pkl bufs)) < 4294967296" "length bufs < 65535" "bufs \<noteq> []" "pkl \<noteq> []"
    and "pickle_scan pkl = Ret found"
    and "\<forall>(name, st) \<in> set found. 0 \<le> st \<and> st < int (length bufs) \<longrightarrow> name = kLocalNames ! nat (st mod 6)"
    and n: "length bufs = 6 * n" and b: "\<forall>G < 6 * n. tensor_bytes G \<le> length (bufs ! G)"
  shows "\<exists>sc'. oracle_load fs z sc path D H E = Ret (True, sc') \<and> length (o_layers sc') = n"
proof -
  let ?ld = "\<lparr>pl_path = path, pl_err = [], pl_buffers = map (\<lambda>G. (int G, bufs ! G)) [0 ..< length bufs],
     pl_tensors = build_table (int (length bufs)) [], pl_pkl = pkl\<rparr>"
  have o: "pt_open fs z pt_new path = Ret (True, ?ld)" by (rule open_oracle_archive [where fs = fs and path = path, OF assms(1-7)])
  have c: "count_layers (pl_tensors ?ld) 0 = n" using count_layers_table [of 0 n] n by simp
  have "\<forall>G < 6 * n. \<exists>b. map_of (pl_buffers ?ld) (int G) = Some b \<and> tensor_bytes G \<le> length b"
    using b n map_of_enumerate [of bufs "length bufs"] by simp
  then have "\<forall>l \<in> set [0 ..< n]. read_layer ?ld l \<noteq> None"
    using read_layer_table [of ?ld n] n by simp
  note load_layers_all [OF this, of "sc\<lparr>o_D := D, o_H := H, o_E := E, o_layers := take n (o_layers sc @ replicate n no_weights)\<rparr>"]
  moreover have "n \<noteq> 0" using n assms(4) by (intro notI) simp
  ultimately show ?thesis using o c n by (auto simp: oracle_load_def Let_def)
qed

lemma oracle_load_weights:
  assumes "oracle_load fs z sc path D H E = Ret (True, sc')"
  shows "o_D sc' = D" "o_H sc' = H" "o_E sc' = E" "o_layers sc' \<noteq> []"
    "\<forall>i < length (o_layers sc'). weights_typed 2048 256 256 (o_layers sc' ! i)"
proof -
  obtain ld where o: "pt_open fs z pt_new path = Ret (True, ld)" and L: "count_layers (pl_tensors ld) 0 \<noteq> 0"
    and l: "load_layers ld [0 ..< count_layers (pl_tensors ld) 0] (sc\<lparr>o_D := D, o_H := H, o_E := E,
      o_layers := take (count_layers (pl_tensors ld) 0) (o_layers sc @ replicate (count_layers (pl_tensors ld) 0) no_weights)\<rparr>) = (True, sc')"
    using assms by (auto simp: oracle_load_def Let_def ret_iff split: if_splits)
  obtain n where "pl_tensors ld = build_table n []" using pt_open_tensors [OF o] by blast
  note t = load_layers_typed [OF this l]
  show "o_D sc' = D" "o_H sc' = H" "o_E sc' = E" using t by simp_all
  have "length (o_layers sc') = count_layers (pl_tensors ld) 0" using t by simp
  then show "o_layers sc' \<noteq> []" using L by auto
  show "\<forall>i < length (o_layers sc'). weights_typed 2048 256 256 (o_layers sc' ! i)" using t by simp
qed

section \<open>Properties\<close>


definition example_buffers :: "byte list list" where
  "example_buffers = map (\<lambda>G. replicate (tensor_bytes G) 0) [0 ..< 6]"

definition example_files :: files where
  "example_files = (\<lambda>_. Some (archive (oracle_members example_pickle example_buffers)))"

definition no_zlib :: "unit Zlib" where
  "no_zlib = \<lparr>z_init = \<lambda>_. None, z_inflate = \<lambda>zs _. (Z_FAILED, [], zs)\<rparr>"

lemma example_oracle_one_layer: "\<exists>sc'. oracle_load example_files z sc path D H E = Ret (True, sc') \<and> length (o_layers sc') = 1"
proof -
  have six: "[0 ..< 6] = [0, 1, 2, 3, 4, 5 :: nat]" by (simp add: upt_rec)
  have a: "length (archive (oracle_members example_pickle example_buffers)) < 4294967296"
    by (simp add: archive_def locals_def local_record_def central_record_def le16_def le32_def oracle_members_def
        example_pickle_def example_buffers_def six tensor_bytes_def show_int_def show_nat.simps)
  have b: "length example_buffers < 65535" "example_buffers \<noteq> []" "example_pickle \<noteq> []" "length example_buffers = 6 * 1"
    by (simp_all add: example_buffers_def six example_pickle_def)
  have c: "\<forall>(name, st) \<in> set [(''net.0.weight'', 0)]. 0 \<le> st \<and> st < int (length example_buffers) \<longrightarrow> name = kLocalNames ! nat (st mod 6)"
    by (simp add: kLocalNames_def)
  have d: "\<forall>G < 6 * 1. tensor_bytes G \<le> length (example_buffers ! G)" by (simp add: example_buffers_def)
  show ?thesis
    using load_complete_archive [where fs = example_files and path = path, OF _ a b(1-3) example_scan c b(4) d]
    by (fastforce simp: example_files_def)
qed

lemma example_oracle_loads: "\<exists>sc'. oracle_load example_files z sc path D H E = Ret (True, sc')"
  using example_oracle_one_layer by blast


end
