(* ===== verification/Kernels.thy ===== *)
theory Kernels
  imports Complex_Main Prelude
begin

text \<open>
  The arithmetic kernels: the expert MLP of \<^verbatim>\<open>src/moe_forward.cpp\<close>, the engine's CPU kernel
  \<^verbatim>\<open>Engine::swiglu\<close> of \<^verbatim>\<open>src/engine.cpp\<close> and the CUDA kernels of \<^verbatim>\<open>src/swiglu_cuda.cu\<close>.
  Floating-point numbers are modelled as real numbers: rounding is not. Arrays are lists, a pointer
  into an array is an offset; loops are folds over their index range. A kernel launch runs its
  threads one after the other; each thread writes its own element.
\<close>

section \<open>\<^verbatim>\<open>moe_forward.cpp\<close>\<close>

definition silu :: "real \<Rightarrow> real" where
  "silu z = z / (1 + exp (- z))"

definition matvec :: "real list \<Rightarrow> nat \<Rightarrow> real list \<Rightarrow> nat \<Rightarrow> nat \<Rightarrow> real list" where
  "matvec W off x rows cols =
     map (\<lambda>r. foldl (\<lambda>s c. s + W ! (off + r * cols + c) * x ! c) 0 [0 ..< cols]) [0 ..< rows]"

definition expert_mlp :: "real list \<Rightarrow> nat \<Rightarrow> nat \<Rightarrow> real list \<Rightarrow> real list \<Rightarrow> real list" where
  "expert_mlp x hidden intr gate_up down =
     (let gate = matvec gate_up 0 x intr hidden;
          up = matvec gate_up (intr * hidden) x intr hidden;
          act = map (\<lambda>i. silu (gate ! i) * up ! i) [0 ..< intr]
      in matvec down 0 act hidden intr)"

section \<open>\<^verbatim>\<open>Engine::swiglu\<close>\<close>

definition swiglu_step :: "real list \<Rightarrow> real list \<Rightarrow> nat \<Rightarrow> nat \<Rightarrow> real list \<Rightarrow> nat \<Rightarrow> real list" where
  "swiglu_step blob x intr hidden acc i =
     (let (g, f) = foldl (\<lambda>(g, f) j. (g + blob ! (i * hidden + j) * x ! j,
                                       f + blob ! (intr * hidden + i * hidden + j) * x ! j))
                     (0, 0) [0 ..< hidden];
          s = g / (1 + exp (- g));
          h = s * f
      in map (\<lambda>k. acc ! k + blob ! (2 * (intr * hidden) + i * hidden + k) * h) [0 ..< hidden])"

definition swiglu :: "real list \<Rightarrow> real list \<Rightarrow> nat \<Rightarrow> nat \<Rightarrow> real list \<Rightarrow> real list" where
  "swiglu blob x intr hidden acc = foldl (swiglu_step blob x intr hidden) acc [0 ..< intr]"

section \<open>\<^verbatim>\<open>swiglu_cuda.cu\<close>\<close>

definition grid :: "nat \<Rightarrow> nat" where
  "grid n = (n + 255) div 256"

text \<open>A launch of \<open>grid n\<close> blocks of 256 threads; a thread beyond the range returns at once.\<close>

definition launch :: "nat \<Rightarrow> (nat \<Rightarrow> 'a) \<Rightarrow> 'a list \<Rightarrow> 'a list" where
  "launch n f buf = foldl (\<lambda>b t. if n \<le> t then b else b[t := f t]) buf [0 ..< grid n * 256]"

definition swiglu_h_kernel :: "real list \<Rightarrow> real list \<Rightarrow> nat \<Rightarrow> nat \<Rightarrow> nat \<Rightarrow> real" where
  "swiglu_h_kernel W x intr hidden i =
     (let (g, f) = foldl (\<lambda>(g, f) j. (g + W ! (i * hidden + j) * x ! j,
                                       f + W ! (intr * hidden + i * hidden + j) * x ! j))
                     (0, 0) [0 ..< hidden];
          s = g / (1 + exp g)
      in s * f)"

definition swiglu_y_kernel :: "real list \<Rightarrow> real list \<Rightarrow> nat \<Rightarrow> nat \<Rightarrow> nat \<Rightarrow> real" where
  "swiglu_y_kernel W h intr hidden out_idx =
     foldl (\<lambda>acc i. acc + W ! (2 * (intr * hidden) + out_idx * intr + i) * h ! i) 0 [0 ..< intr]"

definition combine_kernel :: "real list \<Rightarrow> nat \<Rightarrow> nat \<Rightarrow> nat \<Rightarrow> real" where
  "combine_kernel ybuf K hidden out_idx =
     foldl (\<lambda>s e. s + ybuf ! (e * hidden + out_idx)) 0 [0 ..< K] / real K"

definition swiglu_expert_cuda :: "real list \<Rightarrow> real list \<Rightarrow> real list \<Rightarrow> real list \<Rightarrow> nat \<Rightarrow> nat \<Rightarrow> real list \<times> real list" where
  "swiglu_expert_cuda d_W d_x d_hbuf d_y intr hidden =
     (let hbuf = launch intr (swiglu_h_kernel d_W d_x intr hidden) d_hbuf
      in (hbuf, launch hidden (swiglu_y_kernel d_W hbuf intr hidden) d_y))"

definition combine_cuda :: "real list \<Rightarrow> real list \<Rightarrow> nat \<Rightarrow> nat \<Rightarrow> real list" where
  "combine_cuda d_ybuf d_out K hidden = launch hidden (combine_kernel d_ybuf K hidden) d_out"

section \<open>What the kernels compute\<close>

text \<open>The reference: a row of a row-major matrix times a vector, and SwiGLU with either layout of \<^verbatim>\<open>down\<close>.\<close>

definition row_dot :: "real list \<Rightarrow> nat \<Rightarrow> real list \<Rightarrow> nat \<Rightarrow> real" where
  "row_dot W off x cols = (\<Sum>c < cols. W ! (off + c) * x ! c)"

definition act_of :: "real list \<Rightarrow> real list \<Rightarrow> nat \<Rightarrow> nat \<Rightarrow> nat \<Rightarrow> real" where
  "act_of W x intr hidden i = silu (row_dot W (i * hidden) x hidden) * row_dot W (intr * hidden + i * hidden) x hidden"

lemma foldl_sum: "foldl (\<lambda>s c. s + f c) a [0 ..< n] = a + (\<Sum>c < n. f c)" for a :: real
  by (induction n) (simp_all add: add.assoc)

lemma foldl_sum_pair:
  "foldl (\<lambda>(g, f) j. (g + p j, f + q j)) (a, b) [0 ..< n] = (a + (\<Sum>j < n. p j), b + (\<Sum>j < n. q j))" for a b :: real
  by (induction n) (simp_all add: add.assoc)

lemma matvec_nth: "r < rows \<Longrightarrow> matvec W off x rows cols ! r = row_dot W (off + r * cols) x cols"
  by (simp add: matvec_def foldl_sum row_dot_def)

lemma matvec_length [simp]: "length (matvec W off x rows cols) = rows"
  by (simp add: matvec_def)

lemma expert_mlp_nth:
  assumes "k < hidden"
  shows "expert_mlp x hidden intr gate_up down ! k = (\<Sum>i < intr. down ! (k * intr + i) * act_of gate_up x intr hidden i)"
proof -
  have "(\<Sum>c < intr. down ! (k * intr + c) *
      map (\<lambda>i. silu (matvec gate_up 0 x intr hidden ! i) * matvec gate_up (intr * hidden) x intr hidden ! i) [0 ..< intr] ! c) =
    (\<Sum>i < intr. down ! (k * intr + i) * act_of gate_up x intr hidden i)"
    by (intro sum.cong) (simp_all add: matvec_nth act_of_def)
  then show ?thesis using assms by (simp add: expert_mlp_def matvec_nth row_dot_def [of down])
qed

lemma swiglu_step_nth:
  assumes "k < hidden"
  shows "swiglu_step blob x intr hidden acc i ! k =
    acc ! k + blob ! (2 * (intr * hidden) + i * hidden + k) * act_of blob x intr hidden i"
  using assms by (simp add: swiglu_step_def foldl_sum_pair act_of_def silu_def row_dot_def)

lemma swiglu_step_length [simp]: "length (swiglu_step blob x intr hidden acc i) = hidden"
  by (simp add: swiglu_step_def case_prod_unfold Let_def)

lemma swiglu_nth:
  assumes "k < hidden" and "length acc = hidden"
  shows "swiglu blob x intr hidden acc ! k =
      acc ! k + (\<Sum>i < intr. blob ! (2 * (intr * hidden) + i * hidden + k) * act_of blob x intr hidden i)"
    and "length (swiglu blob x intr hidden acc) = hidden"
proof -
  have "foldl (swiglu_step blob x intr hidden) acc [0 ..< n] ! k =
      acc ! k + (\<Sum>i < n. blob ! (2 * (intr * hidden) + i * hidden + k) * act_of blob x intr hidden i) \<and>
      length (foldl (swiglu_step blob x intr hidden) acc [0 ..< n]) = hidden" for n
    using assms by (induction n) (simp_all add: swiglu_step_nth)
  then show "swiglu blob x intr hidden acc ! k =
      acc ! k + (\<Sum>i < intr. blob ! (2 * (intr * hidden) + i * hidden + k) * act_of blob x intr hidden i)"
    "length (swiglu blob x intr hidden acc) = hidden" by (simp_all add: swiglu_def)
qed

text \<open>Transposing a row-major matrix.\<close>

definition transpose_flat :: "nat \<Rightarrow> nat \<Rightarrow> real list \<Rightarrow> real list" where
  "transpose_flat rows cols W = map (\<lambda>k. W ! (k mod rows * cols + k div rows)) [0 ..< cols * rows]"

lemma transpose_flat_nth:
  assumes "r < rows" "c < cols"
  shows "transpose_flat rows cols W ! (c * rows + r) = W ! (r * cols + c)"
proof -
  have "c * rows + r < cols * rows"
    using assms by (metis mult_le_mono1 Suc_leI add_less_mono1 mult_Suc add.commute less_le_trans nat_add_left_cancel_less)
  then show ?thesis using assms by (simp add: transpose_flat_def)
qed

lemma launch_eq:
  assumes "length buf = n"
  shows "launch n f buf = map f [0 ..< n]"
proof -
  have go: "foldl (\<lambda>b t. if n \<le> t then b else b[t := f t]) buf [0 ..< m] =
      map f [0 ..< min m n] @ drop m buf" for m
  proof (induction m)
    case (Suc m)
    show ?case
    proof (cases "m < n")
      case True
      then have "drop m buf = buf ! m # drop (Suc m) buf" using assms by (simp add: Cons_nth_drop_Suc)
      then show ?thesis using True Suc by (simp add: list_update_append min_def)
    next
      case False
      then show ?thesis using Suc assms by (simp add: min_def)
    qed
  qed simp
  have "n \<le> grid n * 256" by (simp add: grid_def) 
  then show ?thesis using go [of "grid n * 256"] assms by (simp add: launch_def min_absorb2)
qed

lemma act_of_append:
  assumes "length gate_up = 2 * (intr * hidden)" and "i < intr"
  shows "act_of (gate_up @ down) x intr hidden i = act_of gate_up x intr hidden i"
proof -
  have b: "i * hidden + c < intr * hidden" if "c < hidden" for c
    using that assms(2) by (metis Suc_leI add_less_mono1 less_le_trans mult_Suc mult_le_mono1 nat_add_left_cancel_less add.commute)
  have "row_dot (gate_up @ down) (i * hidden) x hidden = row_dot gate_up (i * hidden) x hidden"
    "row_dot (gate_up @ down) (intr * hidden + i * hidden) x hidden = row_dot gate_up (intr * hidden + i * hidden) x hidden"
  proof -
    have eq: "(gate_up @ down) ! (i * hidden + c) = gate_up ! (i * hidden + c)"
      "(gate_up @ down) ! (intr * hidden + i * hidden + c) = gate_up ! (intr * hidden + i * hidden + c)" if "c < hidden" for c
      by (rule nth_append_left, use b [OF that] assms(1) in linarith)+
    show "row_dot (gate_up @ down) (i * hidden) x hidden = row_dot gate_up (i * hidden) x hidden"
      "row_dot (gate_up @ down) (intr * hidden + i * hidden) x hidden = row_dot gate_up (intr * hidden + i * hidden) x hidden"
      unfolding row_dot_def by (rule sum.cong; simp add: eq)+
  qed
  then show ?thesis by (simp only: act_of_def)
qed

lemma cuda_expert_nth:
  assumes "length d_hbuf = intr" "length d_y = hidden" "k < hidden"
  shows "snd (swiglu_expert_cuda W x d_hbuf d_y intr hidden) ! k =
    (\<Sum>i < intr. W ! (2 * (intr * hidden) + k * intr + i) * swiglu_h_kernel W x intr hidden i)"
  using assms by (simp add: swiglu_expert_cuda_def launch_eq swiglu_y_kernel_def foldl_sum Let_def)

section \<open>Properties\<close>

text \<open>
  C24: the engine's CPU kernel adds the expert's SwiGLU output to the accumulator, provided the
  \<^verbatim>\<open>down\<close> projection of the blob is stored transposed, as \<^verbatim>\<open>[INTER, HIDDEN]\<close>: then it agrees with the
  MLP of \<^verbatim>\<open>moe_forward.cpp\<close>, which reads \<^verbatim>\<open>down\<close> as \<^verbatim>\<open>[HIDDEN, INTER]\<close>.
\<close>

theorem swiglu_is_mlp_of_transposed_down:
  assumes "length gate_up = 2 * (intr * hidden)" and "length down = hidden * intr" and "length acc = hidden"
  shows "swiglu (gate_up @ transpose_flat hidden intr down) x intr hidden acc =
    map (\<lambda>k. acc ! k + expert_mlp x hidden intr gate_up down ! k) [0 ..< hidden]"
proof (rule nth_equalityI)
  let ?blob = "gate_up @ transpose_flat hidden intr down"
  show len: "length (swiglu ?blob x intr hidden acc) = length (map (\<lambda>k. acc ! k + expert_mlp x hidden intr gate_up down ! k) [0 ..< hidden])"
  proof (cases "hidden = 0")
    case True
    have "length (foldl (swiglu_step ?blob x intr hidden) acc [0 ..< n]) = 0" for n
      using assms(3) True by (induction n) simp_all
    then show ?thesis using True by (simp add: swiglu_def)
  next
    case False
    then show ?thesis using swiglu_nth(2) [of 0 hidden acc ?blob x intr] assms(3) by simp
  qed
  fix k assume "k < length (swiglu ?blob x intr hidden acc)"
  then have k: "k < hidden" using len by simp
  have "?blob ! (2 * (intr * hidden) + i * hidden + k) = down ! (k * intr + i)" if "i < intr" for i
    using assms(1) transpose_flat_nth [OF k that] by (simp add: nth_append add.assoc)
  then have "(\<Sum>i < intr. ?blob ! (2 * (intr * hidden) + i * hidden + k) * act_of ?blob x intr hidden i) =
      (\<Sum>i < intr. down ! (k * intr + i) * act_of gate_up x intr hidden i)"
    by (intro sum.cong) (simp_all add: act_of_append [OF assms(1)])
  then show "swiglu ?blob x intr hidden acc ! k = map (\<lambda>k. acc ! k + expert_mlp x hidden intr gate_up down ! k) [0 ..< hidden] ! k"
    using k swiglu_nth(1) [OF k assms(3)] expert_mlp_nth [OF k] by simp
qed

theorem swiglu_is_mlp_of_transposed_down_witness:
  "swiglu ([1, 2, 3, 4] @ transpose_flat 2 1 [5, 6]) [1, 1] 1 2 [0, 0] =
     map (\<lambda>k. [0, 0] ! k + expert_mlp [1, 1] 2 1 [1, 2, 3, 4] [5, 6] ! k) [0 ..< 2]"
  by (rule swiglu_is_mlp_of_transposed_down) simp_all

text \<open>
  With \<^verbatim>\<open>down\<close> in the layout that the kernel's comment states, \<^verbatim>\<open>[HIDDEN, INTER]\<close>, and that the
  staging code copies from the shard, the engine's CPU kernel computes something else than the MLP.
\<close>

theorem swiglu_documented_layout_differs:
  "\<exists>gate_up down x. length gate_up = 8 \<and> length down = 4 \<and>
     swiglu (gate_up @ down) x 2 2 [0, 0] ! 1 \<noteq> expert_mlp x 2 2 gate_up down ! 1"
proof -
  let ?gu = "[1, 0, 0, 0, 1, 0, 1, 0] :: real list" and ?dn = "[0, 1, 0, 0] :: real list" and ?x = "[1, 0] :: real list"
  have "1 + exp (- 1 :: real) \<noteq> 0" using exp_gt_zero [of "- 1 :: real"] by linarith
  then have "silu 1 \<noteq> 0" by (simp add: silu_def)
  moreover have "swiglu (?gu @ ?dn) ?x 2 2 [0, 0] ! 1 = silu 1"
    by (subst swiglu_nth) (simp_all add: eval_nat_numeral act_of_def row_dot_def silu_def)
  moreover have "expert_mlp ?x 2 2 ?gu ?dn ! 1 = 0"
    by (subst expert_mlp_nth) (simp_all add: eval_nat_numeral)
  ultimately have "swiglu (?gu @ ?dn) ?x 2 2 [0, 0] ! 1 \<noteq> expert_mlp ?x 2 2 ?gu ?dn ! 1" by simp
  then show ?thesis by (intro exI [of _ ?gu] exI [of _ ?dn] exI [of _ ?x]) simp
qed

text \<open>
  The CUDA kernel's activation is not SiLU: with \<^verbatim>\<open>exp(g)\<close> in place of \<^verbatim>\<open>exp(-g)\<close> a thread computes
  \<open>(g - silu g) * u\<close>, which agrees with \<open>silu g * u\<close> only where the gate or the up projection is zero.
\<close>

theorem cuda_activation_wrong:
  "swiglu_h_kernel W x intr hidden i = act_of W x intr hidden i \<longleftrightarrow>
     row_dot W (i * hidden) x hidden = 0 \<or> row_dot W (intr * hidden + i * hidden) x hidden = 0"
proof -
  define g where "g = row_dot W (i * hidden) x hidden"
  define u where "u = row_dot W (intr * hidden + i * hidden) x hidden"
  have k: "swiglu_h_kernel W x intr hidden i = g / (1 + exp g) * u"
    by (simp add: swiglu_h_kernel_def foldl_sum_pair g_def u_def row_dot_def)
  have "g / (1 + exp g) = g / (1 + exp (- g)) \<longleftrightarrow> g = 0"
  proof
    assume "g / (1 + exp g) = g / (1 + exp (- g))"
    moreover have "1 + exp g \<noteq> 0" "1 + exp (- g) \<noteq> 0" using exp_gt_zero [of g] exp_gt_zero [of "- g"] by linarith+
    ultimately have "g * (1 + exp (- g)) = g * (1 + exp g)" by (simp add: frac_eq_eq)
    then have "g = 0 \<or> exp (- g) = exp g" by simp
    then show "g = 0" by auto
  qed simp
  then show ?thesis unfolding k act_of_def silu_def g_def [symmetric] u_def [symmetric] by auto
qed

end
