(* ===== verification/Engine.thy ===== *)
theory Engine
  imports WeightMmap Prefetcher OracleLoad Kernels
begin

text \<open>
  The engine of \<^verbatim>\<open>include/dee/engine.h\<close> and \<^verbatim>\<open>src/engine.cpp\<close> in the default build (\<^verbatim>\<open>DEE_CUDA\<close> off; the other is in \<open>EngineCuda\<close>):
  initialisation from a shard and an oracle archive, staging of an expert's weights, streaming them
  through the prefetcher, the forward pass of a layer and the generation loop. Hidden states are lists
  of reals; the weights live in memory as bytes and are decoded where the code reads them. The
  operating system, the file system, zlib, \<^verbatim>\<open>malloc\<close>, the addresses of new staging vectors, \<^verbatim>\<open>std::sort\<close>
  and the elapsed time are parameters. Every real is finite, so \<^verbatim>\<open>hidden_finite\<close> is always set.
\<close>

section \<open>State\<close>

record EngineConfig =
  cfg_shard_path :: string
  cfg_oracle_path :: string
  cfg_num_tokens :: int
  cfg_topk :: int
  cfg_num_layers :: int
  cfg_budget_bytes :: nat
  cfg_use_cuda :: bool
  cfg_hidden :: int
  cfg_inter :: int
  cfg_verbose :: bool

definition default_config :: EngineConfig where
  "default_config =
     \<lparr>cfg_shard_path = [], cfg_oracle_path = [], cfg_num_tokens = 32, cfg_topk = 8, cfg_num_layers = 40,
      cfg_budget_bytes = 0, cfg_use_cuda = False, cfg_hidden = 2048, cfg_inter = 256, cfg_verbose = False\<rparr>"

record EngineStats =
  es_tokens :: int
  es_elapsed_sec :: real
  es_tok_per_sec :: real
  es_peak_vram :: nat
  es_cache_hits :: nat
  es_cache_loads :: nat
  es_evictions :: nat
  es_fallbacks :: nat
  es_prefetch_issued :: nat
  es_prefetch_fallbacks :: nat
  es_hidden_finite :: bool
  es_cuda_total :: nat
  es_cuda_free :: nat

text \<open>\<^verbatim>\<open>e_shards\<close> is the resolver's list of pointers, each to the engine's one mapping.\<close>

record Engine =
  e_cfg :: EngineConfig
  e_mmap :: WeightMmap
  e_shards :: "WeightMmap list"
  e_oracle :: OracleScheduler
  e_pf :: AsyncPrefetcher
  e_hidden :: nat
  e_inter :: nat
  e_blob_elems :: nat
  e_blob_bytes :: nat
  e_staging :: "(int \<times> nat) list"
  e_buf0 :: "real list"
  e_buf1 :: "real list"
  e_stats :: EngineStats
  e_mem :: memory

definition engine_new :: "memory \<Rightarrow> Engine" where
  "engine_new m =
     \<lparr>e_cfg = default_config, e_mmap = mmap_new, e_shards = [],
      e_oracle = \<lparr>o_D = 2048, o_H = 256, o_E = 256, o_layers = [], o_err = []\<rparr>,
      e_pf = prefetcher_new cache_new 64, e_hidden = 2048, e_inter = 256, e_blob_elems = 0, e_blob_bytes = 0,
      e_staging = [], e_buf0 = [], e_buf1 = [],
      e_stats = \<lparr>es_tokens = 0, es_elapsed_sec = 0, es_tok_per_sec = 0, es_peak_vram = 0, es_cache_hits = 0,
        es_cache_loads = 0, es_evictions = 0, es_fallbacks = 0, es_prefetch_issued = 0, es_prefetch_fallbacks = 0,
        es_hidden_finite = True, es_cuda_total = 0, es_cuda_free = 0\<rparr>,
      e_mem = m\<rparr>"

record Env =
  env_sort :: sorter
  env_new_vector :: "int \<Rightarrow> nat"
  env_elapsed :: real

record Sys =
  sys_os :: OS
  sys_files :: files
  sys_malloc :: "nat \<Rightarrow> nat"

section \<open>Staging and streaming\<close>

definition avail_layer :: "Engine \<Rightarrow> int \<Rightarrow> int" where
  "avail_layer en layer =
     (if view_ok (resolve_expert (e_mem en) (e_shards en) 0 0 GATE_PROJ) then 0 else layer)"

text \<open>The blob \<^verbatim>\<open>[gate | up | down]\<close> of an expert, converted from the shard.\<close>

definition blob_words :: "Engine \<Rightarrow> TensorView \<Rightarrow> TensorView \<Rightarrow> TensorView \<Rightarrow> 32 word list" where
  "blob_words en gv uv dv =
     (let gh = e_inter en * e_hidden en;
          rd = (\<lambda>v. map (\<lambda>i. bf16_to_f32 (read_u16 (e_mem en) (v_data v + i * 2))) [0 ..< gh])
      in rd gv @ rd uv @ rd dv)"

definition get_staging :: "Env \<Rightarrow> Engine \<Rightarrow> int \<Rightarrow> nat \<times> Engine" where
  "get_staging env en expert =
     (case map_of (e_staging en) expert of
        Some p \<Rightarrow> (p, en)
      | None \<Rightarrow>
          let sl = avail_layer en 0;
              gv = resolve_expert (e_mem en) (e_shards en) sl expert GATE_PROJ;
              uv = resolve_expert (e_mem en) (e_shards en) sl expert UP_PROJ;
              dv = resolve_expert (e_mem en) (e_shards en) sl expert DOWN_PROJ
          in if \<not> view_ok gv \<or> \<not> view_ok uv \<or> \<not> view_ok dv then (nullptr, en)
             else let p = env_new_vector env expert
                  in (p, en\<lparr>e_mem := store_floats (e_mem en) p (blob_words en gv uv dv),
                            e_staging := (expert, p) # e_staging en\<rparr>))"

definition stage_expert :: "Env \<Rightarrow> Engine \<Rightarrow> int \<Rightarrow> int \<Rightarrow> int \<Rightarrow> Engine" where
  "stage_expert env en layer expert priority =
     (case get_staging env en expert of (blob, en1) \<Rightarrow>
        if blob = nullptr then en1
        else en1\<lparr>e_pf := snd (prefetch (e_pf en1) layer expert blob (e_blob_bytes en1) priority)\<rparr>)"

section \<open>The forward pass of a layer\<close>

definition stage_all :: "Env \<Rightarrow> Engine \<Rightarrow> int \<Rightarrow> nat list \<Rightarrow> Engine" where
  "stage_all env en layer experts =
     foldl (\<lambda>en k. stage_expert env en layer (int (experts ! k)) (to_int32 (cfg_topk (e_cfg en) - int k)))
       en [0 ..< length experts]"

definition use_expert :: "int \<Rightarrow> real list \<Rightarrow> Engine \<times> real list \<Rightarrow> nat \<Rightarrow> Engine \<times> real list" where
  "use_expert layer h_in st e =
     (case st of (en, acc) \<Rightarrow>
        case wait (e_mem en) (e_pf en) layer (int e) of (_, m, pf) \<Rightarrow>
          let en1 = en\<lparr>e_mem := m, e_pf := pf\<rparr>;
              p = cache_data (p_cache pf) layer (int e)
          in if p = nullptr
             then (en1\<lparr>e_stats := (e_stats en1)\<lparr>es_fallbacks := Suc (es_fallbacks (e_stats en1))\<rparr>\<rparr>, acc)
             else (en1\<lparr>e_pf := pf\<lparr>p_cache := cache_touch (p_cache pf) layer (int e)\<rparr>\<rparr>,
                   swiglu (load_floats m p (e_blob_elems en)) h_in (e_inter en) (e_hidden en) acc))"

text \<open>The mean over the predicted experts, rescaled to root mean square 1.\<close>

definition combine :: "nat \<Rightarrow> nat \<Rightarrow> real list \<Rightarrow> real list" where
  "combine hidden n_experts acc =
     (let inv = (if n_experts = 0 then 1 else 1 / real n_experts);
          h_out = map (\<lambda>i. acc ! i * inv) [0 ..< hidden];
          ss = foldl (\<lambda>s v. s + v * v) 0 h_out;
          rms = sqrt (ss / real hidden)
      in if rms > 1 / 10 ^ 8 then map (\<lambda>v. v * (1 / rms)) h_out else h_out)"

definition forward_layer :: "Env \<Rightarrow> Engine \<Rightarrow> int \<Rightarrow> real list \<Rightarrow> exn + real list \<times> Engine" where
  "forward_layer env en layer h_in =
     (case oracle_predict (env_sort env) (e_oracle en) layer h_in (cfg_topk (e_cfg en)) of
        Inl e \<Rightarrow> Inl e
      | Inr experts \<Rightarrow>
          let en1 = stage_all env en layer experts
          in case foldl (use_expert layer h_in) (en1, replicate (e_hidden en) 0) experts of (en2, acc) \<Rightarrow>
               Inr (combine (e_hidden en) (length experts) acc, en2))"

section \<open>The generation loop\<close>

text \<open>The loop over the layers: every layer reads the same \<^verbatim>\<open>h_in\<close> and overwrites \<^verbatim>\<open>h_out\<close>.\<close>

fun layer_loop :: "Env \<Rightarrow> int list \<Rightarrow> real list \<Rightarrow> real list \<Rightarrow> Engine \<Rightarrow> exn + real list \<times> Engine" where
  "layer_loop env [] h_in h_out en = Inr (h_out, en)"
| "layer_loop env (L # Ls) h_in h_out en =
     (case forward_layer env en L h_in of Inl e \<Rightarrow> Inl e | Inr (h_out', en') \<Rightarrow> layer_loop env Ls h_in h_out' en')"

fun token_loop :: "Env \<Rightarrow> nat \<Rightarrow> real list \<Rightarrow> real list \<Rightarrow> Engine \<Rightarrow> exn + real list \<times> real list \<times> Engine" where
  "token_loop env 0 cur nxt en = Inr (cur, nxt, en)"
| "token_loop env (Suc t) cur nxt en =
     (case layer_loop env [0 .. cfg_num_layers (e_cfg en) - 1] cur nxt en of
        Inl e \<Rightarrow> Inl e
      | Inr (nxt', en1) \<Rightarrow>
          let used = cache_used_bytes (p_cache (e_pf en1));
              en2 = (if es_peak_vram (e_stats en1) < used
                     then en1\<lparr>e_stats := (e_stats en1)\<lparr>es_peak_vram := used\<rparr>\<rparr> else en1)
          in token_loop env t nxt' cur en2)"

definition gather_stats :: "Env \<Rightarrow> Engine \<Rightarrow> Engine" where
  "gather_stats env en =
     (let cs = c_stats (p_cache (e_pf en)); ps = p_stats (e_pf en); sec = env_elapsed env;
          tokens = cfg_num_tokens (e_cfg en)
      in en\<lparr>e_stats := (e_stats en)\<lparr>es_tokens := tokens, es_elapsed_sec := sec,
            es_tok_per_sec := (if sec > 0 then real_of_int tokens / sec else 0), es_cache_hits := cs_hits cs,
            es_cache_loads := cs_loads cs, es_evictions := cs_evictions cs, es_fallbacks := cs_fallbacks cs,
            es_prefetch_issued := ps_issued ps, es_prefetch_fallbacks := ps_fallbacks ps,
            es_hidden_finite := True\<rparr>\<rparr>)"

definition prompt :: "nat \<Rightarrow> real list" where
  "prompt hidden = map (\<lambda>i. sin (1 / 100 * real i) * (1 / 2)) [0 ..< hidden]"

text \<open>The two buffers change roles after every token.\<close>

definition generate :: "Env \<Rightarrow> Engine \<Rightarrow> exn + real list \<times> Engine" where
  "generate env en =
     (let n = nat (cfg_num_tokens (e_cfg en))
      in case token_loop env n (prompt (e_hidden en)) (e_buf1 en) en of
           Inl e \<Rightarrow> Inl e
         | Inr (cur, nxt, en1) \<Rightarrow>
             let en2 = (if even n then en1\<lparr>e_buf0 := cur, e_buf1 := nxt\<rparr> else en1\<lparr>e_buf0 := nxt, e_buf1 := cur\<rparr>)
             in Inr (cur, gather_stats env (en2\<lparr>e_pf := prefetcher_reset (e_pf en2)\<rparr>)))"

section \<open>Initialisation\<close>

definition set_dims :: "Engine \<Rightarrow> int \<Rightarrow> int \<Rightarrow> Engine" where
  "set_dims en inter_dim hidden_dim =
     (let elems = mul64 (mul64 3 (nat (inter_dim mod 2 ^ 64))) (nat (hidden_dim mod 2 ^ 64))
      in en\<lparr>e_inter := nat inter_dim, e_hidden := nat hidden_dim, e_blob_elems := elems, e_blob_bytes := mul64 elems 4\<rparr>)"

text \<open>The dimensions that the shard determines; \<open>False\<close> is the failure of \<^verbatim>\<open>init\<close>.\<close>

definition check_dims :: "Engine \<Rightarrow> EngineConfig \<Rightarrow> bool \<times> Engine" where
  "check_dims en cfg =
     (let gv = resolve_expert (e_mem en) (e_shards en) (avail_layer en 0) 0 GATE_PROJ
      in if \<not> view_ok gv then (False, en)
         else if length (v_shape gv) \<noteq> 2 then (False, en)
         else (to_int32 (v_shape gv ! 1) = cfg_hidden cfg,
               set_dims en (to_int32 (v_shape gv ! 0)) (to_int32 (v_shape gv ! 1))))"

definition init_shard :: "Sys \<Rightarrow> Engine \<Rightarrow> EngineConfig \<Rightarrow> (bool \<times> Engine) outcome" where
  "init_shard sys en cfg =
     (let en1 = set_dims (en\<lparr>e_cfg := cfg\<rparr>) 256 (cfg_hidden cfg)
      in bind_out (of_exn (mmap_open (sys_os sys) (e_mem en1) (e_mmap en1) (cfg_shard_path cfg))) (\<lambda>(ok, w).
           let en2 = en1\<lparr>e_mmap := w, e_shards := map (\<lambda>_. w) (e_shards en1)\<rparr>
           in Ret (if \<not> ok then (False, en2)
                   else check_dims (en2\<lparr>e_shards := register_shard (e_shards en2) (Some w)\<rparr>) cfg)))"

definition init_buffers :: "Engine \<Rightarrow> EngineConfig \<Rightarrow> (bool \<times> Engine) outcome" where
  "init_buffers en cfg =
     (case prefetcher_init (e_pf en) (cfg_use_cuda cfg) of (ok, pf) \<Rightarrow>
        let en1 = en\<lparr>e_pf := pf\<rparr>
        in if \<not> ok then Ret (False, en1)
           else if cfg_hidden cfg < 0 then Throw Length_error
           else Ret (True, en1\<lparr>e_buf0 := replicate (e_hidden en1) 0, e_buf1 := replicate (e_hidden en1) 0\<rparr>))"

definition init_cache :: "Sys \<Rightarrow> Engine \<Rightarrow> EngineConfig \<Rightarrow> (bool \<times> Engine) outcome" where
  "init_cache sys en cfg =
     (let budget = (if cfg_budget_bytes cfg \<noteq> 0 then cfg_budget_bytes cfg else mul64 4 (e_blob_bytes en))
      in if cfg_use_cuda cfg then Ret (False, en)
         else case cache_init (p_cache (e_pf en)) budget
                     \<lparr>be_alloc = Some (sys_malloc sys), be_free = True, be_kind = ''host''\<rparr> of (ok, c) \<Rightarrow>
                let en1 = en\<lparr>e_pf := (e_pf en)\<lparr>p_cache := c\<rparr>\<rparr>
                in if \<not> ok then Ret (False, en1) else init_buffers en1 cfg)"

definition init :: "Sys \<Rightarrow> 'z Zlib \<Rightarrow> Engine \<Rightarrow> EngineConfig \<Rightarrow> (bool \<times> Engine) outcome" where
  "init sys z en cfg =
     bind_out (init_shard sys en cfg) (\<lambda>(ok, en1).
       if \<not> ok then Ret (False, en1)
       else bind_out (oracle_load (sys_files sys) z (e_oracle en1) (cfg_oracle_path cfg) (e_hidden en1) 256 256) (\<lambda>(ok1, sc).
              let en2 = en1\<lparr>e_oracle := sc\<rparr>
              in if \<not> ok1 then Ret (False, en2)
                 else init_cache sys (en2\<lparr>e_cfg := cfg\<lparr>cfg_num_layers := min (cfg_num_layers cfg) (num_layers sc)\<rparr>\<rparr>) cfg))"

section \<open>Staging an expert whose blob exists\<close>

text \<open>The requests that a layer's staging issues: descending priorities in the order of prediction.\<close>

definition requests :: "int \<Rightarrow> int \<Rightarrow> nat list \<Rightarrow> (ExpertKey \<times> int) list" where
  "requests topk layer experts = map (\<lambda>k. (ExpertKey layer (int (experts ! k)), to_int32 (topk - int k))) [0 ..< length experts]"

definition staged :: "(ExpertKey \<Rightarrow> nat) \<Rightarrow> Engine \<Rightarrow> int \<Rightarrow> nat list \<Rightarrow> bool" where
  "staged src en layer experts \<longleftrightarrow>
     (\<forall>e \<in> set experts. map_of (e_staging en) (int e) = Some (src (ExpertKey layer (int e))) \<and>
        src (ExpertKey layer (int e)) \<noteq> nullptr)"

lemma prefetch_all_append:
  "prefetch_all src n (xs @ ys) pf = prefetch_all src n ys (prefetch_all src n xs pf)"
  by (induction xs arbitrary: pf) auto

lemma stage_all_warm:
  assumes "staged src en layer experts"
  shows "stage_all env en layer experts =
    en\<lparr>e_pf := prefetch_all src (e_blob_bytes en) (requests (cfg_topk (e_cfg en)) layer experts) (e_pf en)\<rparr>"
proof -
  have "foldl (\<lambda>en k. stage_expert env en layer (int (experts ! k)) (to_int32 (cfg_topk (e_cfg en) - int k))) en [0 ..< n] =
      en\<lparr>e_pf := prefetch_all src (e_blob_bytes en)
        (map (\<lambda>k. (ExpertKey layer (int (experts ! k)), to_int32 (cfg_topk (e_cfg en) - int k))) [0 ..< n]) (e_pf en)\<rparr>"
    if "n \<le> length experts" for n
    using that
  proof (induction n)
    case (Suc n)
    let ?e = "experts ! n"
    have "?e \<in> set experts" using Suc.prems by simp
    then have "map_of (e_staging en) (int ?e) = Some (src (ExpertKey layer (int ?e)))" "src (ExpertKey layer (int ?e)) \<noteq> nullptr"
      using assms by (auto simp: staged_def)
    then show ?case using Suc by (simp add: stage_expert_def get_staging_def prefetch_all_append)
  qed simp
  then show ?thesis by (simp add: stage_all_def requests_def)
qed

section \<open>Using resident experts\<close>

text \<open>
  What stays fixed while the experts of a layer are used: the invariant of the prefetcher, where
  the experts are, the dimensions, and the weights.
\<close>

definition using_ok ::
  "(ExpertKey \<Rightarrow> nat) \<Rightarrow> nat \<Rightarrow> region \<Rightarrow> memory \<Rightarrow> (ExpertKey \<Rightarrow> region option) \<Rightarrow> int \<Rightarrow> nat list \<Rightarrow> Engine \<Rightarrow> bool" where
  "using_ok src n sp m0 rg layer experts en \<longleftrightarrow>
     prefetcher_inv src n sp (e_mem en, e_pf en) \<and> 4 * e_blob_elems en = n \<and>
     cache_region (p_cache (e_pf en)) = rg \<and>
     (\<forall>e \<in> set experts. is_int32 (int e) \<and> issued (e_pf en) (ExpertKey layer (int e))) \<and>
     (\<forall>x \<in> - span (fst sp) (snd sp). e_mem en x = m0 x)"

definition add_expert :: "(ExpertKey \<Rightarrow> nat) \<Rightarrow> memory \<Rightarrow> Engine \<Rightarrow> int \<Rightarrow> real list \<Rightarrow> real list \<Rightarrow> nat \<Rightarrow> real list" where
  "add_expert src m en layer h_in acc e =
     swiglu (load_floats m (src (ExpertKey layer (int e))) (e_blob_elems en)) h_in (e_inter en) (e_hidden en) acc"

definition same_dims :: "Engine \<Rightarrow> Engine \<Rightarrow> bool" where
  "same_dims en en' \<longleftrightarrow> e_blob_elems en' = e_blob_elems en \<and> e_inter en' = e_inter en \<and> e_hidden en' = e_hidden en"

lemma use_expert_skip:
  assumes ok: "using_ok src n sp m0 rg layer experts en" and l: "is_int32 layer" and e: "e \<in> set experts"
    and none: "rg (ExpertKey layer (int e)) = None"
  shows "\<exists>en'. use_expert layer h_in (en, acc) e = (en', acc) \<and>
    using_ok src n sp m0 rg layer experts en' \<and> same_dims en en'"
proof -
  obtain r m pf where w: "wait (e_mem en) (e_pf en) layer (int e) = (r, m, pf)" by (metis prod.exhaust)
  have inv: "prefetcher_inv src n sp (e_mem en, e_pf en)" and e32: "is_int32 (int e)" using ok e by (simp_all add: using_ok_def)
  note wi = wait_inv [OF inv l e32 w]
  have "cache_data (p_cache pf) layer (int e) = nullptr" using ok none wi(2) by (simp add: using_ok_def cache_data_region)
  then show ?thesis
    using w ok wi by (auto simp: use_expert_def Let_def using_ok_def issued_def same_dims_def)
qed

lemma use_expert_ok:
  assumes ok: "using_ok src n sp m0 rg layer experts en" and l: "is_int32 layer" and e: "e \<in> set experts"
    and reg: "rg (ExpertKey layer (int e)) = Some (a, len)"
  shows "\<exists>en'. use_expert layer h_in (en, acc) e = (en', add_expert src m0 en layer h_in acc e) \<and>
    using_ok src n sp m0 rg layer experts en' \<and> same_dims en en'"
proof -
  let ?k = "ExpertKey layer (int e)"
  obtain r m pf where w: "wait (e_mem en) (e_pf en) layer (int e) = (r, m, pf)" by (metis prod.exhaust)
  have inv: "prefetcher_inv src n sp (e_mem en, e_pf en)" and el: "4 * e_blob_elems en = n"
    and out: "\<forall>x \<in> - span (fst sp) (snd sp). e_mem en x = m0 x"
    and e32: "is_int32 (int e)" and iss: "issued (e_pf en) ?k" and rg: "cache_region (p_cache (e_pf en)) = rg"
    using ok e by (simp_all add: using_ok_def)
  note wi = wait_inv [OF inv l e32 w]
  have r: "r" using wi(4) iss by (simp add: issued_def)
  have sb: "same_bytes m a (src ?k) n" using wi(5) [OF r] reg rg by simp
  have mout: "\<forall>x \<in> - span (fst sp) (snd sp). m x = m0 x" using wi(6) out by simp
  have "m (a + i) = m0 (src ?k + i)" if "i < 4 * e_blob_elems en" for i
  proof -
    have "src ?k + i \<in> span (src ?k) n" using that el by simp
    then have "src ?k + i \<in> - span (fst sp) (snd sp)" using prefetcher_invD(5) [OF inv] unfolding away_def by blast
    then have "m (src ?k + i) = m0 (src ?k + i)" using mout by blast
    then show ?thesis using sb that el by (simp add: same_bytes_def)
  qed
  then have ld: "load_floats m a (e_blob_elems en) = load_floats m0 (src ?k) (e_blob_elems en)" by (rule load_floats_cong)
  have p: "cache_data (p_cache pf) layer (int e) = a" "a \<noteq> nullptr"
    using reg rg wi(2) vram_store.region_inside [OF prefetcher_invD(1) [OF inv], of ?k] by (simp_all add: cache_data_region)
  let ?en' = "en\<lparr>e_mem := m, e_pf := pf\<lparr>p_cache := cache_touch (p_cache pf) layer (int e)\<rparr>\<rparr>"
  have "use_expert layer h_in (en, acc) e = (?en', add_expert src m0 en layer h_in acc e)"
    using w p ld by (simp add: use_expert_def Let_def add_expert_def)
  moreover have "prefetcher_inv src n sp (m, pf\<lparr>p_cache := cache_touch (p_cache pf) layer (int e)\<rparr>)"
    by (rule touch_inv [OF wi(1)])
  moreover have "cache_region (cache_touch (p_cache pf) layer (int e)) = rg"
    using cache_touch_region(2) [OF prefetcher_invD(1) [OF wi(1)]] wi(2) rg by simp
  ultimately show ?thesis
    using ok wi(3) mout el by (intro exI [of _ ?en']) (simp add: using_ok_def issued_def same_dims_def)
qed

text \<open>The loop over the experts accumulates those that are resident and skips the others.\<close>

lemma use_all_ok:
  assumes "using_ok src n sp m0 rg layer experts en" and "is_int32 layer" and "set es \<subseteq> set experts"
  shows "\<exists>en'. foldl (use_expert layer h_in) (en, acc) es =
      (en', foldl (add_expert src m0 en layer h_in) acc (filter (\<lambda>e. rg (ExpertKey layer (int e)) \<noteq> None) es)) \<and>
    using_ok src n sp m0 rg layer experts en'"
  using assms
proof (induction es arbitrary: en acc)
  case Nil
  then show ?case by simp
next
  case (Cons e es)
  have e: "e \<in> set experts" using Cons.prems(3) by simp
  let ?acc = "if rg (ExpertKey layer (int e)) = None then acc else add_expert src m0 en layer h_in acc e"
  obtain en' where en': "use_expert layer h_in (en, acc) e = (en', ?acc)"
    "using_ok src n sp m0 rg layer experts en'" "same_dims en en'"
  proof (cases "rg (ExpertKey layer (int e))")
    case None
    then show ?thesis using use_expert_skip [OF Cons.prems(1,2) e None, of h_in acc] that by auto
  next
    case (Some r)
    then show ?thesis using use_expert_ok [OF Cons.prems(1,2) e, of "fst r" "snd r" h_in acc] that by auto
  qed
  have "add_expert src m0 en' layer h_in = add_expert src m0 en layer h_in"
    using en'(3) by (simp add: add_expert_def same_dims_def fun_eq_iff)
  then show ?case
    using Cons.IH [OF en'(2), of ?acc] Cons.prems(2,3) en'(1) by (cases "rg (ExpertKey layer (int e))") simp_all
qed

section \<open>The cache while the engine runs\<close>

lemma wait_cache: "wait m pf l e = (ok, m', pf') \<Longrightarrow> p_cache pf' = p_cache pf"
  by (auto simp: wait_def drain_until_def cuda_wait_def Let_def split: if_splits prod.splits)

lemma prefetch_cache: "p_cache (snd (prefetch pf l e s n p)) = snd (cache_ensure (p_cache pf) l e n p)"
  by (simp add: prefetch_def Let_def cuda_submit_def split: prod.split)

text \<open>What every step of the engine keeps: the budget, the parts that initialisation sets, and the peak.\<close>

definition engine_ok :: "nat \<Rightarrow> Engine \<Rightarrow> Engine \<Rightarrow> bool" where
  "engine_ok cap en en' \<longleftrightarrow> cache_reachable cap (p_cache (e_pf en')) \<and> cap + e_blob_bytes en' < size_mod \<and>
     e_cfg en' = e_cfg en \<and> e_oracle en' = e_oracle en \<and> e_blob_bytes en' = e_blob_bytes en \<and> e_hidden en' = e_hidden en \<and>
     es_peak_vram (e_stats en') = es_peak_vram (e_stats en)"

lemma stage_expert_ok:
  assumes "engine_ok cap en0 en"
  shows "engine_ok cap en0 (stage_expert env en layer e pri)"
proof -
  obtain blob en1 where g: "get_staging env en e = (blob, en1)" by fastforce
  then have en1: "engine_ok cap en0 en1"
    using assms by (auto simp: get_staging_def engine_ok_def Let_def split: option.splits if_splits)
  let ?c = "p_cache (e_pf en1)"
  have "cache_step ?c (snd (cache_ensure ?c layer e (e_blob_bytes en1) pri))"
    using en1 cache_reachable_inv [of cap ?c] by (intro cache_step.ensure) (simp add: engine_ok_def)
  then have "cache_reachable cap (snd (cache_ensure ?c layer e (e_blob_bytes en1) pri))"
    using en1 by (auto simp: engine_ok_def intro: cache_reachable.step)
  then show ?thesis using g en1 by (simp add: stage_expert_def engine_ok_def prefetch_cache)
qed

lemma stage_all_ok: "engine_ok cap en0 en \<Longrightarrow> engine_ok cap en0 (stage_all env en layer experts)"
proof -
  assume "engine_ok cap en0 en"
  then have "engine_ok cap en0 (foldl (\<lambda>en k. stage_expert env en layer (int (experts ! k)) (to_int32 (cfg_topk (e_cfg en) - int k))) en ks)" for ks
    by (induction ks arbitrary: en) (simp_all add: stage_expert_ok)
  then show ?thesis by (simp add: stage_all_def)
qed

lemma use_expert_keeps: "engine_ok cap en0 en \<Longrightarrow> engine_ok cap en0 (fst (use_expert layer h_in (en, acc) e))"
proof -
  assume ok: "engine_ok cap en0 en"
  obtain r m pf where w: "wait (e_mem en) (e_pf en) layer (int e) = (r, m, pf)" by (metis prod.exhaust)
  have c: "p_cache pf = p_cache (e_pf en)" by (rule wait_cache [OF w])
  have "cache_reachable cap (cache_touch (p_cache pf) layer (int e))"
    using ok c by (auto simp: engine_ok_def intro: cache_reachable.step cache_step.touch)
  then show ?thesis using ok w c by (simp add: use_expert_def engine_ok_def Let_def)
qed

lemma forward_layer_keeps:
  assumes ok: "engine_ok cap en0 en" and l: "0 \<le> layer" "layer < int (length (o_layers (e_oracle en0)))"
  shows "\<exists>h en'. forward_layer env en layer h_in = Inr (h, en') \<and> engine_ok cap en0 en'"
proof -
  have "e_oracle en = e_oracle en0" using ok by (simp add: engine_ok_def)
  then obtain experts where ex: "oracle_predict (env_sort env) (e_oracle en) layer h_in (cfg_topk (e_cfg en)) = Inr experts"
    using l by (simp add: oracle_predict_def oracle_forward_def Let_def)
  have "engine_ok cap en0 (fst (foldl (use_expert layer h_in) (en1, acc) es))" if "engine_ok cap en0 en1" for es en1 acc
    using that
  proof (induction es arbitrary: en1 acc)
    case (Cons e es)
    then show ?case using use_expert_keeps [OF Cons.prems] by (metis foldl_Cons prod.collapse)
  qed simp
  from this [OF stage_all_ok [OF ok]]
  have "engine_ok cap en0 (fst (foldl (use_expert layer h_in) (stage_all env en layer experts, replicate (e_hidden en) 0) experts))" .
  then show ?thesis
    using ex by (cases "foldl (use_expert layer h_in) (stage_all env en layer experts, replicate (e_hidden en) 0) experts")
      (simp add: forward_layer_def Let_def)
qed

lemma layer_loop_keeps:
  assumes "engine_ok cap en0 en" and "\<forall>L \<in> set Ls. 0 \<le> L \<and> L < int (length (o_layers (e_oracle en0)))"
  shows "\<exists>h en'. layer_loop env Ls h_in h_out en = Inr (h, en') \<and> engine_ok cap en0 en'"
  using assms
proof (induction Ls arbitrary: en h_out)
  case (Cons L Ls)
  obtain h en' where "forward_layer env en L h_in = Inr (h, en')" "engine_ok cap en0 en'"
    using forward_layer_keeps [OF Cons.prems(1)] Cons.prems(2) by fastforce
  then show ?case using Cons.IH [of en' h] Cons.prems(2) by simp
qed simp

definition same_run :: "nat \<Rightarrow> Engine \<Rightarrow> Engine \<Rightarrow> bool" where
  "same_run cap en en' \<longleftrightarrow> cache_reachable cap (p_cache (e_pf en')) \<and> cap + e_blob_bytes en' < size_mod \<and>
     e_cfg en' = e_cfg en \<and> e_oracle en' = e_oracle en \<and> es_peak_vram (e_stats en') \<le> max cap (es_peak_vram (e_stats en))"

lemma token_loop_keeps:
  assumes "same_run cap en0 en" and "cfg_num_layers (e_cfg en0) \<le> int (length (o_layers (e_oracle en0)))"
  shows "\<exists>cur' nxt' en'. token_loop env t cur nxt en = Inr (cur', nxt', en') \<and> same_run cap en0 en'"
  using assms
proof (induction t arbitrary: cur nxt en)
  case (Suc t)
  have "engine_ok cap en en" using Suc.prems(1) by (simp add: same_run_def engine_ok_def)
  moreover have "\<forall>L \<in> set [0 .. cfg_num_layers (e_cfg en) - 1]. 0 \<le> L \<and> L < int (length (o_layers (e_oracle en)))"
    using Suc.prems by (auto simp: same_run_def)
  ultimately obtain h en1 where l: "layer_loop env [0 .. cfg_num_layers (e_cfg en) - 1] cur nxt en = Inr (h, en1)"
    and ok: "engine_ok cap en en1" using layer_loop_keeps by blast
  let ?used = "cache_used_bytes (p_cache (e_pf en1))"
  let ?en2 = "if es_peak_vram (e_stats en1) < ?used then en1\<lparr>e_stats := (e_stats en1)\<lparr>es_peak_vram := ?used\<rparr>\<rparr> else en1"
  have inv: "cache_inv (p_cache (e_pf en1))" "a_cap (c_arena (p_cache (e_pf en1))) = cap"
    using ok cache_reachable_inv by (auto simp: engine_ok_def)
  have "?used \<le> cap" using cache_used_le [OF inv(1)] inv(2) by (simp add: cache_used_bytes_def)
  then have "same_run cap en0 ?en2" using ok Suc.prems(1) by (auto simp: same_run_def engine_ok_def)
  from Suc.IH [OF this Suc.prems(2), of h cur] show ?case using l by (simp add: Let_def)
qed simp

lemma generate_keeps:
  assumes "same_run cap en en" and "cfg_num_layers (e_cfg en) \<le> int (length (o_layers (e_oracle en)))"
  shows "\<exists>out en'. generate env en = Inr (out, en') \<and> es_peak_vram (e_stats en') \<le> max cap (es_peak_vram (e_stats en)) \<and>
    es_tokens (e_stats en') = cfg_num_tokens (e_cfg en)"
proof -
  obtain cur nxt en1 where "token_loop env (nat (cfg_num_tokens (e_cfg en))) (prompt (e_hidden en)) (e_buf1 en) en = Inr (cur, nxt, en1)"
    "same_run cap en en1" using token_loop_keeps [OF assms] by blast
  then show ?thesis by (simp add: generate_def gather_stats_def same_run_def Let_def)
qed

section \<open>After initialisation\<close>

lemma to_int32_le: "to_int32 (int k) \<le> int k"
proof -
  have "(int k + 2 ^ 31) mod 2 ^ 32 \<le> int k + 2 ^ 31" by (rule zmod_le_nonneg_dividend) simp
  then show ?thesis by (simp add: to_int32_def)
qed

abbreviation host_backend :: "Sys \<Rightarrow> Backend" where
  "host_backend sys \<equiv> \<lparr>be_alloc = Some (sys_malloc sys), be_free = True, be_kind = ''host''\<rparr>"

definition budget_of :: "EngineConfig \<Rightarrow> Engine \<Rightarrow> nat" where
  "budget_of cfg en = (if cfg_budget_bytes cfg \<noteq> 0 then cfg_budget_bytes cfg else mul64 4 (e_blob_bytes en))"

lemma set_dims_frame [simp]:
  "e_pf (set_dims en i h) = e_pf en" "e_cfg (set_dims en i h) = e_cfg en" "e_stats (set_dims en i h) = e_stats en"
  "e_mem (set_dims en i h) = e_mem en" "e_staging (set_dims en i h) = e_staging en" "e_hidden (set_dims en i h) = nat h"
  by (simp_all add: set_dims_def Let_def)

lemma check_dims_True: "check_dims en cfg = (True, en') \<Longrightarrow> \<exists>i. en' = set_dims en i (cfg_hidden cfg)"
  by (auto simp: check_dims_def Let_def split: if_splits)

lemma init_shard_result:
  assumes "init_shard sys (engine_new m) cfg = Ret (True, en)"
  shows "e_pf en = prefetcher_new cache_new 64" "int (e_hidden en) = max 0 (cfg_hidden cfg)" "e_cfg en = cfg"
    "es_peak_vram (e_stats en) = 0" "e_mem en = m" "e_staging en = []"
proof -
  obtain en3 where c: "check_dims en3 cfg = (True, en)" and en3: "e_pf en3 = prefetcher_new cache_new 64" "e_cfg en3 = cfg"
    "es_peak_vram (e_stats en3) = 0" "e_mem en3 = m" "e_staging en3 = []"
    using assms by (auto simp: init_shard_def Let_def ret_iff engine_new_def split: if_splits)
  obtain i where "en = set_dims en3 i (cfg_hidden cfg)" using check_dims_True [OF c] by blast
  then show "e_pf en = prefetcher_new cache_new 64" "int (e_hidden en) = max 0 (cfg_hidden cfg)" "e_cfg en = cfg"
    "es_peak_vram (e_stats en) = 0" "e_mem en = m" "e_staging en = []"
    using en3 by simp_all
qed

lemma init_result:
  assumes "init sys z (engine_new m) cfg = Ret (True, en)"
  obtains c where "cache_init cache_new (budget_of cfg en) (host_backend sys) = (True, c)"
    "prefetcher_init (prefetcher_new c 64) False = (True, e_pf en)"
    "cfg_num_layers (e_cfg en) \<le> int (length (o_layers (e_oracle en)))" "es_peak_vram (e_stats en) = 0"
    "int (e_hidden en) = cfg_hidden cfg" "cfg_topk (e_cfg en) = cfg_topk cfg" "e_mem en = m" "e_staging en = []"
    "o_D (e_oracle en) = e_hidden en" "o_H (e_oracle en) = 256" "o_E (e_oracle en) = 256" "o_layers (e_oracle en) \<noteq> []"
    "\<forall>i < length (o_layers (e_oracle en)). weights_typed 2048 256 256 (o_layers (e_oracle en) ! i)"
proof -
  obtain en1 sc where s: "init_shard sys (engine_new m) cfg = Ret (True, en1)"
    and l: "oracle_load (sys_files sys) z (e_oracle en1) (cfg_oracle_path cfg) (e_hidden en1) 256 256 = Ret (True, sc)"
    and c: "init_cache sys (en1\<lparr>e_oracle := sc, e_cfg := cfg\<lparr>cfg_num_layers := min (cfg_num_layers cfg) (num_layers sc)\<rparr>\<rparr>) cfg = Ret (True, en)"
    using assms by (auto simp: init_def ret_iff Let_def split: if_splits)
  note s' = init_shard_result [OF s] and l' = oracle_load_weights [OF l]
  let ?b = "if cfg_budget_bytes cfg \<noteq> 0 then cfg_budget_bytes cfg else mul64 4 (e_blob_bytes en1)"
  have cu: "\<not> cfg_use_cuda cfg" using c by (auto simp: init_cache_def init_buffers_def Let_def split: if_splits)
  obtain ok ca where ca: "cache_init cache_new ?b (host_backend sys) = (ok, ca)" by fastforce
  have pc: "p_cache (prefetcher_new cache_new 64) = cache_new" by (simp add: prefetcher_new_def)
  from c cu ca s'(1) pc have ok: ok and h: "0 \<le> cfg_hidden cfg"
    and en: "en = en1\<lparr>e_oracle := sc, e_cfg := cfg\<lparr>cfg_num_layers := min (cfg_num_layers cfg) (num_layers sc)\<rparr>,
       e_pf := snd (prefetcher_init ((prefetcher_new cache_new 64)\<lparr>p_cache := ca\<rparr>) False),
       e_buf0 := replicate (e_hidden en1) 0, e_buf1 := replicate (e_hidden en1) 0\<rparr>"
    by (auto simp: init_cache_def init_buffers_def Let_def prefetcher_init_def split: if_splits)
  have pf: "(prefetcher_new cache_new 64)\<lparr>p_cache := ca\<rparr> = prefetcher_new ca 64" by (simp add: prefetcher_new_def)
  show ?thesis
  proof (rule that [of ca])
    show "cache_init cache_new (budget_of cfg en) (host_backend sys) = (True, ca)"
    proof -
      have "budget_of cfg en = ?b" using en by (simp add: budget_of_def)
      then show ?thesis using ca ok by (simp only:)
    qed
    show "prefetcher_init (prefetcher_new ca 64) False = (True, e_pf en)" using en pf by (simp add: prefetcher_init_def)
    show "cfg_num_layers (e_cfg en) \<le> int (length (o_layers (e_oracle en)))"
      using en to_int32_le [of "length (o_layers sc)"] by (simp add: num_layers_def min_def)
  qed (use en s' l' h in \<open>simp_all\<close>)
qed

text \<open>A shard that states the dimensions and an oracle that loads are enough for the initialisation.\<close>

lemma init_cache_succeeds:
  assumes "p_cache (e_pf en) = cache_new" and "\<not> cfg_use_cuda cfg" and "0 \<le> cfg_hidden cfg" and "\<And>n. sys_malloc sys n \<noteq> nullptr"
  shows "\<exists>en'. init_cache sys en cfg = Ret (True, en') \<and> e_blob_bytes en' = e_blob_bytes en"
proof -
  let ?n = "if cfg_budget_bytes cfg \<noteq> 0 then cfg_budget_bytes cfg else mul64 4 (e_blob_bytes en)"
  obtain ca where "cache_init cache_new ?n (host_backend sys) = (True, ca)"
    using assms(4) [of ?n] by (simp add: cache_init_def cache_new_def arena_init_def arena_new_def del: if_split)
  then show ?thesis using assms(1-3) by (simp add: init_cache_def init_buffers_def Let_def prefetcher_init_def)
qed

lemma init_shard_state:
  assumes rd: "st_readable ts data" "holds m base (st_file ts data)" "base \<noteq> nullptr"
    and os: "0 \<le> os_open (sys_os sys) (cfg_shard_path cfg)"
      "os_fstat (sys_os sys) (os_open (sys_os sys) (cfg_shard_path cfg)) = Some (length (st_file ts data))"
      "os_mmap (sys_os sys) (os_open (sys_os sys) (cfg_shard_path cfg)) (length (st_file ts data)) = Some base"
    and t: "t \<in> set ts" "st_name t = expert_tensor_name 0 0 GATE_PROJ" "st_start t < st_end t" "st_shape t = [i, h]"
    and h: "to_int32 h = cfg_hidden cfg"
  shows "\<exists>w. wm_base w = base \<and> read_u64 m base = length (st_header ts) \<and> wm_header_json w = st_header ts \<and>
    wm_tensors w = foldl add_entry [] (map st_entry ts) \<and>
    init_shard sys (engine_new m) cfg =
      Ret (True, set_dims ((engine_new m)\<lparr>e_cfg := cfg, e_mmap := w, e_shards := [w]\<rparr>) (to_int32 i) (to_int32 h))"
proof -
  let ?en1 = "set_dims ((engine_new m)\<lparr>e_cfg := cfg\<rparr>) 256 (cfg_hidden cfg)"
  obtain w where w: "mmap_open (sys_os sys) m mmap_new (cfg_shard_path cfg) = Inr (True, w)" "wm_base w = base"
    "read_u64 m base = length (st_header ts)" "wm_header_json w = st_header ts" "wm_tensors w = foldl add_entry [] (map st_entry ts)"
    using open_st_file [OF rd(1,2) os, of mmap_new] by blast
  have v: "mmap_lookup m w (expert_tensor_name 0 0 GATE_PROJ) =
      \<lparr>v_data = base + (8 + length (st_header ts) + st_start t), v_nbytes = st_end t - st_start t,
       v_dtype = dtype_from_string (st_dtype t), v_shape = st_shape t\<rparr>"
    using lookup_st_file(1) [OF rd(1) w(2-5) t(1)] t(2) by simp
  let ?en3 = "?en1\<lparr>e_mmap := w, e_shards := [w]\<rparr>"
  have gv: "resolve_expert m [w] 0 0 GATE_PROJ = mmap_lookup m w (expert_tensor_name 0 0 GATE_PROJ)"
    using v t(3) by (simp add: resolve_expert_def Let_def view_ok_def)
  have sh: "e_shards ?en1 = []" "e_mmap ?en1 = mmap_new" "e_mem ?en1 = m" by (simp_all add: engine_new_def set_dims_def Let_def)
  have "avail_layer ?en3 0 = 0" by (simp add: avail_layer_def)
  then have "check_dims ?en3 cfg = (True, set_dims ?en3 (to_int32 i) (to_int32 h))"
    using gv v t h sh by (simp add: check_dims_def Let_def view_ok_def)
  then have "init_shard sys (engine_new m) cfg = Ret (True, set_dims ?en3 (to_int32 i) (to_int32 h))"
    using w(1) sh by (simp add: init_shard_def Let_def of_exn_def register_shard_def)
  moreover have "set_dims ?en3 (to_int32 i) (to_int32 h) =
      set_dims ((engine_new m)\<lparr>e_cfg := cfg, e_mmap := w, e_shards := [w]\<rparr>) (to_int32 i) (to_int32 h)"
    by (simp add: set_dims_def Let_def)
  ultimately show ?thesis using w(2-5) by auto
qed

lemma init_shard_succeeds:
  assumes rd: "st_readable ts data" "holds m base (st_file ts data)" "base \<noteq> nullptr"
    and os: "0 \<le> os_open (sys_os sys) (cfg_shard_path cfg)"
      "os_fstat (sys_os sys) (os_open (sys_os sys) (cfg_shard_path cfg)) = Some (length (st_file ts data))"
      "os_mmap (sys_os sys) (os_open (sys_os sys) (cfg_shard_path cfg)) (length (st_file ts data)) = Some base"
    and t: "t \<in> set ts" "st_name t = expert_tensor_name 0 0 GATE_PROJ" "st_start t < st_end t" "st_shape t = [i, h]"
    and h: "to_int32 h = cfg_hidden cfg"
  shows "\<exists>en. init_shard sys (engine_new m) cfg = Ret (True, en) \<and> p_cache (e_pf en) = cache_new \<and>
    e_blob_bytes en = e_blob_bytes (set_dims (engine_new m) (to_int32 i) (to_int32 h))"
proof -
  obtain w where "init_shard sys (engine_new m) cfg =
      Ret (True, set_dims ((engine_new m)\<lparr>e_cfg := cfg, e_mmap := w, e_shards := [w]\<rparr>) (to_int32 i) (to_int32 h))"
    using init_shard_state [OF assms] by blast
  then show ?thesis by (auto simp: engine_new_def prefetcher_new_def set_dims_def Let_def)
qed

lemma init_succeeds:
  assumes rd: "st_readable ts data" "holds m base (st_file ts data)" "base \<noteq> nullptr"
    and os: "0 \<le> os_open (sys_os sys) (cfg_shard_path cfg)"
      "os_fstat (sys_os sys) (os_open (sys_os sys) (cfg_shard_path cfg)) = Some (length (st_file ts data))"
      "os_mmap (sys_os sys) (os_open (sys_os sys) (cfg_shard_path cfg)) (length (st_file ts data)) = Some base"
    and t: "t \<in> set ts" "st_name t = expert_tensor_name 0 0 GATE_PROJ" "st_start t < st_end t" "st_shape t = [i, h]"
    and h: "to_int32 h = cfg_hidden cfg" "0 \<le> cfg_hidden cfg" "\<not> cfg_use_cuda cfg" "\<And>n. sys_malloc sys n \<noteq> nullptr"
    and orc: "\<And>sc D. \<exists>sc'. oracle_load (sys_files sys) z sc (cfg_oracle_path cfg) D 256 256 = Ret (True, sc')"
  shows "\<exists>en. init sys z (engine_new m) cfg = Ret (True, en) \<and> e_blob_bytes en = e_blob_bytes (set_dims (engine_new m) (to_int32 i) (to_int32 h))"
proof -
  obtain en where en: "init_shard sys (engine_new m) cfg = Ret (True, en)" "p_cache (e_pf en) = cache_new"
    "e_blob_bytes en = e_blob_bytes (set_dims (engine_new m) (to_int32 i) (to_int32 h))"
    using init_shard_succeeds [OF rd os t h(1)] by blast
  obtain sc' where sc': "oracle_load (sys_files sys) z (e_oracle en) (cfg_oracle_path cfg) (e_hidden en) 256 256 = Ret (True, sc')"
    using orc by blast
  have "\<exists>en'. init_cache sys (en\<lparr>e_oracle := sc', e_cfg := c\<rparr>) cfg = Ret (True, en') \<and> e_blob_bytes en' = e_blob_bytes en" for c
    using init_cache_succeeds [of "en\<lparr>e_oracle := sc', e_cfg := c\<rparr>" cfg sys] en(2) h by simp
  then show ?thesis using en sc' by (simp add: init_def Let_def)
qed

section \<open>Staged weights\<close>

definition bf16_real :: "16 word \<Rightarrow> real" where
  "bf16_real h = (case bf16_value h of None \<Rightarrow> 0 | Some r \<Rightarrow> r)"

lemma f32_real_bf16: "f32_real (bf16_to_f32 h) = bf16_real h"
  by (simp add: f32_real_def bf16_real_def bf16_value_eq)

definition shard_values :: "Engine \<Rightarrow> TensorView \<Rightarrow> real list" where
  "shard_values en v = map (\<lambda>i. bf16_real (read_u16 (e_mem en) (v_data v + i * 2))) [0 ..< e_inter en * e_hidden en]"

lemma blob_values:
  "map f32_real (blob_words en gv uv dv) = shard_values en gv @ shard_values en uv @ shard_values en dv"
  "length (blob_words en gv uv dv) = 3 * e_inter en * e_hidden en"
  by (simp_all add: blob_words_def shard_values_def Let_def f32_real_bf16)

section \<open>Resident experts\<close>

lemma resident_bound:
  assumes "cache_ok n c" and "distinct experts"
  shows "length (filter (\<lambda>e. cache_region c (ExpertKey layer (int e)) \<noteq> None) experts) \<le> a_cap (c_arena c) div n"
proof -
  let ?es = "filter (\<lambda>e. cache_region c (ExpertKey layer (int e)) \<noteq> None) experts"
  have inv: "cache_inv c" and n: "0 < n" and u: "cache_uniform n c" using assms(1) by (simp_all add: cache_ok_def)
  have "(\<lambda>e. ExpertKey layer (int e)) ` set ?es \<subseteq> b_key ` set (c_blocks c)"
    using cache_region_None [OF inv] by force
  then have "card ((\<lambda>e. ExpertKey layer (int e)) ` set ?es) \<le> card (set (c_blocks c))"
    using card_image_le [of "set (c_blocks c)" b_key] card_mono [of "b_key ` set (c_blocks c)"]
    by (meson finite_imageI finite_set le_trans)
  moreover have "card ((\<lambda>e. ExpertKey layer (int e)) ` set ?es) = length ?es"
    using distinct_card [OF distinct_filter [OF assms(2)]] by (subst card_image) (simp_all add: inj_on_def)
  moreover have "n * card (set (c_blocks c)) \<le> a_cap (c_arena c)"
    using cache_uniform_used [OF inv u] cache_used_le [OF inv] by simp
  ultimately have "n * length ?es \<le> a_cap (c_arena c)" by (metis le_trans mult_le_mono2)
  then show ?thesis using n by (simp add: less_eq_div_iff_mult_less_eq mult.commute)
qed

lemma requests_keys: "fst ` set (requests k layer experts) = (\<lambda>e. ExpertKey layer (int e)) ` set experts"
  unfolding requests_def by (force simp: in_set_conv_nth image_iff)

lemma forward_layer_resident:
  assumes inv: "prefetcher_inv src n sp (e_mem en, e_pf en)" and n: "e_blob_bytes en = n" "4 * e_blob_elems en = n"
    and l: "is_int32 layer" and p: "oracle_predict (env_sort env) (e_oracle en) layer h_in (cfg_topk (e_cfg en)) = Inr experts"
    and st: "staged src en layer experts" and i: "\<forall>e \<in> set experts. is_int32 (int e)"
    and len: "length (p_inflight (e_pf en)) + length experts < 2 ^ 31"
  shows "\<exists>en'. forward_layer env en layer h_in =
      Inr (combine (e_hidden en) (length experts) (foldl (add_expert src (e_mem en) en layer h_in) (replicate (e_hidden en) 0)
        (filter (\<lambda>e. cache_is_resident (p_cache (e_pf (stage_all env en layer experts))) layer (int e)) experts)), en')"
    and "cache_ok n (p_cache (e_pf (stage_all env en layer experts)))"
    and "cache_space (p_cache (e_pf (stage_all env en layer experts))) = sp"
proof -
  let ?rq = "requests (cfg_topk (e_cfg en)) layer experts"
  let ?en1 = "stage_all env en layer experts"
  have en1: "?en1 = en\<lparr>e_pf := prefetch_all src n ?rq (e_pf en)\<rparr>" using stage_all_warm [OF st] n(1) by simp
  have "\<forall>k \<in> fst ` set ?rq. key_ok k" unfolding requests_keys using i l by (simp add: key_ok_def)
  moreover have "length (p_inflight (e_pf en)) + length ?rq < 2 ^ 31" using len by (simp add: requests_def)
  ultimately have pa: "prefetcher_inv src n sp (e_mem en, e_pf ?en1)"
    "\<forall>k \<in> fst ` set ?rq. issued (e_pf ?en1) k"
    using prefetch_all_inv [OF inv] en1 by auto
  have "using_ok src n sp (e_mem en) (cache_region (p_cache (e_pf ?en1))) layer experts ?en1"
    using pa i n(2) unfolding using_ok_def requests_keys by (simp add: en1)
  from use_all_ok [OF this l subset_refl, of h_in "replicate (e_hidden en) 0"]
  have "\<exists>en'. foldl (use_expert layer h_in) (?en1, replicate (e_hidden en) 0) experts =
      (en', foldl (add_expert src (e_mem en) ?en1 layer h_in) (replicate (e_hidden en) 0)
         (filter (\<lambda>e. cache_region (p_cache (e_pf ?en1)) (ExpertKey layer (int e)) \<noteq> None) experts))" by blast
  moreover have "add_expert src (e_mem en) ?en1 layer h_in = add_expert src (e_mem en) en layer h_in"
    by (simp add: fun_eq_iff add_expert_def en1)
  ultimately show "\<exists>en'. forward_layer env en layer h_in =
      Inr (combine (e_hidden en) (length experts) (foldl (add_expert src (e_mem en) en layer h_in) (replicate (e_hidden en) 0)
        (filter (\<lambda>e. cache_is_resident (p_cache (e_pf ?en1)) layer (int e)) experts)), en')"
    using p by (auto simp: forward_layer_def Let_def cache_data_region(3))
  show "cache_ok n (p_cache (e_pf ?en1))" "cache_space (p_cache (e_pf ?en1)) = sp" using prefetcher_invD [OF pa(1)] by blast+
qed

section \<open>Properties\<close>

text \<open>
  C8: what a forward pass computes. In every reachable state of the prefetcher in which the blobs of
  the predicted experts are staged, the pass returns the normalised mean over all \<open>K\<close> predicted
  experts of the SwiGLU outputs on exactly the staged weights, but summed only over those experts
  that are still resident after the layer's prefetches. Experts evicted by later requests of the same
  layer are skipped silently, and at most as many experts contribute as the budget holds blobs.
\<close>

theorem forward_layer_correct:
  assumes "prefetcher_reachable src (e_blob_bytes en) cap (e_mem en, e_pf en)" and "e_blob_bytes en = 4 * e_blob_elems en"
    and "is_int32 layer" and "oracle_predict (env_sort env) (e_oracle en) layer h_in (cfg_topk (e_cfg en)) = Inr experts"
    and "staged src en layer experts" and "\<forall>e \<in> set experts. is_int32 (int e)" and "distinct experts"
    and "length (p_inflight (e_pf en)) + length experts < 2 ^ 31"
    and "resident = filter (\<lambda>e. cache_is_resident (p_cache (e_pf (stage_all env en layer experts))) layer (int e)) experts"
  shows "(\<exists>en'. forward_layer env en layer h_in = Inr (combine (e_hidden en) (length experts)
      (foldl (\<lambda>acc e. swiglu (load_floats (e_mem en) (src (ExpertKey layer (int e))) (e_blob_elems en)) h_in
          (e_inter en) (e_hidden en) acc) (replicate (e_hidden en) 0) resident), en')) \<and>
    length resident \<le> a_cap (c_arena (p_cache (e_pf en))) div e_blob_bytes en"
proof -
  have inv: "prefetcher_inv src (e_blob_bytes en) (cache_space (p_cache (e_pf en))) (e_mem en, e_pf en)"
    using prefetcher_reachable_inv [OF assms(1)] by simp
  note f = forward_layer_resident [OF inv refl assms(2) [symmetric] assms(3-6,8)]
  have "length resident \<le> a_cap (c_arena (p_cache (e_pf (stage_all env en layer experts)))) div e_blob_bytes en"
    using resident_bound [OF f(2) assms(7), of layer] unfolding assms(9) cache_data_region(3) .
  moreover have "add_expert src (e_mem en) en layer h_in =
      (\<lambda>acc e. swiglu (load_floats (e_mem en) (src (ExpertKey layer (int e))) (e_blob_elems en)) h_in (e_inter en) (e_hidden en) acc)"
    by (simp add: add_expert_def fun_eq_iff)
  ultimately show ?thesis using f(1,3) assms(9) by (simp add: cache_space_def)
qed

definition example_env :: Env where
  "example_env = \<lparr>env_sort = insertion_sort, env_new_vector = (\<lambda>_. 300000), env_elapsed = 0\<rparr>"

definition example_engine :: Engine where
  "example_engine = (engine_new example_memory)\<lparr>e_cfg := default_config\<lparr>cfg_topk := 1\<rparr>, e_oracle := example_oracle,
     e_pf := example_prefetcher, e_hidden := 1, e_inter := 1, e_blob_elems := 64, e_blob_bytes := 256, e_staging := [(1, 200000)]\<rparr>"

theorem forward_layer_correct_witness:
  "\<exists>en'. forward_layer example_env example_engine 0 [1] = Inr (combine 1 1
     (swiglu (load_floats example_memory 200000 64) [1] 1 1 [0]), en')"
proof -
  have pr: "oracle_predict (env_sort example_env) (e_oracle example_engine) 0 [1] (cfg_topk (e_cfg example_engine)) = Inr [1]"
    by (simp add: example_env_def example_engine_def oracle_predict_def oracle_forward_def example_oracle_def Let_def linear_def
        relu_def insertion_sort_def upt_rec [of _ 3] upt_rec [of _ 1] default_config_def)
  have st: "staged example_src example_engine 0 [1]"
    by (simp add: staged_def example_engine_def example_src_def)
  have r: "prefetcher_reachable example_src (e_blob_bytes example_engine) 512 (e_mem example_engine, e_pf example_engine)"
    using example_prefetcher_reachable [of example_memory] by (simp add: example_engine_def engine_new_def)
  have res: "cache_is_resident (p_cache (e_pf (stage_all example_env example_engine 0 [1]))) 0 1"
    unfolding stage_all_warm [OF st]
    by (simp add: example_engine_def requests_def prefetcher_eval example_src_def engine_new_def)
  have "e_blob_bytes example_engine = 4 * e_blob_elems example_engine" "length (p_inflight (e_pf example_engine)) + length [1::nat] < 2 ^ 31"
    by (simp_all add: example_engine_def example_prefetcher_def prefetcher_init_def prefetcher_new_def)
  with forward_layer_correct [OF r _ _ pr st _ _ _ refl] res show ?thesis
    by (simp add: is_int32_def example_engine_def example_src_def engine_new_def)
qed

lemma engine_run_ok:
  assumes "init sys z (engine_new m) cfg = Ret (True, en)" and "budget_of cfg en + e_blob_bytes en < size_mod"
  shows "\<exists>out en'. generate env en = Inr (out, en') \<and> es_peak_vram (e_stats en') \<le> budget_of cfg en \<and>
    es_tokens (e_stats en') = cfg_num_tokens (e_cfg en)"
proof -
  obtain c where c: "cache_init cache_new (budget_of cfg en) (host_backend sys) = (True, c)"
    "prefetcher_init (prefetcher_new c 64) False = (True, e_pf en)"
    "cfg_num_layers (e_cfg en) \<le> int (length (o_layers (e_oracle en)))" "es_peak_vram (e_stats en) = 0"
    using init_result [OF assms(1)] by metis
  have "e_pf en = (prefetcher_new c 64)\<lparr>p_use_cuda := False\<rparr>" using c(2) by (simp add: prefetcher_init_def)
  then have "p_cache (e_pf en) = c" by (simp add: prefetcher_new_def)
  then have "cache_reachable (budget_of cfg en) (p_cache (e_pf en))" using c(1) assms(2) by (auto intro: cache_reachable.start)
  then have "same_run (budget_of cfg en) en en" using assms(2) by (simp add: same_run_def)
  from generate_keeps [OF this c(3)] show ?thesis using c(4) by simp
qed


text \<open>A shard with one projection of a 1 by 1 expert, and the complete oracle archive.\<close>

definition example_shard :: StTensor where
  "example_shard = \<lparr>st_name = expert_tensor_name 0 0 GATE_PROJ, st_dtype = ''BF16'', st_shape = [1, 1], st_start = 0, st_end = 2\<rparr>"

definition example_sys :: Sys where
  "example_sys = \<lparr>sys_os = mapping_os (length (st_file [example_shard] [0, 0])),
     sys_files = example_files, sys_malloc = (\<lambda>_. 65536)\<rparr>"

lemma example_shard_readable: "st_readable [example_shard] [0, 0]"
  by (simp add: st_readable_def example_shard_def is_int64_def st_file_def le64_def st_header_def st_entry_def
      expert_tensor_name_def kind_name_def quote_def escape_def show_int_def show_nat.simps digit_def)



text \<open>
  C23: staging converts the shard exactly, and always from layer 0. The blob that is staged for an
  expert, for whatever model layer it was requested, decodes to the values of the three BF16
  projections of that expert in layer 0 of the shard; nothing else is written.
\<close>

theorem staging_converts_layer_zero:
  assumes "map_of (e_staging en) e = None"
    and "\<forall>k. view_ok (resolve_expert (e_mem en) (e_shards en) 0 e k)" and "get_staging env en e = (p, en')"
  shows "p = env_new_vector env e \<and> map_of (e_staging en') e = Some p \<and>
    load_floats (e_mem en') p (3 * e_inter en * e_hidden en) =
      concat (map (\<lambda>k. shard_values en (resolve_expert (e_mem en) (e_shards en) 0 e k)) [GATE_PROJ, UP_PROJ, DOWN_PROJ]) \<and>
    (\<forall>a. a \<notin> span p (12 * e_inter en * e_hidden en) \<longrightarrow> e_mem en' a = e_mem en a)"
proof -
  let ?v = "resolve_expert (e_mem en) (e_shards en) 0 e"
  let ?ws = "blob_words en (?v GATE_PROJ) (?v UP_PROJ) (?v DOWN_PROJ)"
  have "avail_layer en 0 = 0" by (simp add: avail_layer_def)
  then have r: "p = env_new_vector env e" "e_mem en' = store_floats (e_mem en) p ?ws" "e_staging en' = (e, p) # e_staging en"
    using assms by (auto simp: get_staging_def Let_def)
  have ws: "4 * length ?ws = 12 * e_inter en * e_hidden en" by (simp add: blob_values(2))
  have "e_mem en' a = e_mem en a" if "a \<notin> span p (12 * e_inter en * e_hidden en)" for a
    using store_floats_outside [of a p ?ws, unfolded ws, OF that] r(2) by simp
  moreover have "load_floats (e_mem en') p (3 * e_inter en * e_hidden en) = map f32_real ?ws"
    using load_store_floats [of "e_mem en" p ?ws] blob_values(2) r(2) by metis
  ultimately show ?thesis using r blob_values(1) by simp
qed

definition example_mmap :: WeightMmap where
  "example_mmap = \<lparr>wm_fd = 3, wm_base = 4096, wm_size = 100, wm_header_json = ''{}'',
     wm_tensors = map (\<lambda>k. (expert_tensor_name 0 5 k, \<lparr>m_data_offset = 0, m_nbytes = 2, m_dtype = BF16, m_shape = [1, 1]\<rparr>))
       [GATE_PROJ, UP_PROJ, DOWN_PROJ]\<rparr>"

theorem staging_converts_layer_zero_witness:
  "load_floats (e_mem (snd (get_staging example_env (example_engine\<lparr>e_shards := [example_mmap], e_mem := \<lambda>_. 0\<rparr>) 5))) 300000 3 =
     [bf16_real 0, bf16_real 0, bf16_real 0]"
proof -
  let ?en = "example_engine\<lparr>e_shards := [example_mmap], e_mem := \<lambda>_. 0\<rparr>"
  have "is_int32 0" "is_int32 5" by (simp_all add: is_int32_def)
  then have "map_of (wm_tensors example_mmap) (expert_tensor_name 0 5 k) = Some \<lparr>m_data_offset = 0, m_nbytes = 2, m_dtype = BF16, m_shape = [1, 1]\<rparr>" for k
    using expert_tensor_name_inj [of 0 5 0 5 _ k] by (cases k) (auto simp: example_mmap_def)
  then have v: "view_ok (resolve_expert (e_mem ?en) (e_shards ?en) 0 5 k)" for k
    by (simp add: resolve_expert_def mmap_lookup_def Let_def view_ok_def) (simp add: example_mmap_def)
  have "map_of (e_staging ?en) 5 = None" by (simp add: example_engine_def)
  moreover obtain p en' where g: "get_staging example_env ?en 5 = (p, en')" by fastforce
  moreover have d: "e_inter ?en = 1" "e_hidden ?en = 1" "env_new_vector example_env 5 = 300000"
    by (simp_all add: example_engine_def example_env_def)
  ultimately have "p = 300000" "load_floats (e_mem en') p 3 =
      concat (map (\<lambda>k. shard_values ?en (resolve_expert (e_mem ?en) (e_shards ?en) 0 5 k)) [GATE_PROJ, UP_PROJ, DOWN_PROJ])"
    using staging_converts_layer_zero [of ?en 5 example_env p en'] v by auto
  moreover have "shard_values ?en v = [bf16_real 0]" for v using d by (simp add: shard_values_def read_u16_def)
  ultimately show ?thesis using g by simp
qed

end
