(* ===== verification/Cli.thy ===== *)
theory Cli
  imports Engine
begin

text \<open>
  The command line program \<^verbatim>\<open>main.cpp\<close>: its options, and \<^verbatim>\<open>main\<close>, which initialises the engine, generates and reports the
  statistics. The result is the record of statistics; \<open>Report\<close> has the printed text. The engine is that of the default build; \<open>EngineCudaRun\<close> has the other.
\<close>

section \<open>The command line\<close>

definition cli_defaults :: EngineConfig where
  "cli_defaults = default_config\<lparr>cfg_shard_path := ''tests/data/ornith_moe256.safetensors'',
     cfg_oracle_path := ''/mnt/c/Users/carth/Downloads/dynamic_expert_eviction/oracle.pt''\<rparr>"

text \<open>An option with a value; the value's \<^verbatim>\<open>long\<close> is cut to \<^verbatim>\<open>int\<close> or converted to \<^verbatim>\<open>size_t\<close>.\<close>

definition cli_option :: "string \<Rightarrow> (string \<Rightarrow> EngineConfig \<Rightarrow> EngineConfig) option" where
  "cli_option f =
     (if f = ''--shard'' then Some (\<lambda>v c. c\<lparr>cfg_shard_path := v\<rparr>)
      else if f = ''--oracle'' then Some (\<lambda>v c. c\<lparr>cfg_oracle_path := v\<rparr>)
      else if f = ''--tokens'' then Some (\<lambda>v c. c\<lparr>cfg_num_tokens := to_int32 (strtol v)\<rparr>)
      else if f = ''--topk'' then Some (\<lambda>v c. c\<lparr>cfg_topk := to_int32 (strtol v)\<rparr>)
      else if f = ''--layers'' then Some (\<lambda>v c. c\<lparr>cfg_num_layers := to_int32 (strtol v)\<rparr>)
      else if f = ''--budget'' then Some (\<lambda>v c. c\<lparr>cfg_budget_bytes := nat (strtol v mod 2 ^ 64)\<rparr>)
      else None)"

text \<open>The same option as the last word of the line.\<close>

definition cli_bare :: "string \<Rightarrow> EngineConfig \<Rightarrow> EngineConfig" where
  "cli_bare f c =
     (if f = ''--tokens'' then c\<lparr>cfg_num_tokens := 32\<rparr>
      else if f = ''--topk'' then c\<lparr>cfg_topk := 8\<rparr>
      else if f = ''--layers'' then c\<lparr>cfg_num_layers := 40\<rparr>
      else if f = ''--budget'' then c\<lparr>cfg_budget_bytes := 0\<rparr>
      else c)"

text \<open>\<open>None\<close> is an unknown argument.\<close>

fun cli_parse :: "EngineConfig \<Rightarrow> string list \<Rightarrow> EngineConfig option" where
  "cli_parse c [] = Some c"
| "cli_parse c (f # args) =
     (case cli_option f of
        Some upd \<Rightarrow> (case args of [] \<Rightarrow> Some (cli_bare f c) | v # args' \<Rightarrow> cli_parse (upd v c) args')
      | None \<Rightarrow>
          if f = ''--cuda'' then cli_parse (c\<lparr>cfg_use_cuda := True\<rparr>) args
          else if f = ''--verbose'' then cli_parse (c\<lparr>cfg_verbose := True\<rparr>) args
          else None)"

section \<open>\<^verbatim>\<open>main\<close>\<close>

definition cli_main :: "Env \<Rightarrow> Sys \<Rightarrow> 'z Zlib \<Rightarrow> memory \<Rightarrow> string list \<Rightarrow> (int \<times> EngineStats option) outcome" where
  "cli_main env sys z m args =
     (case cli_parse cli_defaults args of
        None \<Rightarrow> Ret (2, None)
      | Some cfg \<Rightarrow>
          bind_out (init sys z (engine_new m) cfg) (\<lambda>(ok, en).
            if \<not> ok then Ret (1, None)
            else bind_out (of_exn (generate env en)) (\<lambda>(_, en'). Ret (0, Some (e_stats en')))))"

section \<open>Properties\<close>

definition cli_line :: "EngineConfig \<Rightarrow> string list" where
  "cli_line c =
     [''--shard'', cfg_shard_path c, ''--oracle'', cfg_oracle_path c, ''--tokens'', show_int (cfg_num_tokens c),
      ''--topk'', show_int (cfg_topk c), ''--layers'', show_int (cfg_num_layers c), ''--budget'', show_int (int (cfg_budget_bytes c))] @
     (if cfg_use_cuda c then [''--cuda''] else []) @ (if cfg_verbose c then [''--verbose''] else [])"

definition cli_representable :: "EngineConfig \<Rightarrow> bool" where
  "cli_representable c \<longleftrightarrow> list_all is_int32 [cfg_num_tokens c, cfg_topk c, cfg_num_layers c] \<and> cfg_budget_bytes c < 2 ^ 63 \<and>
     cfg_hidden c = cfg_hidden cli_defaults \<and> cfg_inter c = cfg_inter cli_defaults"

lemma cli_option_values:
  "cli_option ''--shard'' = Some (\<lambda>v c. c\<lparr>cfg_shard_path := v\<rparr>)" "cli_option ''--oracle'' = Some (\<lambda>v c. c\<lparr>cfg_oracle_path := v\<rparr>)"
  "cli_option ''--tokens'' = Some (\<lambda>v c. c\<lparr>cfg_num_tokens := to_int32 (strtol v)\<rparr>)"
  "cli_option ''--topk'' = Some (\<lambda>v c. c\<lparr>cfg_topk := to_int32 (strtol v)\<rparr>)"
  "cli_option ''--layers'' = Some (\<lambda>v c. c\<lparr>cfg_num_layers := to_int32 (strtol v)\<rparr>)"
  "cli_option ''--budget'' = Some (\<lambda>v c. c\<lparr>cfg_budget_bytes := nat (strtol v mod 2 ^ 64)\<rparr>)"
  "cli_option ''--cuda'' = None" "cli_option ''--verbose'' = None"
  by (simp_all add: cli_option_def)

lemma strtol_int32: "is_int32 i \<Longrightarrow> to_int32 (strtol (show_int i)) = i"
  by (simp add: strtol_show is_int32_def is_int64_def to_int32_id)

lemma strtol_size: "n < 2 ^ 63 \<Longrightarrow> nat (strtol (show_int (int n)) mod 2 ^ 64) = n"
  by (simp add: strtol_show is_int64_def)

lemma cli_parse_line: "cli_representable c \<Longrightarrow> cli_parse cli_defaults (cli_line c) = Some c"
  by (cases c) (auto simp: cli_representable_def cli_line_def cli_option_values strtol_int32 strtol_size [simplified] cli_defaults_def default_config_def)

text \<open>
  Every configuration that the options can express is restored by parsing its command line, up to the bounds
  of the C types.
\<close>

theorem cli_line_roundtrip:
  assumes "cli_representable c"
  shows "cli_parse cli_defaults (cli_line c) = Some c"
  using assms by (rule cli_parse_line)

theorem cli_line_roundtrip_witness:
  "cli_parse cli_defaults (cli_line (default_config\<lparr>cfg_topk := - 3, cfg_budget_bytes := 4096, cfg_verbose := True\<rparr>)) =
     Some (default_config\<lparr>cfg_topk := - 3, cfg_budget_bytes := 4096, cfg_verbose := True\<rparr>)"
  by (rule cli_line_roundtrip) (simp add: cli_representable_def cli_defaults_def default_config_def is_int32_def)

text \<open>
  The program ends with code 0 whenever its arguments are accepted and the engine initialises; the statistics
  that it prints then count the tokens of the configuration and never exceed the budget.
\<close>

theorem cli_reports_within_budget:
  assumes "cli_parse cli_defaults args = Some cfg" and "init sys z (engine_new m) cfg = Ret (True, en)"
    and "budget_of cfg en + e_blob_bytes en < size_mod"
  shows "\<exists>st. cli_main env sys z m args = Ret (0, Some st) \<and> es_tokens st = cfg_num_tokens (e_cfg en) \<and>
    es_peak_vram st \<le> budget_of cfg en"
  using engine_run_ok [OF assms(2,3), of env] assms(1,2) by (auto simp: cli_main_def of_exn_def)

definition wide_shard :: StTensor where
  "wide_shard = \<lparr>st_name = expert_tensor_name 0 0 GATE_PROJ, st_dtype = ''BF16'', st_shape = [1, 2048], st_start = 0, st_end = 2\<rparr>"

definition wide_sys :: Sys where
  "wide_sys = \<lparr>sys_os = mapping_os (length (st_file [wide_shard] [0, 0])), sys_files = example_files, sys_malloc = (\<lambda>_. 65536)\<rparr>"

lemma wide_shard_readable: "st_readable [wide_shard] [0, 0]"
  by (simp add: st_readable_def wide_shard_def is_int64_def st_file_def le64_def st_header_def st_entry_def
      expert_tensor_name_def kind_name_def quote_def escape_def show_int_def show_nat.simps digit_def)

theorem cli_reports_within_budget_witness:
  "\<exists>st. cli_main example_env wide_sys no_zlib (mapped (st_file [wide_shard] [0, 0])) [''--tokens'', ''5''] = Ret (0, Some st) \<and>
     es_peak_vram st \<le> 98304"
proof -
  let ?m = "mapped (st_file [wide_shard] [0, 0])" and ?cfg = "cli_defaults\<lparr>cfg_num_tokens := to_int32 (strtol ''5'')\<rparr>"
  have p: "cli_parse cli_defaults [''--tokens'', ''5''] = Some ?cfg" by (simp add: cli_option_values)
  obtain en where en: "init wide_sys no_zlib (engine_new ?m) ?cfg = Ret (True, en)"
    and b: "e_blob_bytes en = e_blob_bytes (set_dims (engine_new ?m) (to_int32 1) (to_int32 2048))"
    using init_succeeds [OF wide_shard_readable mapped_holds, of wide_sys ?cfg wide_shard 1 2048 no_zlib]
      example_oracle_loads [of no_zlib]
    by (auto simp: wide_sys_def mapping_os_def wide_shard_def to_int32_def cli_defaults_def default_config_def)
  have "e_blob_bytes en = 24576" using b by (simp add: set_dims_def to_int32_def mul64_def size_mod_def)
  then have "budget_of ?cfg en = 98304" "budget_of ?cfg en + e_blob_bytes en < size_mod"
    by (simp_all add: budget_of_def cli_defaults_def default_config_def mul64_def size_mod_def)
  with cli_reports_within_budget [OF p en, of example_env] show ?thesis by auto
qed

end
