(* ===== verification/SlotCache.thy ===== *)
theory SlotCache
  imports Complex_Main VramCache
begin

text \<open>
  The fixed-slot cache: the class \<^verbatim>\<open>dee::VramCacheManager\<close> of \<^verbatim>\<open>include/dee/vram_cache_manager.h\<close> and
  \<^verbatim>\<open>src/vram_cache_manager.cpp\<close>. Its key struct has the two fields of \<open>ExpertKey\<close>. The oracle that
  gives priorities is an abstract class of the code, a parameter here; priorities are real numbers
  (a trained oracle yields no NaN). The clock counts operations and is a natural number.
\<close>

section \<open>State\<close>

record CachedExpert =
  ce_key :: ExpertKey
  ce_slot :: int
  ce_bytes :: nat
  ce_last_used :: nat
  ce_priority :: real

record SlotCache =
  sc_slot_bytes :: nat
  sc_num_slots :: int
  sc_arena :: nat
  sc_free :: "int list"
  sc_cached :: "CachedExpert list"
  sc_clock :: nat
  sc_last_evicted :: ExpertKey

record AcquireResult =
  ar_ptr :: nat
  ar_slot :: int
  ar_hit :: bool

section \<open>Operations\<close>

text \<open>\<open>device_malloc\<close> is what the device's allocator returns for a size. The free list is a stack
  whose top is the last element.\<close>

definition slot_cache_new :: "(nat \<Rightarrow> nat) \<Rightarrow> nat \<Rightarrow> int \<Rightarrow> exn + SlotCache" where
  "slot_cache_new device_malloc slot_bytes num_slots =
     (if num_slots \<le> 0 then Inl Invalid_argument
      else if slot_bytes = 0 then Inl Invalid_argument
      else let arena = device_malloc (mul64 slot_bytes (nat num_slots))
           in if arena = nullptr then Inl Bad_alloc
              else Inr \<lparr>sc_slot_bytes = slot_bytes, sc_num_slots = num_slots, sc_arena = arena,
                        sc_free = rev [0 .. num_slots - 1], sc_cached = [], sc_clock = 0,
                        sc_last_evicted = ExpertKey (- 1) (- 1)\<rparr>)"

definition slot_ptr :: "SlotCache \<Rightarrow> int \<Rightarrow> nat" where
  "slot_ptr c slot = sc_arena c + mul64 (nat (slot mod 2 ^ 64)) (sc_slot_bytes c)"

definition find_cached :: "SlotCache \<Rightarrow> ExpertKey \<Rightarrow> CachedExpert option" where
  "find_cached c key = List.find (\<lambda>ce. ce_key ce = key) (sc_cached c)"

fun pick_victim :: "CachedExpert option \<Rightarrow> CachedExpert list \<Rightarrow> CachedExpert option" where
  "pick_victim victim [] = victim"
| "pick_victim victim (ce # ces) =
     (case victim of
        None \<Rightarrow> pick_victim (Some ce) ces
      | Some v \<Rightarrow>
          if ce_priority ce < ce_priority v \<or>
             (ce_priority ce = ce_priority v \<and> ce_last_used ce < ce_last_used v)
          then pick_victim (Some ce) ces
          else pick_victim victim ces)"

text \<open>With nothing cached the code dereferences a null pointer; \<open>None\<close> stands for that.\<close>

definition evict_victim :: "SlotCache \<Rightarrow> (int \<times> SlotCache) option" where
  "evict_victim c =
     (case pick_victim None (sc_cached c) of
        None \<Rightarrow> None
      | Some v \<Rightarrow> Some (ce_slot v,
          c\<lparr>sc_cached := filter (\<lambda>ce. ce_key ce \<noteq> ce_key v) (sc_cached c), sc_last_evicted := ce_key v\<rparr>))"

definition refresh :: "SlotCache \<Rightarrow> ExpertKey \<Rightarrow> SlotCache" where
  "refresh c key =
     c\<lparr>sc_clock := Suc (sc_clock c),
       sc_cached := map (\<lambda>ce. if ce_key ce = key then ce\<lparr>ce_last_used := Suc (sc_clock c)\<rparr> else ce) (sc_cached c)\<rparr>"

definition take_slot :: "SlotCache \<Rightarrow> (int \<times> SlotCache) option" where
  "take_slot c = (if sc_free c \<noteq> [] then Some (last (sc_free c), c\<lparr>sc_free := butlast (sc_free c)\<rparr>) else evict_victim c)"

definition slot_acquire ::
  "(int \<Rightarrow> int \<Rightarrow> real) \<Rightarrow> SlotCache \<Rightarrow> ExpertKey \<Rightarrow> nat \<Rightarrow> exn + (AcquireResult \<times> SlotCache) option" where
  "slot_acquire priority c key expert_bytes =
     (if sc_slot_bytes c < expert_bytes then Inl Invalid_argument
      else case find_cached c key of
             Some ce \<Rightarrow> Inr (Some (\<lparr>ar_ptr = slot_ptr c (ce_slot ce), ar_slot = ce_slot ce, ar_hit = True\<rparr>, refresh c key))
           | None \<Rightarrow>
               (case take_slot c of
                  None \<Rightarrow> Inr None
                | Some (slot, c1) \<Rightarrow>
                    let ce = \<lparr>ce_key = key, ce_slot = slot, ce_bytes = expert_bytes, ce_last_used = Suc (sc_clock c1),
                              ce_priority = priority (key_layer key) (key_expert key)\<rparr>
                    in Inr (Some (\<lparr>ar_ptr = slot_ptr c1 slot, ar_slot = slot, ar_hit = False\<rparr>,
                         c1\<lparr>sc_clock := Suc (sc_clock c1),
                            sc_cached := filter (\<lambda>ce. ce_key ce \<noteq> key) (sc_cached c1) @ [ce]\<rparr>))))"

definition slot_contains :: "SlotCache \<Rightarrow> ExpertKey \<Rightarrow> bool" where
  "slot_contains c key \<longleftrightarrow> find_cached c key \<noteq> None"

definition ptr_of :: "SlotCache \<Rightarrow> ExpertKey \<Rightarrow> nat" where
  "ptr_of c key = (case find_cached c key of None \<Rightarrow> nullptr | Some ce \<Rightarrow> slot_ptr c (ce_slot ce))"

definition slot_of :: "SlotCache \<Rightarrow> ExpertKey \<Rightarrow> int" where
  "slot_of c key = (case find_cached c key of None \<Rightarrow> - 1 | Some ce \<Rightarrow> ce_slot ce)"

definition slot_touch :: "SlotCache \<Rightarrow> ExpertKey \<Rightarrow> SlotCache" where
  "slot_touch c key = (case find_cached c key of None \<Rightarrow> c | Some _ \<Rightarrow> refresh c key)"

text \<open>The accessors, and the destructor, which gives the address of the arena back to the device.\<close>

definition slot_info :: "SlotCache \<Rightarrow> ExpertKey \<Rightarrow> CachedExpert option" where
  "slot_info c key = find_cached c key"

definition slot_cache_num_slots :: "SlotCache \<Rightarrow> int" where
  "slot_cache_num_slots c = sc_num_slots c"

definition slot_cache_slot_bytes :: "SlotCache \<Rightarrow> nat" where
  "slot_cache_slot_bytes c = sc_slot_bytes c"

definition slot_cache_last_evicted :: "SlotCache \<Rightarrow> ExpertKey" where
  "slot_cache_last_evicted c = sc_last_evicted c"

definition slot_cache_destroy :: "SlotCache \<Rightarrow> nat list" where
  "slot_cache_destroy c = (if sc_arena c \<noteq> nullptr then [sc_arena c] else [])"

definition num_cached :: "SlotCache \<Rightarrow> int" where
  "num_cached c = to_int32 (int (length (sc_cached c)))"

definition free_slots :: "SlotCache \<Rightarrow> int" where
  "free_slots c = to_int32 (int (length (sc_free c)))"

definition cached_keys :: "SlotCache \<Rightarrow> ExpertKey list" where
  "cached_keys c = map ce_key (sc_cached c)"

section \<open>The invariant\<close>

text \<open>
  Every slot is either free or holds exactly one expert; the arena does not wrap around the
  address space.
\<close>

definition slot_inv :: "SlotCache \<Rightarrow> bool" where
  "slot_inv c \<longleftrightarrow> 0 < sc_num_slots c \<and> 0 < sc_slot_bytes c \<and> sc_arena c \<noteq> nullptr \<and>
     sc_slot_bytes c * nat (sc_num_slots c) < size_mod \<and>
     distinct (map ce_key (sc_cached c)) \<and>
     distinct (map ce_slot (sc_cached c) @ sc_free c) \<and>
     set (map ce_slot (sc_cached c) @ sc_free c) = {0 ..< sc_num_slots c} \<and>
     (\<forall>ce \<in> set (sc_cached c). ce_bytes ce \<le> sc_slot_bytes c \<and> ce_last_used ce \<le> sc_clock c) \<and>
     distinct (map ce_last_used (sc_cached c))"

lemma slot_invD:
  assumes "slot_inv c"
  shows "0 < sc_num_slots c" "0 < sc_slot_bytes c" "sc_arena c \<noteq> nullptr"
    "sc_slot_bytes c * nat (sc_num_slots c) < size_mod" "distinct (map ce_key (sc_cached c))"
    "distinct (map ce_slot (sc_cached c) @ sc_free c)"
    "set (map ce_slot (sc_cached c) @ sc_free c) = {0 ..< sc_num_slots c}"
    "ce \<in> set (sc_cached c) \<Longrightarrow> ce_bytes ce \<le> sc_slot_bytes c \<and> ce_last_used ce \<le> sc_clock c"
    "distinct (map ce_last_used (sc_cached c))"
  using assms unfolding slot_inv_def by blast+

lemma slot_key_inj: "slot_inv c \<Longrightarrow> x \<in> set (sc_cached c) \<Longrightarrow> y \<in> set (sc_cached c) \<Longrightarrow> ce_key x = ce_key y \<Longrightarrow> x = y"
  using slot_invD(5) by (meson distinct_map inj_onD)

lemma slot_slot_inj: "slot_inv c \<Longrightarrow> x \<in> set (sc_cached c) \<Longrightarrow> y \<in> set (sc_cached c) \<Longrightarrow> ce_slot x = ce_slot y \<Longrightarrow> x = y"
  using slot_invD(6) by (meson distinct_append distinct_map inj_onD)

lemma find_cached_Some:
  assumes "slot_inv c"
  shows "find_cached c k = Some ce \<longleftrightarrow> ce \<in> set (sc_cached c) \<and> ce_key ce = k"
proof
  assume "find_cached c k = Some ce"
  then show "ce \<in> set (sc_cached c) \<and> ce_key ce = k" unfolding find_cached_def find_Some_iff by auto
next
  assume a: "ce \<in> set (sc_cached c) \<and> ce_key ce = k"
  then obtain d where d: "find_cached c k = Some d"
    by (cases "find_cached c k") (auto simp: find_cached_def find_None_iff)
  then have "d \<in> set (sc_cached c) \<and> ce_key d = k" unfolding find_cached_def find_Some_iff by auto
  with a d show "find_cached c k = Some ce" using slot_key_inj [OF assms] by metis
qed

lemma find_cached_None: "find_cached c k = None \<longleftrightarrow> (\<forall>ce \<in> set (sc_cached c). ce_key ce \<noteq> k)"
  by (auto simp: find_cached_def find_None_iff)

text \<open>The victim is minimal for the order of priorities, refined by age.\<close>

definition worse :: "CachedExpert \<Rightarrow> CachedExpert \<Rightarrow> bool" where
  "worse a b \<longleftrightarrow> ce_priority a < ce_priority b \<or> ce_priority a = ce_priority b \<and> ce_last_used a \<le> ce_last_used b"

lemma worse_trans: "worse a b \<Longrightarrow> worse b c \<Longrightarrow> worse a c"
  by (auto simp: worse_def)

lemma pick_victim_Some:
  "pick_victim (Some v) ces = Some w \<Longrightarrow>
     (w = v \<or> w \<in> set ces) \<and> worse w v \<and> (\<forall>ce \<in> set ces. worse w ce)"
proof (induction ces arbitrary: v)
  case Nil
  then show ?case by (simp add: worse_def)
next
  case (Cons ce ces)
  show ?case
  proof (cases "ce_priority ce < ce_priority v \<or> (ce_priority ce = ce_priority v \<and> ce_last_used ce < ce_last_used v)")
    case True
    then have "pick_victim (Some ce) ces = Some w" using Cons.prems by simp
    from Cons.IH [OF this] have IH: "w = ce \<or> w \<in> set ces" "worse w ce" "\<forall>ce \<in> set ces. worse w ce" by auto
    moreover have "worse ce v" using True by (auto simp: worse_def)
    ultimately show ?thesis using worse_trans [of w ce v] by auto
  next
    case False
    then have "pick_victim (Some v) ces = Some w" using Cons.prems by auto
    from Cons.IH [OF this] have IH: "w = v \<or> w \<in> set ces" "worse w v" "\<forall>ce \<in> set ces. worse w ce" by auto
    moreover have "worse v ce" using False by (auto simp: worse_def)
    ultimately show ?thesis using worse_trans [of w v ce] by auto
  qed
qed

lemma pick_victim_total: "\<exists>w. pick_victim (Some v) ces = Some w"
  by (induction ces arbitrary: v) auto

lemma pick_victim_min:
  assumes "ces \<noteq> []"
  shows "\<exists>w. pick_victim None ces = Some w \<and> w \<in> set ces \<and> (\<forall>ce \<in> set ces. worse w ce)"
proof -
  obtain c cs where "ces = c # cs" using assms by (cases ces) auto
  then show ?thesis using pick_victim_total [of c cs] pick_victim_Some [of c cs] by auto
qed

lemma evict_victim_ok:
  assumes inv: "slot_inv c" and full: "sc_free c = []"
  obtains v c1 where "evict_victim c = Some (ce_slot v, c1)" "v \<in> set (sc_cached c)"
    "\<forall>ce \<in> set (sc_cached c). worse v ce" "set (sc_cached c1) = set (sc_cached c) - {v}"
    "c1 = c\<lparr>sc_cached := filter (\<lambda>ce. ce_key ce \<noteq> ce_key v) (sc_cached c), sc_last_evicted := ce_key v\<rparr>"
proof -
  have "sc_cached c \<noteq> []"
    using slot_invD(1,7) [OF inv] full by (auto simp: set_eq_iff)
  then obtain v where v: "pick_victim None (sc_cached c) = Some v" "v \<in> set (sc_cached c)"
    "\<forall>ce \<in> set (sc_cached c). worse v ce" using pick_victim_min by blast
  let ?c1 = "c\<lparr>sc_cached := filter (\<lambda>ce. ce_key ce \<noteq> ce_key v) (sc_cached c), sc_last_evicted := ce_key v\<rparr>"
  have "set (sc_cached ?c1) = set (sc_cached c) - {v}"
    using slot_key_inj [OF inv _ v(2)] by auto
  then show thesis using that [of v ?c1] v by (simp add: evict_victim_def)
qed

lemma take_slot_ok:
  assumes inv: "slot_inv c"
  obtains slot c1 where "take_slot c = Some (slot, c1)"
    "slot \<in> {0 ..< sc_num_slots c}" "set (sc_cached c1) \<subseteq> set (sc_cached c)"
    "distinct (map ce_slot (sc_cached c1) @ sc_free c1)" "distinct (map ce_key (sc_cached c1))"
    "distinct (map ce_last_used (sc_cached c1))"
    "set (map ce_slot (sc_cached c1) @ sc_free c1) = {0 ..< sc_num_slots c} - {slot}"
    "sc_slot_bytes c1 = sc_slot_bytes c" "sc_num_slots c1 = sc_num_slots c" "sc_arena c1 = sc_arena c" "sc_clock c1 = sc_clock c"
proof (cases "sc_free c = []")
  case False
  then have split: "sc_free c = butlast (sc_free c) @ [last (sc_free c)]" by simp
  let ?c1 = "c\<lparr>sc_free := butlast (sc_free c)\<rparr>"
  have "distinct ((map ce_slot (sc_cached c) @ butlast (sc_free c)) @ [last (sc_free c)])"
    using slot_invD(6) [OF inv] split by simp
  then have d: "distinct (map ce_slot (sc_cached c) @ butlast (sc_free c))"
    "last (sc_free c) \<notin> set (map ce_slot (sc_cached c) @ butlast (sc_free c))" by simp_all
  have "set (map ce_slot (sc_cached c) @ sc_free c) =
      insert (last (sc_free c)) (set (map ce_slot (sc_cached c) @ butlast (sc_free c)))"
    using arg_cong [OF split, of set] by auto
  then have eq: "{0 ..< sc_num_slots c} = insert (last (sc_free c)) (set (map ce_slot (sc_cached c) @ butlast (sc_free c)))"
    using slot_invD(7) [OF inv] by (simp only:)
  have "set (map ce_slot (sc_cached c) @ butlast (sc_free c)) = {0 ..< sc_num_slots c} - {last (sc_free c)}"
    unfolding eq by (rule Diff_insert_absorb [OF d(2), symmetric])
  moreover have "last (sc_free c) \<in> {0 ..< sc_num_slots c}" unfolding eq by (rule insertI1)
  ultimately show thesis
    using that [of "last (sc_free c)" ?c1] False d(1) slot_invD(5,9) [OF inv] by (simp add: take_slot_def)
next
  case True
  obtain v c1 where v: "evict_victim c = Some (ce_slot v, c1)" "v \<in> set (sc_cached c)"
    "set (sc_cached c1) = set (sc_cached c) - {v}"
    "c1 = c\<lparr>sc_cached := filter (\<lambda>ce. ce_key ce \<noteq> ce_key v) (sc_cached c), sc_last_evicted := ce_key v\<rparr>"
    by (rule evict_victim_ok [OF inv True])
  have slots: "ce_slot ` set (sc_cached c) = {0 ..< sc_num_slots c}" using slot_invD(7) [OF inv] True by simp
  have "ce_slot ` (set (sc_cached c) - {v}) = ce_slot ` set (sc_cached c) - {ce_slot v}"
    using slot_slot_inj [OF inv _ v(2)] by auto
  then have "set (map ce_slot (sc_cached c1) @ sc_free c1) = {0 ..< sc_num_slots c} - {ce_slot v}"
    using v(3) slots True v(4) by simp
  moreover have "ce_slot v \<in> {0 ..< sc_num_slots c}" using slots v(2) by blast
  ultimately show thesis
    using that [of "ce_slot v" c1] v True slot_invD(5,6,9) [OF inv] by (simp add: take_slot_def distinct_map_filter)
qed

lemma slot_refresh_inv:
  assumes inv: "slot_inv c"
  shows "slot_inv (refresh c k)"
proof -
  let ?g = "\<lambda>ce. if ce_key ce = k then ce\<lparr>ce_last_used := Suc (sc_clock c)\<rparr> else ce"
  have keys: "map ce_key (map ?g (sc_cached c)) = map ce_key (sc_cached c)"
    "map ce_slot (map ?g (sc_cached c)) = map ce_slot (sc_cached c)" by auto
  have "inj_on (ce_last_used \<circ> ?g) (set (sc_cached c))"
  proof (rule inj_onI)
    fix x y
    assume x: "x \<in> set (sc_cached c)" and y: "y \<in> set (sc_cached c)" and eq: "(ce_last_used \<circ> ?g) x = (ce_last_used \<circ> ?g) y"
    have "ce_last_used x \<noteq> Suc (sc_clock c)" "ce_last_used y \<noteq> Suc (sc_clock c)"
      using slot_invD(8) [OF inv x] slot_invD(8) [OF inv y] by simp_all
    then have "ce_key x = k \<and> ce_key y = k \<or> ce_last_used x = ce_last_used y"
      using eq by (auto split: if_splits)
    moreover have "ce_last_used x = ce_last_used y \<Longrightarrow> x = y"
      using slot_invD(9) [OF inv] x y by (meson distinct_map inj_onD)
    ultimately show "x = y" using slot_key_inj [OF inv x y] by auto
  qed
  moreover have "distinct (sc_cached c)" using slot_invD(5) [OF inv] by (simp add: distinct_map)
  ultimately have "distinct (map ce_last_used (map ?g (sc_cached c)))"
    unfolding map_map by (simp only: distinct_map simp_thms)
  moreover have "\<forall>ce \<in> set (map ?g (sc_cached c)). ce_bytes ce \<le> sc_slot_bytes c \<and> ce_last_used ce \<le> Suc (sc_clock c)"
    using slot_invD(8) [OF inv] by force
  moreover have f: "sc_cached (refresh c k) = map ?g (sc_cached c)" "sc_num_slots (refresh c k) = sc_num_slots c"
    "sc_slot_bytes (refresh c k) = sc_slot_bytes c" "sc_arena (refresh c k) = sc_arena c"
    "sc_free (refresh c k) = sc_free c" "sc_clock (refresh c k) = Suc (sc_clock c)"
    by (simp_all add: refresh_def)
  ultimately show ?thesis
    unfolding slot_inv_def f keys using slot_invD(1-7) [OF inv] by blast
qed

lemma slot_acquire_cases:
  assumes inv: "slot_inv c" and n: "n \<le> sc_slot_bytes c"
  obtains (hit) ce where "find_cached c k = Some ce"
      "slot_acquire pr c k n = Inr (Some (\<lparr>ar_ptr = slot_ptr c (ce_slot ce), ar_slot = ce_slot ce, ar_hit = True\<rparr>, refresh c k))"
  | (load) slot c1 where "find_cached c k = None" "take_slot c = Some (slot, c1)"
      "slot_acquire pr c k n = Inr (Some (\<lparr>ar_ptr = slot_ptr c1 slot, ar_slot = slot, ar_hit = False\<rparr>,
         c1\<lparr>sc_clock := Suc (sc_clock c1), sc_cached := sc_cached c1 @ [\<lparr>ce_key = k, ce_slot = slot, ce_bytes = n,
           ce_last_used = Suc (sc_clock c1), ce_priority = pr (key_layer k) (key_expert k)\<rparr>]\<rparr>))"
proof (cases "find_cached c k")
  case (Some ce)
  then show thesis using hit [of ce] n by (simp add: slot_acquire_def)
next
  case None
  obtain slot c1 where t: "take_slot c = Some (slot, c1)" "set (sc_cached c1) \<subseteq> set (sc_cached c)"
    by (rule take_slot_ok [OF inv])
  have "filter (\<lambda>ce. ce_key ce \<noteq> k) (sc_cached c1) = sc_cached c1"
    using None t(2) by (auto simp: filter_id_conv find_cached_None)
  then show thesis using load [OF None t(1)] None t(1) n by (simp add: slot_acquire_def Let_def)
qed

lemma slot_acquire_inv:
  assumes inv: "slot_inv c" and ac: "slot_acquire pr c k n = Inr (Some (r, c'))" and n: "n \<le> sc_slot_bytes c"
  shows "slot_inv c'" "sc_slot_bytes c' = sc_slot_bytes c" "sc_num_slots c' = sc_num_slots c" "sc_arena c' = sc_arena c"
proof -
  have "slot_inv c' \<and> sc_slot_bytes c' = sc_slot_bytes c \<and> sc_num_slots c' = sc_num_slots c \<and> sc_arena c' = sc_arena c"
  proof (cases rule: slot_acquire_cases [OF inv n, where k = k and pr = pr])
    case (1 ce)
    then show ?thesis using ac slot_refresh_inv [OF inv] by (auto simp: refresh_def)
  next
    case (2 slot c1)
    obtain slot' c1' where t: "take_slot c = Some (slot', c1')"
      "slot' \<in> {0 ..< sc_num_slots c}" "set (sc_cached c1') \<subseteq> set (sc_cached c)"
      "distinct (map ce_slot (sc_cached c1') @ sc_free c1')" "distinct (map ce_key (sc_cached c1'))"
      "distinct (map ce_last_used (sc_cached c1'))"
      "set (map ce_slot (sc_cached c1') @ sc_free c1') = {0 ..< sc_num_slots c} - {slot'}"
      "sc_slot_bytes c1' = sc_slot_bytes c" "sc_num_slots c1' = sc_num_slots c" "sc_arena c1' = sc_arena c" "sc_clock c1' = sc_clock c"
      by (rule take_slot_ok [OF inv])
    have eq: "slot' = slot" "c1' = c1" using t(1) 2(2) by simp_all
    let ?ce = "\<lparr>ce_key = k, ce_slot = slot, ce_bytes = n, ce_last_used = Suc (sc_clock c1),
        ce_priority = pr (key_layer k) (key_expert k)\<rparr>"
    have c': "c' = c1\<lparr>sc_clock := Suc (sc_clock c1), sc_cached := sc_cached c1 @ [?ce]\<rparr>" using ac 2(3) by simp
    have lu: "ce_last_used ce \<le> sc_clock c" "ce_bytes ce \<le> sc_slot_bytes c" "ce_key ce \<noteq> k" if "ce \<in> set (sc_cached c1)" for ce
      using that t(3) eq slot_invD(8) [OF inv] 2(1) by (auto simp: find_cached_None)
    have "slot \<notin> set (map ce_slot (sc_cached c1) @ sc_free c1)" using t(7) eq by simp
    then have "distinct (map ce_slot (sc_cached c1 @ [?ce]) @ sc_free c1)" using t(4) eq by auto
    moreover have "set (map ce_slot (sc_cached c1 @ [?ce]) @ sc_free c1) = {0 ..< sc_num_slots c}"
    proof -
      have "set (map ce_slot (sc_cached c1 @ [?ce]) @ sc_free c1) = insert slot (set (map ce_slot (sc_cached c1) @ sc_free c1))" by auto
      then show ?thesis using t(2,7) eq by auto
    qed
    moreover have "distinct (map ce_key (sc_cached c1 @ [?ce]))" using t(5) eq lu(3) by auto
    moreover have "distinct (map ce_last_used (sc_cached c1 @ [?ce]))" using t(6,11) eq lu(1) by force
    moreover have "\<forall>ce \<in> set (sc_cached c1 @ [?ce]). ce_bytes ce \<le> sc_slot_bytes c \<and> ce_last_used ce \<le> Suc (sc_clock c1)"
      using lu(1,2) n t(11) eq by (auto simp: le_SucI)
    ultimately show ?thesis
      unfolding slot_inv_def c' using slot_invD(1-4) [OF inv] t(8-10) eq by simp
  qed
  then show "slot_inv c'" "sc_slot_bytes c' = sc_slot_bytes c" "sc_num_slots c' = sc_num_slots c" "sc_arena c' = sc_arena c" by blast+
qed

section \<open>The slot cache as an expert store\<close>

definition slot_region :: "SlotCache \<Rightarrow> ExpertKey \<Rightarrow> region option" where
  "slot_region c k = map_option (\<lambda>ce. (slot_ptr c (ce_slot ce), sc_slot_bytes c)) (find_cached c k)"

definition slot_get :: "(int \<Rightarrow> int \<Rightarrow> real) \<Rightarrow> nat \<Rightarrow> SlotCache \<Rightarrow> ExpertKey \<Rightarrow> unit \<Rightarrow> bool \<times> SlotCache" where
  "slot_get pr n c k _ = (case slot_acquire pr c k n of Inr (Some (r, c')) \<Rightarrow> (True, c') | _ \<Rightarrow> (False, c))"

definition slot_space :: "SlotCache \<Rightarrow> region" where
  "slot_space c = (sc_arena c, sc_slot_bytes c * nat (sc_num_slots c))"

definition slot_ok :: "nat \<Rightarrow> SlotCache \<Rightarrow> bool" where
  "slot_ok n c \<longleftrightarrow> slot_inv c \<and> n \<le> sc_slot_bytes c"

lemma slot_ptr_eq:
  assumes inv: "slot_inv c" and s: "0 \<le> s" "s < sc_num_slots c"
  shows "slot_ptr c s = sc_arena c + nat s * sc_slot_bytes c"
    and "nat s * sc_slot_bytes c + sc_slot_bytes c \<le> sc_slot_bytes c * nat (sc_num_slots c)"
proof -
  have "Suc (nat s) \<le> nat (sc_num_slots c)" using s by linarith
  then have "Suc (nat s) * sc_slot_bytes c \<le> nat (sc_num_slots c) * sc_slot_bytes c" by (rule mult_le_mono1)
  then show le: "nat s * sc_slot_bytes c + sc_slot_bytes c \<le> sc_slot_bytes c * nat (sc_num_slots c)"
    by (simp add: mult.commute)
  then have lt: "nat s * sc_slot_bytes c < size_mod" using slot_invD(4) [OF inv] by simp
  have "nat s \<le> nat s * sc_slot_bytes c" using slot_invD(2) [OF inv] by simp
  then have "nat s < size_mod" by (rule le_less_trans [OF _ lt])
  then have "nat s < 2 ^ 64" unfolding size_mod_def .
  then have "nat (s mod 2 ^ 64) = nat s" using s(1) by (simp add: nat_less_iff)
  then show "slot_ptr c s = sc_arena c + nat s * sc_slot_bytes c"
    using lt by (simp add: slot_ptr_def mul64_nowrap)
qed

lemma cached_slot_bounds: "slot_inv c \<Longrightarrow> ce \<in> set (sc_cached c) \<Longrightarrow> 0 \<le> ce_slot ce \<and> ce_slot ce < sc_num_slots c"
proof -
  assume inv: "slot_inv c" and ce: "ce \<in> set (sc_cached c)"
  have "ce_slot ce \<in> set (map ce_slot (sc_cached c) @ sc_free c)" using ce by simp
  then show ?thesis unfolding slot_invD(7) [OF inv] by simp
qed

lemma slot_region_Some:
  assumes "slot_inv c"
  shows "slot_region c k = Some (a, len) \<longleftrightarrow>
    (\<exists>ce \<in> set (sc_cached c). ce_key ce = k \<and> a = sc_arena c + nat (ce_slot ce) * sc_slot_bytes c) \<and> len = sc_slot_bytes c"
proof -
  have "(\<exists>ce. find_cached c k = Some ce \<and> a = slot_ptr c (ce_slot ce)) \<longleftrightarrow>
    (\<exists>ce \<in> set (sc_cached c). ce_key ce = k \<and> a = sc_arena c + nat (ce_slot ce) * sc_slot_bytes c)"
    using find_cached_Some [OF assms] slot_ptr_eq(1) [OF assms] cached_slot_bounds [OF assms] by metis
  then show ?thesis by (auto simp: slot_region_def)
qed

lemma slot_get_cases:
  assumes ok: "slot_ok n c" and g: "slot_get pr n c k p = (r, c')"
  shows "r" "slot_ok n c'" "slot_space c' = slot_space c" "slot_region c' k \<noteq> None"
    "slot_region c k = Some x \<Longrightarrow> slot_region c' k = Some x"
    "j \<noteq> k \<Longrightarrow> slot_region c' j = None \<or> slot_region c' j = slot_region c j"
proof -
  have inv: "slot_inv c" and n: "n \<le> sc_slot_bytes c" using ok by (simp_all add: slot_ok_def)
  have "r \<and> slot_ok n c' \<and> slot_space c' = slot_space c \<and> slot_region c' k \<noteq> None \<and>
    (slot_region c k = Some x \<longrightarrow> slot_region c' k = Some x) \<and>
    (j \<noteq> k \<longrightarrow> slot_region c' j = None \<or> slot_region c' j = slot_region c j)"
  proof (cases rule: slot_acquire_cases [OF inv n, where k = k and pr = pr])
    case (1 ce)
    then have c': "r" "c' = refresh c k" using g by (simp_all add: slot_get_def)
    have inv': "slot_inv (refresh c k)" by (rule slot_refresh_inv [OF inv])
    have f: "sc_slot_bytes (refresh c k) = sc_slot_bytes c" "sc_arena (refresh c k) = sc_arena c"
      "sc_num_slots (refresh c k) = sc_num_slots c" by (simp_all add: refresh_def)
    have "slot_region (refresh c k) i = Some (a, len) \<longleftrightarrow> slot_region c i = Some (a, len)" for i a len
    proof -
      have cs: "sc_cached (refresh c k) = map (\<lambda>ce. if ce_key ce = k then ce\<lparr>ce_last_used := Suc (sc_clock c)\<rparr> else ce) (sc_cached c)"
        by (simp add: refresh_def)
      show ?thesis
        unfolding slot_region_Some [OF inv] slot_region_Some [OF inv'] f cs set_map bex_simps
        by (intro conj_cong bex_cong) auto
    qed
    then have "slot_region (refresh c k) i = slot_region c i" for i by (metis not_None_eq surj_pair)
    moreover have "slot_region c k \<noteq> None" using 1(1) by (simp add: slot_region_def)
    ultimately show ?thesis using c' inv' n f by (simp add: slot_ok_def slot_space_def)
  next
    case (2 slot c1)
    let ?ce = "\<lparr>ce_key = k, ce_slot = slot, ce_bytes = n, ce_last_used = Suc (sc_clock c1),
        ce_priority = pr (key_layer k) (key_expert k)\<rparr>"
    have c': "r" "c' = c1\<lparr>sc_clock := Suc (sc_clock c1), sc_cached := sc_cached c1 @ [?ce]\<rparr>"
      using g 2(3) by (simp_all add: slot_get_def)
    then have "slot_acquire pr c k n = Inr (Some (\<lparr>ar_ptr = slot_ptr c1 slot, ar_slot = slot, ar_hit = False\<rparr>, c'))"
      using 2(3) by simp
    note i = slot_acquire_inv [OF inv this n]
    have sub: "set (sc_cached c1) \<subseteq> set (sc_cached c)"
      by (rule take_slot_ok [OF inv]) (use 2(2) in simp)
    have cs: "sc_cached c' = sc_cached c1 @ [?ce]" by (simp add: c'(2))
    have "slot_region c j = Some (a, len)" if "slot_region c' j = Some (a, len)" "j \<noteq> k" for a len
      using that sub unfolding slot_region_Some [OF inv] slot_region_Some [OF i(1)] i(2-4) cs by auto
    then have "j \<noteq> k \<longrightarrow> slot_region c' j = None \<or> slot_region c' j = slot_region c j"
      by (metis not_None_eq surj_pair)
    moreover have "find_cached c' k \<noteq> None" unfolding find_cached_None by (simp add: c'(2))
    then have "slot_region c' k \<noteq> None" by (simp add: slot_region_def)
    moreover have "slot_region c k = None" using 2(1) by (simp add: slot_region_def)
    ultimately show ?thesis using c'(1) i n by (simp add: slot_ok_def slot_space_def)
  qed
  then show "r" "slot_ok n c'" "slot_space c' = slot_space c" "slot_region c' k \<noteq> None"
    "slot_region c k = Some x \<Longrightarrow> slot_region c' k = Some x"
    "j \<noteq> k \<Longrightarrow> slot_region c' j = None \<or> slot_region c' j = slot_region c j" by blast+
qed

lemma slot_region_disjoint:
  assumes inv: "slot_inv c" and k: "slot_region c k = Some (a, len)" and k': "slot_region c k' = Some (a', len')"
    and ne: "k \<noteq> k'"
  shows "span a len \<inter> span a' len' = {}"
proof -
  obtain x y where x: "x \<in> set (sc_cached c)" "ce_key x = k" "a = sc_arena c + nat (ce_slot x) * sc_slot_bytes c" "len = sc_slot_bytes c"
    and y: "y \<in> set (sc_cached c)" "ce_key y = k'" "a' = sc_arena c + nat (ce_slot y) * sc_slot_bytes c" "len' = sc_slot_bytes c"
    using k k' slot_region_Some [OF inv] by auto
  have "ce_slot x \<noteq> ce_slot y" using slot_slot_inj [OF inv x(1) y(1)] x(2) y(2) ne by auto
  then have "nat (ce_slot x) < nat (ce_slot y) \<or> nat (ce_slot y) < nat (ce_slot x)"
    using cached_slot_bounds [OF inv x(1)] cached_slot_bounds [OF inv y(1)] by linarith
  then have "Suc (nat (ce_slot x)) * sc_slot_bytes c \<le> nat (ce_slot y) * sc_slot_bytes c \<or>
      Suc (nat (ce_slot y)) * sc_slot_bytes c \<le> nat (ce_slot x) * sc_slot_bytes c"
    using mult_le_mono1 Suc_le_eq by blast
  then show ?thesis unfolding x(3,4) y(3,4) by (intro span_disjointI) auto
qed

interpretation slot_store: expert_store "slot_ok n" slot_region "slot_get pr n" slot_space n for n pr
proof (unfold_locales, goal_cases)
  case (1 s k p ok s')
  then show ?case by (rule slot_get_cases(2))
next
  case (2 s k p ok s')
  then show ?case by (rule slot_get_cases(3))
next
  case (3 s k p s')
  then show ?case by (rule slot_get_cases(4))
next
  case (4 s k r p ok s')
  then show ?case using slot_get_cases(1) [OF 4(1,3)] slot_get_cases(5) [OF 4(1,3,2)] by blast
next
  case (5 s k p s')
  then show ?case using slot_get_cases(1) [OF 5] by simp
next
  case (6 s k p ok s' k')
  then show ?case by (rule slot_get_cases(6))
next
  case (7 s k a len k' a' len')
  then show ?case using slot_region_disjoint unfolding slot_ok_def by blast
next
  case (8 s k a len)
  then have inv: "slot_inv s" by (simp add: slot_ok_def)
  obtain x where x: "x \<in> set (sc_cached s)" "a = sc_arena s + nat (ce_slot x) * sc_slot_bytes s" "len = sc_slot_bytes s"
    using 8(2) slot_region_Some [OF inv] by auto
  have "nat (ce_slot x) * sc_slot_bytes s + sc_slot_bytes s \<le> sc_slot_bytes s * nat (sc_num_slots s)"
    using slot_ptr_eq(2) [OF inv] cached_slot_bounds [OF inv x(1)] by blast
  then show ?case using x slot_invD(3) [OF inv] by (auto simp: slot_space_def)
next
  case (9 s k a len)
  then show ?case by (auto simp: slot_ok_def slot_region_Some)
qed

section \<open>Properties\<close>

lemma slot_cache_new_ok:
  assumes "slot_cache_new device_malloc slot_bytes num_slots = Inr c" and "slot_bytes * nat num_slots < size_mod"
  shows "slot_inv c" "sc_slot_bytes c = slot_bytes" "sc_num_slots c = num_slots" "sc_cached c = []"
  using assms by (auto simp: slot_cache_new_def slot_inv_def Let_def split: if_splits)

lemma ptr_of_region: "ptr_of c k = (case slot_region c k of None \<Rightarrow> nullptr | Some (a, _) \<Rightarrow> a)"
  by (simp add: ptr_of_def slot_region_def split: option.split)

lemma slot_contains_region: "slot_contains c k \<longleftrightarrow> slot_region c k \<noteq> None"
  by (simp add: slot_contains_def slot_region_def)

lemma slot_acquire_served:
  assumes ok: "slot_ok n c"
  obtains r c' where "slot_acquire pr c k n = Inr (Some (r, c'))" "slot_get pr n c k () = (True, c')"
    "ptr_of c' k = ar_ptr r" "slot_contains c' k"
proof -
  have inv: "slot_inv c" and n: "n \<le> sc_slot_bytes c" using ok by (simp_all add: slot_ok_def)
  show thesis
  proof (cases rule: slot_acquire_cases [OF inv n, where k = k and pr = pr])
    case (1 ce)
    have g: "slot_get pr n c k () = (True, refresh c k)" using 1(2) by (simp add: slot_get_def)
    have "slot_region c k = Some (slot_ptr c (ce_slot ce), sc_slot_bytes c)" using 1(1) by (simp add: slot_region_def)
    from slot_get_cases(5) [OF ok g this] show thesis
      using that [OF 1(2) g] by (simp add: ptr_of_region slot_contains_region)
  next
    case (2 slot c1)
    let ?ce = "\<lparr>ce_key = k, ce_slot = slot, ce_bytes = n, ce_last_used = Suc (sc_clock c1),
        ce_priority = pr (key_layer k) (key_expert k)\<rparr>"
    let ?c' = "c1\<lparr>sc_clock := Suc (sc_clock c1), sc_cached := sc_cached c1 @ [?ce]\<rparr>"
    have g: "slot_get pr n c k () = (True, ?c')" using 2(3) by (simp add: slot_get_def)
    have "slot_inv ?c'" using slot_acquire_inv(1) [OF inv 2(3) n] .
    then have "find_cached ?c' k = Some ?ce" by (simp add: find_cached_Some)
    then show thesis using that [OF 2(3) g] by (simp add: ptr_of_def slot_contains_def slot_ptr_def)
  qed
qed

lemma acquire_all_fields:
  "slot_ok n c \<Longrightarrow> slot_ok n (acquire_all (slot_get pr n) ks c) \<and>
     sc_slot_bytes (acquire_all (slot_get pr n) ks c) = sc_slot_bytes c \<and>
     sc_num_slots (acquire_all (slot_get pr n) ks c) = sc_num_slots c"
proof (induction ks arbitrary: c)
  case Nil
  then show ?case by simp
next
  case (Cons x ks)
  obtain k where x: "x = (k, ())" by (cases x) simp
  obtain r c' where r: "slot_acquire pr c k n = Inr (Some (r, c'))" "slot_get pr n c k () = (True, c')"
    by (rule slot_acquire_served [OF Cons.prems])
  have "slot_inv c" "n \<le> sc_slot_bytes c" using Cons.prems by (simp_all add: slot_ok_def)
  from slot_acquire_inv [OF this(1) r(1) this(2)] show ?case
    using Cons.IH [of c'] r(2) Cons.prems by (simp add: x slot_ok_def)
qed

lemma slot_count:
  assumes "slot_inv c"
  shows "int (length (sc_cached c) + length (sc_free c)) = sc_num_slots c"
proof -
  have "length (map ce_slot (sc_cached c) @ sc_free c) = card {0 ..< sc_num_slots c}"
    using distinct_card [OF slot_invD(6) [OF assms]] unfolding slot_invD(7) [OF assms] by simp
  then show ?thesis using slot_invD(1) [OF assms] by simp
qed


text \<open>A cache of two slots at address 4096, whose oracle prefers experts with a high number.\<close>

definition example_slots :: SlotCache where
  "example_slots = \<lparr>sc_slot_bytes = 64, sc_num_slots = 2, sc_arena = 4096, sc_free = [1, 0], sc_cached = [],
     sc_clock = 0, sc_last_evicted = ExpertKey (- 1) (- 1)\<rparr>"

definition example_priority :: "int \<Rightarrow> int \<Rightarrow> real" where
  "example_priority l e = of_int e"

lemma example_slots_new: "slot_cache_new (\<lambda>_. 4096) 64 2 = Inr example_slots"
  by (simp add: slot_cache_new_def example_slots_def upto.simps)


text \<open>
  C34: when the cache is full, a request for a new expert evicts one that is minimal among all cached
  experts: no cached expert has a lower priority, and none of equal priority was used longer ago.
  With a free slot nothing is evicted.
\<close>

theorem slot_cache_evicts_minimal:
  assumes "slot_inv c" and "n \<le> sc_slot_bytes c" and "\<not> slot_contains c k"
    and "slot_acquire pr c k n = Inr (Some (r, c'))"
  shows "if sc_free c \<noteq> [] then \<forall>j. slot_contains c j \<longrightarrow> slot_contains c' j
    else \<exists>v \<in> set (sc_cached c). ce_key v = sc_last_evicted c' \<and> ar_slot r = ce_slot v \<and>
      set (cached_keys c') = insert k (set (cached_keys c) - {ce_key v}) \<and>
      (\<forall>ce \<in> set (sc_cached c). ce_priority v < ce_priority ce \<or>
         ce_priority v = ce_priority ce \<and> ce_last_used v \<le> ce_last_used ce)"
proof -
  obtain slot c1 where l: "take_slot c = Some (slot, c1)"
    "r = \<lparr>ar_ptr = slot_ptr c1 slot, ar_slot = slot, ar_hit = False\<rparr>"
    "c' = c1\<lparr>sc_clock := Suc (sc_clock c1), sc_cached := sc_cached c1 @ [\<lparr>ce_key = k, ce_slot = slot, ce_bytes = n,
           ce_last_used = Suc (sc_clock c1), ce_priority = pr (key_layer k) (key_expert k)\<rparr>]\<rparr>"
    by (rule slot_acquire_cases [OF assms(1,2), where k = k and pr = pr]) (use assms(3,4) in \<open>auto simp: slot_contains_def\<close>)
  show ?thesis
  proof (cases "sc_free c = []")
    case False
    then have "sc_cached c1 = sc_cached c" using l(1) by (auto simp: take_slot_def)
    then have "find_cached c' j \<noteq> None" if "find_cached c j \<noteq> None" for j
      using that unfolding find_cached_None l(3) by auto
    then show ?thesis using False by (simp add: slot_contains_def)
  next
    case True
    obtain v d where v: "evict_victim c = Some (ce_slot v, d)" "v \<in> set (sc_cached c)"
      "\<forall>ce \<in> set (sc_cached c). worse v ce" "set (sc_cached d) = set (sc_cached c) - {v}"
      "d = c\<lparr>sc_cached := filter (\<lambda>ce. ce_key ce \<noteq> ce_key v) (sc_cached c), sc_last_evicted := ce_key v\<rparr>"
      by (rule evict_victim_ok [OF assms(1) True])
    have d: "slot = ce_slot v" "c1 = d" using l(1) v(1) True by (simp_all add: take_slot_def)
    have "set (cached_keys c') = insert k (set (cached_keys c) - {ce_key v})"
      by (auto simp: cached_keys_def l(3) d(2) v(5))
    then show ?thesis using True v(2,3) l(2,3) d v(5) by (auto simp: worse_def)
  qed
qed

theorem slot_cache_evicts_minimal_witness:
  "\<exists>r c'. slot_acquire example_priority (acquire_all (slot_get example_priority 64)
       [(ExpertKey 0 1, ()), (ExpertKey 0 0, ())] example_slots) (ExpertKey 0 2) 64 = Inr (Some (r, c')) \<and>
     sc_last_evicted c' = ExpertKey 0 0"
proof -
  let ?c = "acquire_all (slot_get example_priority 64) [(ExpertKey 0 1, ()), (ExpertKey 0 0, ())] example_slots"
  have sz: "(64::nat) * nat 2 < size_mod" by (simp add: size_mod_def)
  have ok0: "slot_ok 64 example_slots"
    using slot_cache_new_ok [OF example_slots_new sz] by (simp add: slot_ok_def)
  have ok: "slot_inv ?c" "64 \<le> sc_slot_bytes ?c"
    using acquire_all_fields [OF ok0, of example_priority "[(ExpertKey 0 1, ()), (ExpertKey 0 0, ())]"]
    by (simp_all add: slot_ok_def)
  have c: "sc_free ?c = []" "\<not> slot_contains ?c (ExpertKey 0 2)"
    "map (\<lambda>ce. (ce_key ce, ce_priority ce)) (sc_cached ?c) = [(ExpertKey 0 1, 1), (ExpertKey 0 0, 0)]"
    by (simp_all add: slot_get_def slot_acquire_def example_slots_def find_cached_def take_slot_def
        slot_contains_def example_priority_def)
  obtain r c' where r: "slot_acquire example_priority ?c (ExpertKey 0 2) 64 = Inr (Some (r, c'))"
    by (rule slot_acquire_served [where n = 64 and c = ?c and pr = example_priority and k = "ExpertKey 0 2"])
      (use ok in \<open>simp_all add: slot_ok_def\<close>)
  obtain v where v: "v \<in> set (sc_cached ?c)" "ce_key v = sc_last_evicted c'"
    "\<forall>ce \<in> set (sc_cached ?c). ce_priority v < ce_priority ce \<or> ce_priority v = ce_priority ce \<and> ce_last_used v \<le> ce_last_used ce"
    using slot_cache_evicts_minimal [OF ok c(2) r] c(1) by auto
  have "set (map (\<lambda>ce. (ce_key ce, ce_priority ce)) (sc_cached ?c)) = {(ExpertKey 0 1, 1), (ExpertKey 0 0, 0)}"
    unfolding c(3) by simp
  then have im: "(\<lambda>ce. (ce_key ce, ce_priority ce)) ` set (sc_cached ?c) = {(ExpertKey 0 1, 1), (ExpertKey 0 0, 0)}"
    by (simp only: set_map)
  have "(ExpertKey 0 0, 0) \<in> (\<lambda>ce. (ce_key ce, ce_priority ce)) ` set (sc_cached ?c)" unfolding im by simp
  then obtain x where x: "x \<in> set (sc_cached ?c)" "ce_priority x = 0" by (elim imageE) (simp only: prod.inject)
  have "(ce_key v, ce_priority v) \<in> {(ExpertKey 0 1, 1), (ExpertKey 0 0, 0)}" using im v(1) by blast
  moreover have "ce_priority v \<le> 0" using bspec [OF v(3) x(1)] x(2) by auto
  ultimately have "sc_last_evicted c' = ExpertKey 0 0" using v(2) by auto
  then show ?thesis using r by blast
qed

end
