(* ===== verification/Generation.thy ===== *)
theory Generation
  imports SlotCache Kernels Floats CText
begin

text \<open>
  The generation loop over the slot cache: \<^verbatim>\<open>include/dee/weight_source.h\<close>, the scheduler of
  \<^verbatim>\<open>src/oracle_scheduler.cpp\<close> and the \<^verbatim>\<open>Generator\<close> of \<^verbatim>\<open>src/generation.cpp\<close>. The prefetcher class that
  they use (\<^verbatim>\<open>is_ready\<close>, \<^verbatim>\<open>is_inflight\<close>, \<^verbatim>\<open>prefetch_expert\<close>, \<^verbatim>\<open>synchronize_expert\<close>) and \<^verbatim>\<open>ExpertOracle\<close> are not
  in the repository; router, embedder, sampler and weight source are abstract classes. All of them
  are parameters; what the loop relies on of the prefetcher is the locale \<open>expert_streams\<close>. The scratch
  vectors of the class are local values here: every use overwrites them first.
\<close>

section \<open>Interfaces\<close>

datatype ExpertTensor = GateUp | Down

record ExpertTensorView =
  tv_data :: nat
  tv_nbytes :: nat
  tv_slot_offset :: nat
  tv_kind :: ExpertTensor

record WeightSource =
  ws_layer_index :: "int \<Rightarrow> int"
  ws_expert_tensors :: "int \<Rightarrow> int \<Rightarrow> ExpertTensorView list outcome"

text \<open>The prefetcher with the cache and the memory that it shares with the loop.\<close>

record 'p Streams =
  s_pf :: 'p
  s_cache :: SlotCache
  s_mem :: memory

record 'p PrefetcherOps =
  is_ready :: "'p Streams \<Rightarrow> int \<Rightarrow> int \<Rightarrow> bool"
  is_inflight :: "'p Streams \<Rightarrow> int \<Rightarrow> int \<Rightarrow> bool"
  prefetch_expert :: "'p Streams \<Rightarrow> int \<Rightarrow> int \<Rightarrow> 'p Streams"
  synchronize_expert :: "'p Streams \<Rightarrow> int \<Rightarrow> int \<Rightarrow> bool \<times> 'p Streams"
  pf_synchronize_all :: "'p Streams \<Rightarrow> 'p Streams"

text \<open>Oracle, router, embedder and sampler; an embedder may keep a state.\<close>

record 'e Model =
  md_predict :: "int \<Rightarrow> real list \<Rightarrow> nat \<Rightarrow> nat \<Rightarrow> int list"
  md_route :: "int \<Rightarrow> real list \<Rightarrow> nat \<Rightarrow> nat \<Rightarrow> int list \<times> real list"
  md_embed :: "'e \<Rightarrow> int \<Rightarrow> nat \<Rightarrow> real list \<times> 'e"
  md_sample :: "real list \<Rightarrow> nat \<Rightarrow> int"
  md_weights :: WeightSource

record GeneratorConfig =
  gc_num_layers :: int
  gc_topk :: int
  gc_hidden_dim :: int
  gc_inter_dim :: int
  gc_eos_token :: int

record ('p, 'e) Generator =
  g_cfg :: GeneratorConfig
  g_streams :: "'p Streams"
  g_embedder :: 'e
  g_hits :: nat
  g_misses :: nat
  g_reactive :: nat
  g_predictions :: nat

text \<open>The constructor sizes its vectors by the dimensions; a negative one is a length error.\<close>

definition generator_new :: "'p Streams \<Rightarrow> 'e \<Rightarrow> GeneratorConfig \<Rightarrow> exn + ('p, 'e) Generator" where
  "generator_new st emb cfg =
     (if gc_hidden_dim cfg < 0 \<or> gc_inter_dim cfg < 0 \<or> gc_topk cfg < 0 then Inl Length_error
      else Inr \<lparr>g_cfg = cfg, g_streams = st, g_embedder = emb, g_hits = 0, g_misses = 0, g_reactive = 0, g_predictions = 0\<rparr>)"

section \<open>The scheduler\<close>

definition schedule_one :: "'p PrefetcherOps \<Rightarrow> int \<Rightarrow> 'p Streams \<Rightarrow> int \<Rightarrow> 'p Streams" where
  "schedule_one ops layer st e =
     (if \<not> slot_contains (s_cache st) (ExpertKey layer e) \<and> \<not> is_inflight ops st layer e
      then prefetch_expert ops st layer e else st)"

definition on_token_decoded ::
  "'p PrefetcherOps \<Rightarrow> 'e Model \<Rightarrow> nat \<Rightarrow> int \<Rightarrow> real list \<Rightarrow> nat \<Rightarrow> 'p Streams \<Rightarrow> 'p Streams" where
  "on_token_decoded ops md topk layer hidden_state hidden_dim st =
     foldl (schedule_one ops layer) st (md_predict md layer hidden_state hidden_dim topk)"

definition ensure_ready :: "'p PrefetcherOps \<Rightarrow> 'p Streams \<Rightarrow> int \<Rightarrow> int \<Rightarrow> bool \<times> 'p Streams" where
  "ensure_ready ops st layer expert_id = synchronize_expert ops st layer expert_id"

definition scheduler_synchronize_all :: "'p PrefetcherOps \<Rightarrow> 'p Streams \<Rightarrow> 'p Streams" where
  "scheduler_synchronize_all ops st = pf_synchronize_all ops st"

section \<open>The layers\<close>

text \<open>Step (3): a hit, or a wait for the expert after a reactive prefetch if none is under way.\<close>

definition await_expert :: "'p PrefetcherOps \<Rightarrow> int \<Rightarrow> int \<Rightarrow> ('p, 'e) Generator \<Rightarrow> ('p, 'e) Generator" where
  "await_expert ops ml e g =
     (if is_ready ops (g_streams g) ml e then g\<lparr>g_hits := Suc (g_hits g)\<rparr>
      else
        let g1 = (if \<not> is_inflight ops (g_streams g) ml e
                  then g\<lparr>g_streams := prefetch_expert ops (g_streams g) ml e, g_reactive := Suc (g_reactive g)\<rparr> else g)
        in g1\<lparr>g_streams := snd (synchronize_expert ops (g_streams g1) ml e), g_misses := Suc (g_misses g1)\<rparr>)"

text \<open>Steps (3) to (5) for one routed expert. Reading through a null pointer is undefined.\<close>

definition run_expert ::
  "'p PrefetcherOps \<Rightarrow> 'e Model \<Rightarrow> int \<Rightarrow> real list \<Rightarrow> ('p, 'e) Generator \<times> real list \<Rightarrow> int \<times> real \<Rightarrow>
     (('p, 'e) Generator \<times> real list) outcome" where
  "run_expert ops md ml x gm es =
     (let g1 = await_expert ops ml (fst es) (fst gm);
          key = ExpertKey ml (fst es);
          H = nat (gc_hidden_dim (g_cfg g1)); I = nat (gc_inter_dim (g_cfg g1));
          st = (g_streams g1)\<lparr>s_cache := slot_touch (s_cache (g_streams g1)) key\<rparr>;
          base = ptr_of (s_cache st) key
      in bind_out (ws_expert_tensors (md_weights md) ml (fst es)) (\<lambda>views.
           if base = nullptr then Undefined
           else
             let gu = load_floats (s_mem st) (base + tv_slot_offset (views ! 0)) (2 * I * H);
                 dn = load_floats (s_mem st) (base + tv_slot_offset (views ! 1)) (H * I);
                 expert_out = expert_mlp x H I gu dn
             in Ret (g1\<lparr>g_streams := st\<rparr>, map (\<lambda>i. snd gm ! i + snd es * expert_out ! i) [0 ..< H])))"

fun run_experts ::
  "'p PrefetcherOps \<Rightarrow> 'e Model \<Rightarrow> int \<Rightarrow> real list \<Rightarrow> ('p, 'e) Generator \<times> real list \<Rightarrow> (int \<times> real) list \<Rightarrow>
     (('p, 'e) Generator \<times> real list) outcome" where
  "run_experts ops md ml x gm [] = Ret gm"
| "run_experts ops md ml x gm (es # ess) = bind_out (run_expert ops md ml x gm es) (\<lambda>gm'. run_experts ops md ml x gm' ess)"

definition routed :: "'e Model \<Rightarrow> int \<Rightarrow> real list \<Rightarrow> GeneratorConfig \<Rightarrow> (int \<times> real) list" where
  "routed md ml x cfg =
     (case md_route md ml x (nat (gc_hidden_dim cfg)) (nat (gc_topk cfg)) of (ids, scores) \<Rightarrow>
        map (\<lambda>k. (ids ! k, scores ! k)) [0 ..< nat (gc_topk cfg)])"

definition run_layer ::
  "'p PrefetcherOps \<Rightarrow> 'e Model \<Rightarrow> ('p, 'e) Generator \<Rightarrow> real list \<Rightarrow> int \<Rightarrow> (('p, 'e) Generator \<times> real list) outcome" where
  "run_layer ops md g x layer =
     (let cfg = g_cfg g; H = nat (gc_hidden_dim cfg);
          ml = ws_layer_index (md_weights md) layer;
          g1 = g\<lparr>g_streams := on_token_decoded ops md (nat (gc_topk cfg)) ml x H (g_streams g),
                 g_predictions := Suc (g_predictions g)\<rparr>
      in bind_out (run_experts ops md ml x (g1, replicate H 0) (routed md ml x cfg)) (\<lambda>(g2, moe_out).
           Ret (g2, map (\<lambda>i. x ! i + moe_out ! i) [0 ..< H])))"

fun layers_loop ::
  "'p PrefetcherOps \<Rightarrow> 'e Model \<Rightarrow> ('p, 'e) Generator \<Rightarrow> real list \<Rightarrow> int list \<Rightarrow> (('p, 'e) Generator \<times> real list) outcome" where
  "layers_loop ops md g x [] = Ret (g, x)"
| "layers_loop ops md g x (l # ls) = bind_out (run_layer ops md g x l) (\<lambda>(g', x'). layers_loop ops md g' x' ls)"

definition run_layers ::
  "'p PrefetcherOps \<Rightarrow> 'e Model \<Rightarrow> ('p, 'e) Generator \<Rightarrow> real list \<Rightarrow> (('p, 'e) Generator \<times> real list) outcome" where
  "run_layers ops md g x = layers_loop ops md g x [0 .. gc_num_layers (g_cfg g) - 1]"

section \<open>Generation\<close>

definition feed :: "'p PrefetcherOps \<Rightarrow> 'e Model \<Rightarrow> ('p, 'e) Generator \<Rightarrow> int \<Rightarrow> (('p, 'e) Generator \<times> real list) outcome" where
  "feed ops md g token =
     (case md_embed md (g_embedder g) token (nat (gc_hidden_dim (g_cfg g))) of (x, emb) \<Rightarrow>
        run_layers ops md (g\<lparr>g_embedder := emb\<rparr>) x)"

fun prefill ::
  "'p PrefetcherOps \<Rightarrow> 'e Model \<Rightarrow> ('p, 'e) Generator \<Rightarrow> real list \<Rightarrow> int list \<Rightarrow> (('p, 'e) Generator \<times> real list) outcome" where
  "prefill ops md g x [] = Ret (g, x)"
| "prefill ops md g x (t # ts) = bind_out (feed ops md g t) (\<lambda>(g', x'). prefill ops md g' x' ts)"

fun decode ::
  "'p PrefetcherOps \<Rightarrow> 'e Model \<Rightarrow> nat \<Rightarrow> ('p, 'e) Generator \<Rightarrow> real list \<Rightarrow> int list \<Rightarrow> (('p, 'e) Generator \<times> int list) outcome" where
  "decode ops md 0 g x out = Ret (g, out)"
| "decode ops md (Suc n) g x out =
     (let nxt = md_sample md x (nat (gc_hidden_dim (g_cfg g)))
      in if nxt = gc_eos_token (g_cfg g) then Ret (g, out @ [nxt])
         else bind_out (feed ops md g nxt) (\<lambda>(g', x'). decode ops md n g' x' (out @ [nxt])))"

definition gen_generate ::
  "'p PrefetcherOps \<Rightarrow> 'e Model \<Rightarrow> ('p, 'e) Generator \<Rightarrow> int list \<Rightarrow> int \<Rightarrow> (('p, 'e) Generator \<times> int list) outcome" where
  "gen_generate ops md g prmpt max_new_tokens =
     (if prmpt = [] \<or> max_new_tokens \<le> 0 then Ret (g, [])
      else bind_out (prefill ops md g (replicate (nat (gc_hidden_dim (g_cfg g))) 0) prmpt) (\<lambda>(g', x).
             decode ops md (nat max_new_tokens) g' x []))"

section \<open>The reference model\<close>

text \<open>The network without caches and streams: weights are functions of layer and expert.\<close>

definition ref_layer :: "'e Model \<Rightarrow> GeneratorConfig \<Rightarrow> (int \<Rightarrow> int \<Rightarrow> real list) \<Rightarrow> (int \<Rightarrow> int \<Rightarrow> real list) \<Rightarrow> real list \<Rightarrow> int \<Rightarrow> real list" where
  "ref_layer md cfg gu dn x layer =
     (let H = nat (gc_hidden_dim cfg); I = nat (gc_inter_dim cfg);
          ml = ws_layer_index (md_weights md) layer;
          moe_out = foldl (\<lambda>m (e, s). map (\<lambda>i. m ! i + s * expert_mlp x H I (gu ml e) (dn ml e) ! i) [0 ..< H])
            (replicate H 0) (routed md ml x cfg)
      in map (\<lambda>i. x ! i + moe_out ! i) [0 ..< H])"

definition ref_feed :: "'e Model \<Rightarrow> GeneratorConfig \<Rightarrow> (int \<Rightarrow> int \<Rightarrow> real list) \<Rightarrow> (int \<Rightarrow> int \<Rightarrow> real list) \<Rightarrow> 'e \<Rightarrow> int \<Rightarrow> real list \<times> 'e" where
  "ref_feed md cfg gu dn emb token =
     (case md_embed md emb token (nat (gc_hidden_dim cfg)) of (x, emb') \<Rightarrow>
        (foldl (ref_layer md cfg gu dn) x [0 .. gc_num_layers cfg - 1], emb'))"

fun ref_prefill :: "'e Model \<Rightarrow> GeneratorConfig \<Rightarrow> (int \<Rightarrow> int \<Rightarrow> real list) \<Rightarrow> (int \<Rightarrow> int \<Rightarrow> real list) \<Rightarrow> 'e \<Rightarrow> real list \<Rightarrow> int list \<Rightarrow> real list \<times> 'e" where
  "ref_prefill md cfg gu dn emb x [] = (x, emb)"
| "ref_prefill md cfg gu dn emb x (t # ts) =
     (case ref_feed md cfg gu dn emb t of (x', emb') \<Rightarrow> ref_prefill md cfg gu dn emb' x' ts)"

fun ref_decode :: "'e Model \<Rightarrow> GeneratorConfig \<Rightarrow> (int \<Rightarrow> int \<Rightarrow> real list) \<Rightarrow> (int \<Rightarrow> int \<Rightarrow> real list) \<Rightarrow> nat \<Rightarrow> 'e \<Rightarrow> real list \<Rightarrow> int list" where
  "ref_decode md cfg gu dn 0 emb x = []"
| "ref_decode md cfg gu dn (Suc n) emb x =
     (let nxt = md_sample md x (nat (gc_hidden_dim cfg))
      in if nxt = gc_eos_token cfg then [nxt]
         else case ref_feed md cfg gu dn emb nxt of (x', emb') \<Rightarrow> nxt # ref_decode md cfg gu dn n emb' x')"

definition ref_generate :: "'e Model \<Rightarrow> GeneratorConfig \<Rightarrow> (int \<Rightarrow> int \<Rightarrow> real list) \<Rightarrow> (int \<Rightarrow> int \<Rightarrow> real list) \<Rightarrow> 'e \<Rightarrow> int list \<Rightarrow> int \<Rightarrow> int list" where
  "ref_generate md cfg gu dn emb prmpt max_new_tokens =
     (if prmpt = [] \<or> max_new_tokens \<le> 0 then []
      else case ref_prefill md cfg gu dn emb (replicate (nat (gc_hidden_dim cfg)) 0) prmpt of (x, emb') \<Rightarrow>
             ref_decode md cfg gu dn (nat max_new_tokens) emb' x)"

lemma ref_decode_shape:
  "length (ref_decode md cfg gu dn n emb x) \<le> n \<and>
   gc_eos_token cfg \<notin> set (butlast (ref_decode md cfg gu dn n emb x)) \<and>
   (length (ref_decode md cfg gu dn n emb x) < n \<longrightarrow>
      ref_decode md cfg gu dn n emb x \<noteq> [] \<and> last (ref_decode md cfg gu dn n emb x) = gc_eos_token cfg)"
  by (induction n arbitrary: emb x) (auto simp: Let_def split: prod.split)

section \<open>What the loop relies on of the prefetcher\<close>

definition delivered ::
  "WeightSource \<Rightarrow> GeneratorConfig \<Rightarrow> (int \<Rightarrow> int \<Rightarrow> real list) \<Rightarrow> (int \<Rightarrow> int \<Rightarrow> real list) \<Rightarrow> 'p Streams \<Rightarrow> int \<Rightarrow> int \<Rightarrow> bool" where
  "delivered ws cfg gu dn st l e \<longleftrightarrow>
     (\<exists>views. ws_expert_tensors ws l e = Ret views \<and>
        (let H = nat (gc_hidden_dim cfg); I = nat (gc_inter_dim cfg); base = ptr_of (s_cache st) (ExpertKey l e)
         in base \<noteq> nullptr \<and> load_floats (s_mem st) (base + tv_slot_offset (views ! 0)) (2 * I * H) = gu l e \<and>
            load_floats (s_mem st) (base + tv_slot_offset (views ! 1)) (H * I) = dn l e))"

text \<open>
  The documented contract of the prefetcher: an expert that is ready, or that was prefetched and
  then synchronised, is resident and copied. \<open>inv\<close> is the prefetcher's own invariant, \<open>valid\<close> says
  which experts exist.
\<close>

locale expert_streams =
  fixes ops :: "'p PrefetcherOps"
    and inv :: "'p Streams \<Rightarrow> bool"
    and valid :: "int \<Rightarrow> int \<Rightarrow> bool"
    and ws :: WeightSource
    and cfg :: GeneratorConfig
    and gu dn :: "int \<Rightarrow> int \<Rightarrow> real list"
  assumes prefetch_inv: "inv st \<Longrightarrow> valid l e \<Longrightarrow> inv (prefetch_expert ops st l e)"
    and synchronize_inv: "inv st \<Longrightarrow> valid l e \<Longrightarrow> inv (snd (synchronize_expert ops st l e))"
    and touch_inv: "inv st \<Longrightarrow> inv (st\<lparr>s_cache := slot_touch (s_cache st) k\<rparr>)"
    and ready_delivered: "inv st \<Longrightarrow> valid l e \<Longrightarrow> is_ready ops st l e \<Longrightarrow> delivered ws cfg gu dn st l e"
    and inflight_delivered: "inv st \<Longrightarrow> valid l e \<Longrightarrow> is_inflight ops st l e \<Longrightarrow>
      delivered ws cfg gu dn (snd (synchronize_expert ops st l e)) l e"
    and fetched_delivered: "inv st \<Longrightarrow> valid l e \<Longrightarrow>
      delivered ws cfg gu dn (snd (synchronize_expert ops (prefetch_expert ops st l e) l e)) l e"

text \<open>Oracle and router only name experts that exist, on every layer of the network.\<close>

definition names_valid :: "'e Model \<Rightarrow> GeneratorConfig \<Rightarrow> (int \<Rightarrow> int \<Rightarrow> bool) \<Rightarrow> bool" where
  "names_valid md cfg valid \<longleftrightarrow>
     (\<forall>layer \<in> {0 ..< gc_num_layers cfg}. \<forall>x. let ml = ws_layer_index (md_weights md) layer in
        (\<forall>e \<in> set (md_predict md ml x (nat (gc_hidden_dim cfg)) (nat (gc_topk cfg))). valid ml e) \<and>
        (\<forall>es \<in> set (routed md ml x cfg). valid ml (fst es)))"

text \<open>The bookkeeping of a part of the loop: \<open>k\<close> experts evaluated, \<open>p\<close> consultations of the oracle.\<close>

definition progress :: "nat \<Rightarrow> nat \<Rightarrow> ('p, 'e) Generator \<Rightarrow> ('p, 'e) Generator \<Rightarrow> bool" where
  "progress k p g g' \<longleftrightarrow> g_cfg g' = g_cfg g \<and> g_hits g' + g_misses g' = g_hits g + g_misses g + k \<and>
     g_predictions g' = g_predictions g + p \<and> g_reactive g' + g_misses g \<le> g_reactive g + g_misses g'"

lemma progress_trans: "progress k p g g' \<Longrightarrow> progress k' p' g' g'' \<Longrightarrow> progress (k + k') (p + p') g g''"
  by (simp add: progress_def)

lemma progress_refl: "progress 0 0 g g"
  by (simp add: progress_def)

lemma find_map_same: "(\<And>x. P (f x) = P x) \<Longrightarrow> List.find P (map f xs) = map_option f (List.find P xs)"
  by (induction xs) simp_all

lemma ptr_of_touch: "ptr_of (slot_touch c k) j = ptr_of c j"
proof -
  have "find_cached (refresh c k) j =
      map_option (\<lambda>ce. if ce_key ce = k then ce\<lparr>ce_last_used := Suc (sc_clock c)\<rparr> else ce) (find_cached c j)"
    unfolding find_cached_def refresh_def by (simp add: find_map_same)
  then have "ptr_of (refresh c k) j = ptr_of c j"
    by (simp add: ptr_of_def slot_ptr_def refresh_def split: option.split)
  then show ?thesis by (simp add: slot_touch_def split: option.split)
qed

context expert_streams
begin

lemma await_ok:
  assumes "inv (g_streams g)" and "valid ml e"
  shows "inv (g_streams (await_expert ops ml e g))" "delivered ws cfg gu dn (g_streams (await_expert ops ml e g)) ml e"
    "progress 1 0 g (await_expert ops ml e g)" "g_embedder (await_expert ops ml e g) = g_embedder g"
  using assms ready_delivered [of "g_streams g" ml e] inflight_delivered [of "g_streams g" ml e] fetched_delivered [of "g_streams g" ml e]
    prefetch_inv [of "g_streams g" ml e] synchronize_inv [of _ ml e]
  by (auto simp: await_expert_def Let_def progress_def)

lemma run_expert_ok:
  assumes "inv (g_streams g)" and "valid ml (fst es)" and "g_cfg g = cfg" and "md_weights md = ws"
  shows "\<exists>g'. run_expert ops md ml x (g, moe) es = Ret (g', map (\<lambda>i. moe ! i + snd es *
      expert_mlp x (nat (gc_hidden_dim cfg)) (nat (gc_inter_dim cfg)) (gu ml (fst es)) (dn ml (fst es)) ! i) [0 ..< nat (gc_hidden_dim cfg)]) \<and>
    inv (g_streams g') \<and> progress 1 0 g g' \<and> g_embedder g' = g_embedder g"
proof -
  let ?g = "await_expert ops ml (fst es) g" and ?k = "ExpertKey ml (fst es)"
  note a = await_ok [OF assms(1,2)]
  have c: "g_cfg ?g = cfg" using a(3) assms(3) by (simp add: progress_def)
  note t = touch_inv [OF a(1), of ?k]
  have d: "delivered ws cfg gu dn ((g_streams ?g)\<lparr>s_cache := slot_touch (s_cache (g_streams ?g)) ?k\<rparr>) ml (fst es)"
    using a(2) by (simp add: delivered_def ptr_of_touch Let_def)
  then show ?thesis using t a(3,4) c assms(4) by (auto simp: run_expert_def delivered_def Let_def progress_def ptr_of_touch)
qed

lemma run_experts_ok:
  assumes "inv (g_streams g)" and "\<forall>es \<in> set ess. valid ml (fst es)" and "g_cfg g = cfg" and "md_weights md = ws"
  shows "\<exists>g'. run_experts ops md ml x (g, moe) ess = Ret (g', foldl (\<lambda>m (e, s). map (\<lambda>i. m ! i + s *
      expert_mlp x (nat (gc_hidden_dim cfg)) (nat (gc_inter_dim cfg)) (gu ml e) (dn ml e) ! i) [0 ..< nat (gc_hidden_dim cfg)]) moe ess) \<and>
    inv (g_streams g') \<and> progress (length ess) 0 g g' \<and> g_embedder g' = g_embedder g"
  using assms
proof (induction ess arbitrary: g moe)
  case Nil
  then show ?case by (simp add: progress_refl)
next
  case (Cons es ess)
  let ?moe = "map (\<lambda>i. moe ! i + snd es *
      expert_mlp x (nat (gc_hidden_dim cfg)) (nat (gc_inter_dim cfg)) (gu ml (fst es)) (dn ml (fst es)) ! i) [0 ..< nat (gc_hidden_dim cfg)]"
  obtain g1 where g1: "run_expert ops md ml x (g, moe) es = Ret (g1, ?moe)" "inv (g_streams g1)" "progress 1 0 g g1" "g_embedder g1 = g_embedder g"
    using run_expert_ok [of g ml es md x moe] Cons.prems by auto
  have "g_cfg g1 = cfg" using g1(3) Cons.prems(3) by (simp add: progress_def)
  with Cons.IH [OF g1(2), of ?moe] Cons.prems obtain g2 where
    g2: "run_experts ops md ml x (g1, ?moe) ess = Ret (g2, foldl (\<lambda>m (e, s). map (\<lambda>i. m ! i + s *
      expert_mlp x (nat (gc_hidden_dim cfg)) (nat (gc_inter_dim cfg)) (gu ml e) (dn ml e) ! i) [0 ..< nat (gc_hidden_dim cfg)]) ?moe ess)"
    "inv (g_streams g2)" "progress (length ess) 0 g1 g2" "g_embedder g2 = g_embedder g1" by auto
  then show ?case using g1 progress_trans [OF g1(3) g2(3)] by (cases es) simp
qed

lemma schedule_inv: "inv st \<Longrightarrow> \<forall>e \<in> set es. valid l e \<Longrightarrow> inv (foldl (schedule_one ops l) st es)"
  by (induction es arbitrary: st) (simp_all add: schedule_one_def prefetch_inv)

lemma run_layer_ok:
  assumes "inv (g_streams g)" and "names_valid md cfg valid" and "g_cfg g = cfg" and "md_weights md = ws"
    and layer: "layer \<in> {0 ..< gc_num_layers cfg}"
  shows "\<exists>g'. run_layer ops md g x layer = Ret (g', ref_layer md cfg gu dn x layer) \<and> inv (g_streams g') \<and>
    progress (nat (gc_topk cfg)) 1 g g' \<and> g_embedder g' = g_embedder g"
proof -
  let ?ml = "ws_layer_index (md_weights md) layer" and ?H = "nat (gc_hidden_dim cfg)"
  let ?st = "on_token_decoded ops md (nat (gc_topk cfg)) ?ml x ?H (g_streams g)"
  let ?g = "g\<lparr>g_streams := ?st, g_predictions := Suc (g_predictions g)\<rparr>"
  have v: "\<forall>e \<in> set (md_predict md ?ml x ?H (nat (gc_topk cfg))). valid ?ml e" "\<forall>es \<in> set (routed md ?ml x cfg). valid ?ml (fst es)"
    using assms(2) layer unfolding names_valid_def Let_def by blast+
  have "inv (g_streams ?g)" using schedule_inv [OF assms(1) v(1)] by (simp add: on_token_decoded_def)
  from run_experts_ok [OF this v(2), of md x "replicate ?H 0"] assms(3,4) obtain g' where
    "run_experts ops md ?ml x (?g, replicate ?H 0) (routed md ?ml x cfg) = Ret (g', foldl (\<lambda>m (e, s). map (\<lambda>i. m ! i + s *
      expert_mlp x ?H (nat (gc_inter_dim cfg)) (gu ?ml e) (dn ?ml e) ! i) [0 ..< ?H]) (replicate ?H 0) (routed md ?ml x cfg))"
    "inv (g_streams g')" "progress (length (routed md ?ml x cfg)) 0 ?g g'" "g_embedder g' = g_embedder g" by auto
  moreover have "length (routed md ?ml x cfg) = nat (gc_topk cfg)" by (simp add: routed_def split: prod.split)
  ultimately show ?thesis using assms(3) by (simp add: run_layer_def ref_layer_def Let_def progress_def)
qed

lemma layers_loop_ok:
  assumes "inv (g_streams g)" and "names_valid md cfg valid" and "g_cfg g = cfg" and "md_weights md = ws"
    and "set ls \<subseteq> {0 ..< gc_num_layers cfg}"
  shows "\<exists>g'. layers_loop ops md g x ls = Ret (g', foldl (ref_layer md cfg gu dn) x ls) \<and> inv (g_streams g') \<and>
    progress (length ls * nat (gc_topk cfg)) (length ls) g g' \<and> g_embedder g' = g_embedder g"
  using assms
proof (induction ls arbitrary: g x)
  case Nil
  then show ?case by (simp add: progress_refl)
next
  case (Cons l ls)
  obtain g1 where g1: "run_layer ops md g x l = Ret (g1, ref_layer md cfg gu dn x l)" "inv (g_streams g1)"
    "progress (nat (gc_topk cfg)) 1 g g1" "g_embedder g1 = g_embedder g" using run_layer_ok [OF Cons.prems(1-4), of l x] Cons.prems(5) by auto
  have "g_cfg g1 = cfg" using g1(3) Cons.prems(3) by (simp add: progress_def)
  from Cons.IH [OF g1(2) Cons.prems(2) this Cons.prems(4), of "ref_layer md cfg gu dn x l"] Cons.prems(5) obtain g2 where
    g2: "layers_loop ops md g1 (ref_layer md cfg gu dn x l) ls = Ret (g2, foldl (ref_layer md cfg gu dn) (ref_layer md cfg gu dn x l) ls)"
    "inv (g_streams g2)" "progress (length ls * nat (gc_topk cfg)) (length ls) g1 g2" "g_embedder g2 = g_embedder g1" by auto
  then show ?case using g1 progress_trans [OF g1(3) g2(3)] by simp
qed

lemma feed_ok:
  assumes "inv (g_streams g)" and "names_valid md cfg valid" and "g_cfg g = cfg" and "md_weights md = ws"
    and "ref_feed md cfg gu dn (g_embedder g) t = (x, emb)"
  shows "\<exists>g'. feed ops md g t = Ret (g', x) \<and> inv (g_streams g') \<and> g_embedder g' = emb \<and>
    progress (nat (gc_num_layers cfg) * nat (gc_topk cfg)) (nat (gc_num_layers cfg)) g g'"
proof -
  obtain y e where y: "md_embed md (g_embedder g) t (nat (gc_hidden_dim cfg)) = (y, e)" by fastforce
  have "length [0 .. gc_num_layers cfg - 1] = nat (gc_num_layers cfg)"
    "set [0 .. gc_num_layers cfg - 1] \<subseteq> {0 ..< gc_num_layers cfg}" by auto
  then show ?thesis
    using layers_loop_ok [of "g\<lparr>g_embedder := e\<rparr>" md "[0 .. gc_num_layers cfg - 1]" y] assms y
    by (auto simp: feed_def ref_feed_def run_layers_def progress_def)
qed

lemma prefill_ok:
  assumes "inv (g_streams g)" and "names_valid md cfg valid" and "g_cfg g = cfg" and "md_weights md = ws"
    and "ref_prefill md cfg gu dn (g_embedder g) x ts = (x', emb)"
  shows "\<exists>g'. prefill ops md g x ts = Ret (g', x') \<and> inv (g_streams g') \<and> g_embedder g' = emb \<and>
    progress (length ts * (nat (gc_num_layers cfg) * nat (gc_topk cfg))) (length ts * nat (gc_num_layers cfg)) g g'"
  using assms
proof (induction ts arbitrary: g x)
  case Nil
  then show ?case by (simp add: progress_refl)
next
  case (Cons t ts)
  obtain y e where y: "ref_feed md cfg gu dn (g_embedder g) t = (y, e)" by fastforce
  obtain g1 where g1: "feed ops md g t = Ret (g1, y)" "inv (g_streams g1)" "g_embedder g1 = e"
    "progress (nat (gc_num_layers cfg) * nat (gc_topk cfg)) (nat (gc_num_layers cfg)) g g1"
    using feed_ok [OF Cons.prems(1-4) y] by blast
  have "g_cfg g1 = cfg" using g1(4) Cons.prems(3) by (simp add: progress_def)
  moreover have "ref_prefill md cfg gu dn (g_embedder g1) y ts = (x', emb)" using Cons.prems(5) y g1(3) by simp
  ultimately obtain g2 where g2: "prefill ops md g1 y ts = Ret (g2, x')" "inv (g_streams g2)" "g_embedder g2 = emb"
    "progress (length ts * (nat (gc_num_layers cfg) * nat (gc_topk cfg))) (length ts * nat (gc_num_layers cfg)) g1 g2"
    using Cons.IH [OF g1(2) Cons.prems(2) _ Cons.prems(4)] by blast
  then show ?case using g1 progress_trans [OF g1(4) g2(4)] by simp
qed

lemma decode_ok:
  assumes "inv (g_streams g)" and "names_valid md cfg valid" and "g_cfg g = cfg" and "md_weights md = ws"
  shows "\<exists>g'. decode ops md n g x out = Ret (g', out @ ref_decode md cfg gu dn n (g_embedder g) x) \<and>
    (let fed = length (filter (\<lambda>t. t \<noteq> gc_eos_token cfg) (ref_decode md cfg gu dn n (g_embedder g) x)) in
     progress (fed * (nat (gc_num_layers cfg) * nat (gc_topk cfg))) (fed * nat (gc_num_layers cfg)) g g')"
  using assms
proof (induction n arbitrary: g x out)
  case 0
  then show ?case by (simp add: progress_refl)
next
  case (Suc n)
  let ?t = "md_sample md x (nat (gc_hidden_dim cfg))"
  show ?case
  proof (cases "?t = gc_eos_token cfg")
    case True
    then show ?thesis using Suc.prems(3) by (simp add: Let_def progress_refl)
  next
    case False
    obtain y e where y: "ref_feed md cfg gu dn (g_embedder g) ?t = (y, e)" by fastforce
    obtain g1 where g1: "feed ops md g ?t = Ret (g1, y)" "inv (g_streams g1)" "g_embedder g1 = e"
      "progress (nat (gc_num_layers cfg) * nat (gc_topk cfg)) (nat (gc_num_layers cfg)) g g1"
      using feed_ok [OF Suc.prems y] by blast
    have "g_cfg g1 = cfg" using g1(4) Suc.prems(3) by (simp add: progress_def)
    from Suc.IH [OF g1(2) Suc.prems(2) this Suc.prems(4), of y "out @ [?t]"] g1(3) obtain g2 where
      g2: "decode ops md n g1 y (out @ [?t]) = Ret (g2, out @ ?t # ref_decode md cfg gu dn n e y)"
      "let fed = length (filter (\<lambda>t. t \<noteq> gc_eos_token cfg) (ref_decode md cfg gu dn n e y)) in
       progress (fed * (nat (gc_num_layers cfg) * nat (gc_topk cfg))) (fed * nat (gc_num_layers cfg)) g1 g2" by auto
    then show ?thesis
      using g1 y False Suc.prems(3) progress_trans [OF g1(4) g2(2) [unfolded Let_def]] by (simp add: Let_def)
  qed
qed

lemma generate_ok:
  assumes "inv (g_streams g)" and "names_valid md cfg valid" and "g_cfg g = cfg" and "md_weights md = ws"
  shows "\<exists>g'. gen_generate ops md g prmpt n = Ret (g', ref_generate md cfg gu dn (g_embedder g) prmpt n) \<and>
    (let out = ref_generate md cfg gu dn (g_embedder g) prmpt n;
         fed = (if out = [] then 0 else length prmpt + length (filter (\<lambda>t. t \<noteq> gc_eos_token cfg) out))
     in progress (fed * (nat (gc_num_layers cfg) * nat (gc_topk cfg))) (fed * nat (gc_num_layers cfg)) g g')"
proof (cases "prmpt = [] \<or> n \<le> 0")
  case True
  then show ?thesis by (auto simp: gen_generate_def ref_generate_def progress_refl)
next
  case False
  let ?x = "replicate (nat (gc_hidden_dim cfg)) 0"
  obtain y e where y: "ref_prefill md cfg gu dn (g_embedder g) ?x prmpt = (y, e)" by fastforce
  obtain g1 where g1: "prefill ops md g ?x prmpt = Ret (g1, y)" "inv (g_streams g1)" "g_embedder g1 = e"
    "progress (length prmpt * (nat (gc_num_layers cfg) * nat (gc_topk cfg))) (length prmpt * nat (gc_num_layers cfg)) g g1"
    using prefill_ok [OF assms y] by blast
  have "g_cfg g1 = cfg" using g1(4) assms(3) by (simp add: progress_def)
  from decode_ok [OF g1(2) assms(2) this assms(4), of "nat n" y "[]"] g1(3) obtain g2 where
    g2: "decode ops md (nat n) g1 y [] = Ret (g2, ref_decode md cfg gu dn (nat n) e y)"
    "let fed = length (filter (\<lambda>t. t \<noteq> gc_eos_token cfg) (ref_decode md cfg gu dn (nat n) e y)) in
     progress (fed * (nat (gc_num_layers cfg) * nat (gc_topk cfg))) (fed * nat (gc_num_layers cfg)) g1 g2" by auto
  have r: "ref_generate md cfg gu dn (g_embedder g) prmpt n = ref_decode md cfg gu dn (nat n) e y"
    using False y by (simp add: ref_generate_def)
  have "ref_decode md cfg gu dn (nat n) e y \<noteq> []"
    using ref_decode_shape [of md cfg gu dn "nat n" e y] False by auto
  then show ?thesis
    using g1 g2(1) r False assms(3) progress_trans [OF g1(4) g2(2) [unfolded Let_def]]
    by (simp add: gen_generate_def Let_def algebra_simps)
qed

end

section \<open>A synchronous prefetcher over the slot cache\<close>

text \<open>The contract can be met: acquire a slot and copy the weights at once.\<close>

definition sync_fetch :: "(int \<Rightarrow> int \<Rightarrow> real) \<Rightarrow> nat \<Rightarrow> (ExpertKey \<Rightarrow> nat) \<Rightarrow> unit Streams \<Rightarrow> int \<Rightarrow> int \<Rightarrow> unit Streams" where
  "sync_fetch pr n src st l e =
     (case slot_get pr n (s_cache st) (ExpertKey l e) () of (ok, c) \<Rightarrow>
        st\<lparr>s_cache := c,
           s_mem := (if ok then case slot_region c (ExpertKey l e) of None \<Rightarrow> s_mem st
                               | Some (a, _) \<Rightarrow> memcpy (s_mem st) a (src (ExpertKey l e)) n
                     else s_mem st)\<rparr>)"

definition sync_ops :: "(int \<Rightarrow> int \<Rightarrow> real) \<Rightarrow> nat \<Rightarrow> (ExpertKey \<Rightarrow> nat) \<Rightarrow> unit PrefetcherOps" where
  "sync_ops pr n src =
     \<lparr>is_ready = (\<lambda>st l e. slot_contains (s_cache st) (ExpertKey l e)), is_inflight = (\<lambda>st l e. False),
      prefetch_expert = sync_fetch pr n src, synchronize_expert = (\<lambda>st l e. (True, st)), pf_synchronize_all = id\<rparr>"

definition sync_inv :: "nat \<Rightarrow> (ExpertKey \<Rightarrow> nat) \<Rightarrow> region \<Rightarrow> memory \<Rightarrow> unit Streams \<Rightarrow> bool" where
  "sync_inv n src sp m0 st \<longleftrightarrow> slot_ok n (s_cache st) \<and> slot_space (s_cache st) = sp \<and>
     filled slot_region src n (s_cache st, s_mem st) \<and> (\<forall>k. span (src k) n \<inter> span (fst sp) (snd sp) = {}) \<and>
     (\<forall>x. x \<notin> span (fst sp) (snd sp) \<longrightarrow> s_mem st x = m0 x)"

lemma slot_region_touch: "slot_region (slot_touch c k) = slot_region c"
proof
  fix j
  have "find_cached (refresh c k) j =
      map_option (\<lambda>ce. if ce_key ce = k then ce\<lparr>ce_last_used := Suc (sc_clock c)\<rparr> else ce) (find_cached c j)"
    unfolding find_cached_def refresh_def by (simp add: find_map_same)
  then have "slot_region (refresh c k) j = slot_region c j"
    by (cases "find_cached c j") (simp_all add: slot_region_def slot_ptr_def refresh_def)
  then show "slot_region (slot_touch c k) j = slot_region c j" by (simp add: slot_touch_def split: option.split)
qed

lemma slot_touch_ok: "slot_ok n c \<Longrightarrow> slot_ok n (slot_touch c k) \<and> slot_space (slot_touch c k) = slot_space c"
  using slot_refresh_inv [of c k] by (auto simp: slot_ok_def slot_touch_def slot_space_def refresh_def split: option.split)

lemma sync_fetch_fill:
  "(s_cache (sync_fetch pr n src st l e), s_mem (sync_fetch pr n src st l e)) =
     fill_all (slot_get pr n) slot_region src n [(ExpertKey l e, ())] (s_cache st, s_mem st)"
  by (simp add: sync_fetch_def split: prod.split)

lemma sync_fetch_inv:
  assumes "sync_inv n src sp m0 st"
  shows "sync_inv n src sp m0 (sync_fetch pr n src st l e)" "slot_contains (s_cache (sync_fetch pr n src st l e)) (ExpertKey l e)"
proof -
  have ok: "slot_ok n (s_cache st)" and sp: "slot_space (s_cache st) = sp"
    and f: "filled slot_region src n (s_cache st, s_mem st)" and aw: "\<And>k. span (src k) n \<inter> span (fst sp) (snd sp) = {}"
    using assms by (simp_all add: sync_inv_def)
  obtain r c where g: "slot_get pr n (s_cache st) (ExpertKey l e) () = (r, c)" by fastforce
  have c: "s_cache (sync_fetch pr n src st l e) = c" using g by (simp add: sync_fetch_def)
  have "filled slot_region src n (s_cache (sync_fetch pr n src st l e), s_mem (sync_fetch pr n src st l e))"
    unfolding sync_fetch_fill by (rule slot_store.fill_all_filled [OF ok f]) (simp add: sp aw)
  moreover have "s_mem (sync_fetch pr n src st l e) x = s_mem st x" if "x \<notin> span (fst sp) (snd sp)" for x
    using slot_store.fill_all_outside [OF ok, of x pr src "[(ExpertKey l e, ())]" "s_mem st"] that sp
    by (simp add: sync_fetch_fill [symmetric] del: mem_span fill_all.simps)
  ultimately show "sync_inv n src sp m0 (sync_fetch pr n src st l e)"
    using assms slot_get_cases(2,3) [OF ok g] c by (simp add: sync_inv_def del: mem_span)
  show "slot_contains (s_cache (sync_fetch pr n src st l e)) (ExpertKey l e)"
    using slot_get_cases(4) [OF ok g] c by (simp add: slot_contains_region)
qed

lemma sync_delivered:
  assumes inv: "sync_inv n src sp m0 st" and c: "slot_contains (s_cache st) (ExpertKey l e)"
    and v: "ws_expert_tensors ws l e = Ret views"
    and off: "tv_slot_offset (views ! 0) + 4 * (2 * nat (gc_inter_dim cfg) * nat (gc_hidden_dim cfg)) \<le> n"
      "tv_slot_offset (views ! 1) + 4 * (nat (gc_hidden_dim cfg) * nat (gc_inter_dim cfg)) \<le> n"
    and gu: "gu l e = load_floats m0 (src (ExpertKey l e) + tv_slot_offset (views ! 0)) (2 * nat (gc_inter_dim cfg) * nat (gc_hidden_dim cfg))"
    and dn: "dn l e = load_floats m0 (src (ExpertKey l e) + tv_slot_offset (views ! 1)) (nat (gc_hidden_dim cfg) * nat (gc_inter_dim cfg))"
  shows "delivered ws cfg gu dn st l e"
proof -
  let ?k = "ExpertKey l e"
  obtain a len where r: "slot_region (s_cache st) ?k = Some (a, len)" using c by (auto simp: slot_contains_region)
  have ok: "slot_ok n (s_cache st)" using inv by (simp add: sync_inv_def)
  have sb: "same_bytes (s_mem st) a (src ?k) n" using inv r by (auto simp: sync_inv_def filled_def)
  have "s_mem st (a + i) = m0 (src ?k + i)" if "i < n" for i
  proof -
    have "src ?k + i \<in> span (src ?k) n" using that by simp
    then have "src ?k + i \<notin> span (fst sp) (snd sp)" using inv unfolding sync_inv_def by blast
    then have "s_mem st (src ?k + i) = m0 (src ?k + i)" using inv by (simp add: sync_inv_def del: mem_span)
    then show ?thesis using sb that by (simp add: same_bytes_def)
  qed
  then have "load_floats (s_mem st) (a + o') q = load_floats m0 (src ?k + o') q" if "o' + 4 * q \<le> n" for o' q
    using that by (intro load_floats_cong) (simp add: add.assoc)
  moreover have "ptr_of (s_cache st) ?k = a" "a \<noteq> nullptr"
    using r slot_store.region_inside [OF ok r] by (simp_all add: ptr_of_region)
  ultimately show ?thesis using v off gu dn by (simp add: delivered_def Let_def)
qed

end
