(* ===== verification/Bench.thy ===== *)
theory Bench
  imports Generation "HOL-Library.Log_Nat"
begin

text \<open>
  The benchmark driver \<^verbatim>\<open>tools/dee_bench.cpp\<close>: its synthetic weights, oracle, router, embedder and
  sampler, the command line, and \<^verbatim>\<open>main\<close>, which composes the slot cache and the generation loop. What a
  conversion of a \<^verbatim>\<open>float\<close> outside the range of the integer type yields is undefined in C++, so
  the conversions are parameters; the addresses of the weight vectors, the prefetcher and the loader of real
  weights are parameters too. Integer arithmetic on small ids is unbounded. The second half of the theory
  meets the prefetcher's contract with a prefetcher that copies at once, and states what the loop guarantees.
\<close>

section \<open>Arithmetic of C\<close>

text \<open>\<^verbatim>\<open>%\<close> takes the sign of the dividend, and so does \<^verbatim>\<open>std::fmod\<close>.\<close>

definition c_rem :: "int \<Rightarrow> int \<Rightarrow> int" where
  "c_rem a b = sgn a * (\<bar>a\<bar> mod \<bar>b\<bar>)"

definition trunc :: "real \<Rightarrow> int" where
  "trunc r = (if r < 0 then - \<lfloor>- r\<rfloor> else \<lfloor>r\<rfloor>)"

definition fmod :: "real \<Rightarrow> real \<Rightarrow> real" where
  "fmod x y = x - y * real_of_int (trunc (x / y))"

definition size_of_int :: "int \<Rightarrow> nat" where
  "size_of_int i = nat (i mod 2 ^ 64)"

text \<open>The conversion of an integer below \<open>2 ^ 24\<close> to \<^verbatim>\<open>float\<close>: the position of the leading bit and the bits after it.\<close>

definition f32_of_nat :: "nat \<Rightarrow> 32 word" where
  "f32_of_nat n =
     (if n = 0 then 0
      else let e = floorlog 2 n - 1
           in push_bit 23 (word_of_nat (127 + e)) OR word_of_nat ((n - 2 ^ e) * 2 ^ (23 - e)))"

section \<open>Synthetic weights\<close>

definition zero_priority :: "int \<Rightarrow> int \<Rightarrow> real" where
  "zero_priority layer expert = 0"

record Entry =
  en_gu :: "32 word list"
  en_dn :: "32 word list"

record SyntheticWeightSource =
  sw_data :: "ExpertKey \<Rightarrow> Entry option"
  sw_nl :: int
  sw_ne :: int
  sw_H :: int
  sw_I :: int
  sw_gu_bytes :: nat
  sw_dn_bytes :: nat

definition synth_gu :: "int \<Rightarrow> int \<Rightarrow> nat \<Rightarrow> nat" where
  "synth_gu L E i = nat ((L * 131 + E * 17 + int i * 3 + 1) mod 256)"

definition synth_dn :: "int \<Rightarrow> int \<Rightarrow> nat \<Rightarrow> nat" where
  "synth_dn L E i = nat ((L * 197 + E * 11 + int i * 5 + 2) mod 256)"

definition synth_entry :: "nat \<Rightarrow> nat \<Rightarrow> int \<Rightarrow> int \<Rightarrow> Entry" where
  "synth_entry gu dn L E =
     \<lparr>en_gu = map (\<lambda>i. f32_of_nat (synth_gu L E i)) [0 ..< gu], en_dn = map (\<lambda>i. f32_of_nat (synth_dn L E i)) [0 ..< dn]\<rparr>"

text \<open>A vector of \<open>2 ^ 61\<close> floats or more is a length error.\<close>

definition synth_new :: "int \<Rightarrow> int \<Rightarrow> int \<Rightarrow> int \<Rightarrow> exn + SyntheticWeightSource" where
  "synth_new nl ne hidden intr =
     (let gu = mul64 (mul64 2 (size_of_int intr)) (size_of_int hidden);
          dn = mul64 (size_of_int hidden) (size_of_int intr)
      in if 0 < nl \<and> 0 < ne \<and> (2 ^ 61 \<le> gu \<or> 2 ^ 61 \<le> dn) then Inl Length_error
         else Inr \<lparr>sw_data = (\<lambda>k. if 0 \<le> key_layer k \<and> key_layer k < nl \<and> 0 \<le> key_expert k \<and> key_expert k < ne
                                  then Some (synth_entry gu dn (key_layer k) (key_expert k)) else None),
                   sw_nl = nl, sw_ne = ne, sw_H = hidden, sw_I = intr, sw_gu_bytes = mul64 gu 4, sw_dn_bytes = mul64 dn 4\<rparr>)"

text \<open>\<open>at_gu\<close> and \<open>at_dn\<close> are the addresses of the entries' vectors; \<^verbatim>\<open>data_.at\<close> throws for an unknown expert.\<close>

definition synth_expert_tensors ::
  "SyntheticWeightSource \<Rightarrow> (ExpertKey \<Rightarrow> nat) \<Rightarrow> (ExpertKey \<Rightarrow> nat) \<Rightarrow> int \<Rightarrow> int \<Rightarrow> ExpertTensorView list outcome" where
  "synth_expert_tensors sw at_gu at_dn layer expert_id =
     (let k = ExpertKey layer expert_id
      in case sw_data sw k of
           None \<Rightarrow> Throw Out_of_range
         | Some d \<Rightarrow> Ret [\<lparr>tv_data = at_gu k, tv_nbytes = sw_gu_bytes sw, tv_slot_offset = 0, tv_kind = GateUp\<rparr>,
                          \<lparr>tv_data = at_dn k, tv_nbytes = sw_dn_bytes sw, tv_slot_offset = sw_gu_bytes sw, tv_kind = Down\<rparr>])"

definition synth_total_bytes :: "SyntheticWeightSource \<Rightarrow> nat" where
  "synth_total_bytes sw = add64 (sw_gu_bytes sw) (sw_dn_bytes sw)"

definition synth_tensor_name :: "int \<Rightarrow> int \<Rightarrow> ExpertTensor \<Rightarrow> string" where
  "synth_tensor_name layer e t =
     ''synth.'' @ show_int layer @ ''.'' @ show_int e @ ''.'' @ (if t = GateUp then ''gu'' else ''dn'')"

definition synth_decode :: "memory \<Rightarrow> nat \<Rightarrow> nat \<Rightarrow> nat \<Rightarrow> memory" where
  "synth_decode m bf16 out n = memcpy m out bf16 (mul64 n 4)"

definition synth_source :: "SyntheticWeightSource \<Rightarrow> (ExpertKey \<Rightarrow> nat) \<Rightarrow> (ExpertKey \<Rightarrow> nat) \<Rightarrow> WeightSource" where
  "synth_source sw at_gu at_dn = \<lparr>ws_layer_index = (\<lambda>pos. pos), ws_expert_tensors = synth_expert_tensors sw at_gu at_dn\<rparr>"

section \<open>Oracle, router, embedder and sampler\<close>

definition token_base :: "(real \<Rightarrow> int) \<Rightarrow> int \<Rightarrow> real list \<Rightarrow> int" where
  "token_base to_int ne h = (let base = c_rem (to_int (h ! 0 * 1000)) ne in if base < 0 then base + ne else base)"

definition token_predict :: "(real \<Rightarrow> int) \<Rightarrow> int \<Rightarrow> int \<Rightarrow> real list \<Rightarrow> nat \<Rightarrow> nat \<Rightarrow> int list" where
  "token_predict to_int ne layer h hidden_dim topk =
     map (\<lambda>i. c_rem (token_base to_int ne h + int i * 7 + layer * 3) ne) [0 ..< topk]"

definition token_scores :: "nat \<Rightarrow> real list" where
  "token_scores topk = map (\<lambda>i. 1 - real i / real topk) [0 ..< topk]"

definition token_route :: "(real \<Rightarrow> int) \<Rightarrow> int \<Rightarrow> int \<Rightarrow> real list \<Rightarrow> nat \<Rightarrow> nat \<Rightarrow> int list \<times> real list" where
  "token_route to_int ne layer h hidden_dim topk =
     (map (\<lambda>i. c_rem (token_base to_int ne h + int i * 5 + layer * 11) ne) [0 ..< topk],
      map (\<lambda>i. 1 - real i / real (2 * topk)) [0 ..< topk])"

text \<open>The state of the embedder is its step counter.\<close>

definition linear_embed :: "nat \<Rightarrow> int \<Rightarrow> nat \<Rightarrow> real list \<times> nat" where
  "linear_embed step token_id hidden_dim =
     (let pos = fmod (real step * (137 / 1000)) 1
      in (map (\<lambda>i. fmod (real_of_int (token_id * 31 + int i * 7 + 1)) 10 - 5 + pos + fmod (real i * (1 / 100)) 1) [0 ..< hidden_dim],
          Suc step))"

definition argmax_sample :: "(real \<Rightarrow> int) \<Rightarrow> int \<Rightarrow> real list \<Rightarrow> nat \<Rightarrow> int" where
  "argmax_sample to_long vocab h hidden_dim =
     (let acc = foldl (\<lambda>acc i. c_rem (acc * 31 + to_long (h ! i * 1000)) vocab) 0 [0 ..< hidden_dim];
          acc' = (if acc < 0 then acc + vocab else acc)
      in to_int32 (c_rem acc' vocab))"

section \<open>The command line\<close>

record BenchArgs =
  ba_layers :: int
  ba_experts :: int
  ba_hidden :: int
  ba_inter :: int
  ba_topk :: int
  ba_slots :: int
  ba_prompt :: int
  ba_max_new :: int
  ba_eos :: int
  ba_vocab :: int
  ba_weights_dir :: string

definition bench_defaults :: BenchArgs where
  "bench_defaults =
     \<lparr>ba_layers = 4, ba_experts = 16, ba_hidden = 64, ba_inter = 128, ba_topk = 2, ba_slots = 32, ba_prompt = 1,
      ba_max_new = 64, ba_eos = - 1, ba_vocab = 1000, ba_weights_dir = []\<rparr>"

definition bench_flag :: "string \<Rightarrow> (int \<Rightarrow> BenchArgs \<Rightarrow> BenchArgs) option" where
  "bench_flag f =
     (if f = ''--layers'' then Some (\<lambda>n a. a\<lparr>ba_layers := n\<rparr>)
      else if f = ''--experts'' then Some (\<lambda>n a. a\<lparr>ba_experts := n\<rparr>)
      else if f = ''--hidden'' then Some (\<lambda>n a. a\<lparr>ba_hidden := n\<rparr>)
      else if f = ''--inter'' then Some (\<lambda>n a. a\<lparr>ba_inter := n\<rparr>)
      else if f = ''--topk'' then Some (\<lambda>n a. a\<lparr>ba_topk := n\<rparr>)
      else if f = ''--slots'' then Some (\<lambda>n a. a\<lparr>ba_slots := n\<rparr>)
      else if f = ''--prompt'' then Some (\<lambda>n a. a\<lparr>ba_prompt := n\<rparr>)
      else if f = ''--max-new'' then Some (\<lambda>n a. a\<lparr>ba_max_new := n\<rparr>)
      else if f = ''--eos'' then Some (\<lambda>n a. a\<lparr>ba_eos := n\<rparr>)
      else if f = ''--vocab'' then Some (\<lambda>n a. a\<lparr>ba_vocab := n\<rparr>)
      else None)"

text \<open>A flag at the end of the line keeps its value; \<open>None\<close> is the usage message.\<close>

fun bench_parse :: "BenchArgs \<Rightarrow> string list \<Rightarrow> BenchArgs option outcome" where
  "bench_parse a [] = Ret (Some a)"
| "bench_parse a [f] =
     (if bench_flag f \<noteq> None then Ret (Some a)
      else if f = ''--weights-dir'' then Ret (Some (a\<lparr>ba_weights_dir := []\<rparr>)) else Ret None)"
| "bench_parse a (f # v # args) =
     (case bench_flag f of
        Some upd \<Rightarrow> bind_out (atoi v) (\<lambda>n. bench_parse (upd n a) args)
      | None \<Rightarrow> if f = ''--weights-dir'' then bench_parse (a\<lparr>ba_weights_dir := v\<rparr>) args else Ret None)"

section \<open>\<^verbatim>\<open>main\<close>\<close>

record Loaded =
  ld_source :: WeightSource
  ld_H :: int
  ld_I :: int
  ld_E :: int
  ld_NL :: int
  ld_slot_bytes :: nat

text \<open>\<open>open_dir\<close> opens the real weights and gives the bytes of an expert; a failure ends the program with code 2.\<close>

definition load_weights ::
  "(string \<Rightarrow> exn + Loaded) \<Rightarrow> (ExpertKey \<Rightarrow> nat) \<Rightarrow> (ExpertKey \<Rightarrow> nat) \<Rightarrow> BenchArgs \<Rightarrow> Loaded option outcome" where
  "load_weights open_dir at_gu at_dn a =
     (if ba_weights_dir a \<noteq> []
      then case open_dir (ba_weights_dir a) of
             Inl _ \<Rightarrow> Ret None
           | Inr ld \<Rightarrow> Ret (Some (ld\<lparr>ld_slot_bytes := add64 (ld_slot_bytes ld) 64\<rparr>))
      else bind_out (of_exn (synth_new (ba_layers a) (ba_experts a) (ba_hidden a) (ba_inter a))) (\<lambda>sw.
             let hid = size_of_int (ba_hidden a); intr = size_of_int (ba_inter a)
             in Ret (Some \<lparr>ld_source = synth_source sw at_gu at_dn, ld_H = ba_hidden a, ld_I = ba_inter a,
                           ld_E = ba_experts a, ld_NL = ba_layers a,
                           ld_slot_bytes = add64 (mul64 (add64 (mul64 (mul64 2 intr) hid) (mul64 hid intr)) 4) 64\<rparr>)))"

definition bench_model :: "(real \<Rightarrow> int) \<Rightarrow> (real \<Rightarrow> int) \<Rightarrow> Loaded \<Rightarrow> BenchArgs \<Rightarrow> nat Model" where
  "bench_model to_int to_long ld a =
     \<lparr>md_predict = token_predict to_int (ld_E ld), md_route = token_route to_int (ld_E ld), md_embed = linear_embed,
      md_sample = argmax_sample to_long (ba_vocab a), md_weights = ld_source ld\<rparr>"

definition bench_config :: "Loaded \<Rightarrow> BenchArgs \<Rightarrow> GeneratorConfig" where
  "bench_config ld a =
     \<lparr>gc_num_layers = ld_NL ld, gc_topk = ba_topk a, gc_hidden_dim = ld_H ld, gc_inter_dim = ld_I ld, gc_eos_token = ba_eos a\<rparr>"

text \<open>What is printed at the end, apart from the times; \<open>Report\<close> has the text.\<close>

record BenchReport =
  br_tokens :: int
  br_hits :: nat
  br_misses :: nat
  br_reactive :: nat
  br_oracle_calls :: nat
  br_first :: "int list"
  br_out_size :: nat

record 'p BenchEnv =
  bv_ops :: "'p PrefetcherOps"
  bv_pf :: 'p
  bv_malloc :: "nat \<Rightarrow> nat"
  bv_mem :: memory
  bv_open_dir :: "string \<Rightarrow> exn + Loaded"
  bv_at_gu :: "ExpertKey \<Rightarrow> nat"
  bv_at_dn :: "ExpertKey \<Rightarrow> nat"
  bv_to_int :: "real \<Rightarrow> int"
  bv_to_long :: "real \<Rightarrow> int"

definition bench_run :: "'p BenchEnv \<Rightarrow> BenchArgs \<Rightarrow> Loaded \<Rightarrow> BenchReport outcome" where
  "bench_run env a ld =
     bind_out (of_exn (slot_cache_new (bv_malloc env) (ld_slot_bytes ld) (ba_slots a))) (\<lambda>cache.
     bind_out (of_exn (generator_new \<lparr>s_pf = bv_pf env, s_cache = cache, s_mem = bv_mem env\<rparr> 0 (bench_config ld a))) (\<lambda>gen.
     bind_out (gen_generate (bv_ops env) (bench_model (bv_to_int env) (bv_to_long env) ld a) gen [ba_prompt a] (ba_max_new a)) (\<lambda>(gen', out).
     Ret \<lparr>br_tokens = to_int32 (int (length out)), br_hits = g_hits gen', br_misses = g_misses gen', br_reactive = g_reactive gen',
          br_oracle_calls = g_predictions gen', br_first = take 12 out, br_out_size = length out\<rparr>)))"

definition bench_main :: "'p BenchEnv \<Rightarrow> string list \<Rightarrow> (int \<times> BenchReport option) outcome" where
  "bench_main env args =
     bind_out (bench_parse bench_defaults args) (\<lambda>p. case p of None \<Rightarrow> Ret (2, None) | Some a \<Rightarrow>
       if ba_max_new a \<le> 0 then Ret (2, None)
       else bind_out (load_weights (bv_open_dir env) (bv_at_gu env) (bv_at_dn env) a) (\<lambda>l.
              case l of None \<Rightarrow> Ret (2, None) | Some ld \<Rightarrow>
                bind_out (bench_run env a ld) (\<lambda>r. Ret (0, Some r))))"

section \<open>Ranges\<close>

lemma c_rem_range: "0 \<le> a \<Longrightarrow> 0 < b \<Longrightarrow> 0 \<le> c_rem a b \<and> c_rem a b < b"
  by (cases "a = 0") (simp_all add: c_rem_def)

lemma c_rem_bounds: "0 < b \<Longrightarrow> - b < c_rem a b \<and> c_rem a b < b"
proof -
  assume b: "0 < b"
  then have "0 \<le> \<bar>a\<bar> mod \<bar>b\<bar>" "\<bar>a\<bar> mod \<bar>b\<bar> < b" by simp_all
  then show ?thesis using b unfolding c_rem_def sgn_if by (simp only: split: if_split) linarith
qed

lemma token_base_range: "0 < ne \<Longrightarrow> 0 \<le> token_base to_int ne h \<and> token_base to_int ne h < ne"
  using c_rem_bounds [of ne "to_int (h ! 0 * 1000)"] by (auto simp: token_base_def Let_def)

lemma token_predict_range:
  "0 < ne \<Longrightarrow> 0 \<le> layer \<Longrightarrow> e \<in> set (token_predict to_int ne layer h hdim k) \<Longrightarrow> 0 \<le> e \<and> e < ne"
  using token_base_range [of ne to_int h] by (auto simp: token_predict_def intro!: c_rem_range [THEN conjunct1] c_rem_range [THEN conjunct2])

lemma token_route_range:
  "0 < ne \<Longrightarrow> 0 \<le> layer \<Longrightarrow> e \<in> set (fst (token_route to_int ne layer h hdim k)) \<Longrightarrow> 0 \<le> e \<and> e < ne"
  using token_base_range [of ne to_int h] by (auto simp: token_route_def intro!: c_rem_range [THEN conjunct1] c_rem_range [THEN conjunct2])

lemma argmax_sample_range:
  assumes "0 < vocab" "is_int32 vocab"
  shows "0 \<le> argmax_sample to_long vocab h hdim \<and> argmax_sample to_long vocab h hdim < vocab"
proof -
  define acc where "acc = foldl (\<lambda>acc i. c_rem (acc * 31 + to_long (h ! i * 1000)) vocab) 0 [0 ..< hdim]"
  have "- vocab < acc"
    unfolding acc_def by (cases hdim) (use assms c_rem_bounds [OF assms(1)] in auto)
  then have r: "0 \<le> c_rem (if acc < 0 then acc + vocab else acc) vocab \<and> c_rem (if acc < 0 then acc + vocab else acc) vocab < vocab"
    using assms by (intro c_rem_range) auto
  then have "is_int32 (c_rem (if acc < 0 then acc + vocab else acc) vocab)"
    using assms(2) by (simp add: is_int32_def)
  then show ?thesis using r by (simp add: argmax_sample_def Let_def acc_def [symmetric] to_int32_id)
qed

lemma f32_of_nat_real:
  assumes "n < 2 ^ 24"
  shows "f32_real (f32_of_nat n) = real n"
proof (cases "n = 0")
  case True
  then show ?thesis by (simp add: f32_of_nat_def f32_real_def f32_value_def float_value_def)
next
  case False
  define e where "e = floorlog 2 n - 1"
  have fl: "2 ^ e \<le> n" "n < 2 ^ Suc e"
    using floorlog_bounds [of n 2] False floorlog_eq_zero_iff [of 2 n] unfolding e_def by (auto simp: Suc_diff_Suc)
  have e: "e \<le> 23"
  proof (rule ccontr)
    assume "\<not> e \<le> 23"
    then have "(2 :: nat) ^ 24 \<le> 2 ^ e" by (intro power_increasing) simp_all
    then show False using fl(1) assms by linarith
  qed
  define x where "x = (n - 2 ^ e) * 2 ^ (23 - e)"
  have "n - 2 ^ e < 2 ^ e" using fl by simp
  then have "x < 2 ^ e * 2 ^ (23 - e)" unfolding x_def by simp
  also have "\<dots> = 2 ^ 23" using e by (simp add: power_add [symmetric])
  finally have x: "x < 2 ^ 23" .
  have u: "unat (word_of_nat x :: 32 word) = x" "unat (word_of_nat (127 + e) :: 32 word) = 127 + e"
    using x e by (simp_all add: unsigned_of_nat take_bit_nat_eq_self del: of_nat_add)
  have t: "take_bit 1 (0 :: 32 word) = 0" "take_bit 8 (word_of_nat (127 + e) :: 32 word) = word_of_nat (127 + e)"
    "take_bit 23 (word_of_nat x :: 32 word) = word_of_nat x"
    using x e u by (simp_all add: take_bit_small del: of_nat_add)
  have w: "f32_of_nat n = push_bit 31 0 OR push_bit 23 (word_of_nat (127 + e)) OR word_of_nat x"
    using False by (simp add: f32_of_nat_def e_def x_def Let_def)
  have "f32_value (f32_of_nat n) = float_value 8 23 0 (127 + e) x"
    unfolding w f32_value_def f32_fields [OF t] u by simp
  also have "\<dots> = Some ((1 + real x / 2 ^ 23) * 2 ^ e)"
    using e by (simp add: float_value_def Let_def power_int_def)
  also have "(1 + real x / 2 ^ 23) * 2 ^ e = real n"
  proof -
    have "(2 :: real) ^ 23 = 2 ^ e * 2 ^ (23 - e)" using e by (simp add: power_add [symmetric])
    then have "real x / 2 ^ 23 = (real n - 2 ^ e) / 2 ^ e"
      unfolding x_def using fl(1) by (simp add: of_nat_diff field_simps)
    then show ?thesis by (simp add: field_simps)
  qed
  finally show ?thesis by (simp add: f32_real_def)
qed

section \<open>The contract of the prefetcher, met on the synthetic weights\<close>

text \<open>The vectors hold their elements, and their sizes are the ones that the generator reads.\<close>

definition synth_stored :: "SyntheticWeightSource \<Rightarrow> (ExpertKey \<Rightarrow> nat) \<Rightarrow> memory \<Rightarrow> bool" where
  "synth_stored sw at_gu m \<longleftrightarrow>
     (\<forall>k d. sw_data sw k = Some d \<longrightarrow> load_floats m (at_gu k) (length (en_gu d)) = map f32_real (en_gu d) \<and>
        load_floats m (at_gu k + sw_gu_bytes sw) (length (en_dn d)) = map f32_real (en_dn d))"

definition synth_dims :: "SyntheticWeightSource \<Rightarrow> GeneratorConfig \<Rightarrow> bool" where
  "synth_dims sw cfg \<longleftrightarrow>
     (\<forall>k d. sw_data sw k = Some d \<longrightarrow>
        length (en_gu d) = 2 * nat (gc_inter_dim cfg) * nat (gc_hidden_dim cfg) \<and>
        length (en_dn d) = nat (gc_hidden_dim cfg) * nat (gc_inter_dim cfg) \<and>
        sw_gu_bytes sw = 4 * length (en_gu d) \<and> sw_dn_bytes sw = 4 * length (en_dn d))"

definition synth_weights :: "(Entry \<Rightarrow> 32 word list) \<Rightarrow> SyntheticWeightSource \<Rightarrow> int \<Rightarrow> int \<Rightarrow> real list" where
  "synth_weights sel sw l e = (case sw_data sw (ExpertKey l e) of None \<Rightarrow> [] | Some d \<Rightarrow> map f32_real (sel d))"

definition synth_inv :: "SyntheticWeightSource \<Rightarrow> (ExpertKey \<Rightarrow> nat) \<Rightarrow> region \<Rightarrow> memory \<Rightarrow> GeneratorConfig \<Rightarrow> unit Streams \<Rightarrow> bool" where
  "synth_inv sw at_gu sp m0 cfg st \<longleftrightarrow>
     sync_inv (sw_gu_bytes sw + sw_dn_bytes sw) at_gu sp m0 st \<and> synth_stored sw at_gu m0 \<and> synth_dims sw cfg"

abbreviation "next_to sw at_gu \<equiv> (\<lambda>k. at_gu k + sw_gu_bytes sw)"

lemma synth_delivered:
  assumes "synth_inv sw at_gu sp m0 cfg st" and "slot_contains (s_cache st) (ExpertKey l e)" and "sw_data sw (ExpertKey l e) \<noteq> None"
  shows "delivered (synth_source sw at_gu (next_to sw at_gu)) cfg (synth_weights en_gu sw) (synth_weights en_dn sw) st l e"
proof -
  obtain d where d: "sw_data sw (ExpertKey l e) = Some d" using assms(3) by blast
  have i: "sync_inv (sw_gu_bytes sw + sw_dn_bytes sw) at_gu sp m0 st" "synth_stored sw at_gu m0" "synth_dims sw cfg"
    using assms(1) by (simp_all add: synth_inv_def)
  have l: "load_floats m0 (at_gu (ExpertKey l e)) (length (en_gu d)) = map f32_real (en_gu d)"
    "load_floats m0 (at_gu (ExpertKey l e) + sw_gu_bytes sw) (length (en_dn d)) = map f32_real (en_dn d)"
    using i(2) d by (simp_all add: synth_stored_def)
  have z: "length (en_gu d) = 2 * nat (gc_inter_dim cfg) * nat (gc_hidden_dim cfg)"
    "length (en_dn d) = nat (gc_hidden_dim cfg) * nat (gc_inter_dim cfg)"
    "sw_gu_bytes sw = 4 * length (en_gu d)" "sw_dn_bytes sw = 4 * length (en_dn d)"
    using i(3) d unfolding synth_dims_def by blast+
  have v: "ws_expert_tensors (synth_source sw at_gu (next_to sw at_gu)) l e =
      Ret [\<lparr>tv_data = at_gu (ExpertKey l e), tv_nbytes = sw_gu_bytes sw, tv_slot_offset = 0, tv_kind = GateUp\<rparr>,
           \<lparr>tv_data = at_gu (ExpertKey l e) + sw_gu_bytes sw, tv_nbytes = sw_dn_bytes sw, tv_slot_offset = sw_gu_bytes sw, tv_kind = Down\<rparr>]"
    using d by (simp add: synth_source_def synth_expert_tensors_def Let_def)
  show ?thesis
    by (rule sync_delivered [OF i(1) assms(2) v]) (use d l z in \<open>simp_all add: synth_weights_def\<close>)
qed

lemma sync_fields:
  "is_ready (sync_ops pr n src) st l e = slot_contains (s_cache st) (ExpertKey l e)" "\<not> is_inflight (sync_ops pr n src) st l e"
  "prefetch_expert (sync_ops pr n src) st l e = sync_fetch pr n src st l e" "synchronize_expert (sync_ops pr n src) st l e = (True, st)"
  by (simp_all add: sync_ops_def)

interpretation copying: expert_streams "sync_ops pr (sw_gu_bytes sw + sw_dn_bytes sw) at_gu" "synth_inv sw at_gu sp m0 cfg"
  "\<lambda>l e. sw_data sw (ExpertKey l e) \<noteq> None" "synth_source sw at_gu (next_to sw at_gu)" cfg "synth_weights en_gu sw" "synth_weights en_dn sw"
  for pr sw at_gu sp m0 cfg
proof (unfold_locales, goal_cases)
  case (1 st l e)
  then show ?case using sync_fetch_inv(1) by (simp add: synth_inv_def sync_fields)
next
  case (3 st k)
  then show ?case
    using slot_touch_ok [of _ "s_cache st" k] by (auto simp: synth_inv_def sync_inv_def filled_def slot_region_touch)
next
  case (6 st l e)
  then have "synth_inv sw at_gu sp m0 cfg (sync_fetch pr (sw_gu_bytes sw + sw_dn_bytes sw) at_gu st l e)"
    using sync_fetch_inv(1) by (simp add: synth_inv_def)
  moreover have "slot_contains (s_cache (sync_fetch pr (sw_gu_bytes sw + sw_dn_bytes sw) at_gu st l e)) (ExpertKey l e)"
    using 6(1) sync_fetch_inv(2) [of "sw_gu_bytes sw + sw_dn_bytes sw" at_gu sp m0] by (simp add: synth_inv_def)
  ultimately show ?case using 6(2) synth_delivered by (simp add: sync_fields)
qed (auto simp: sync_fields synth_delivered)

section \<open>An example: one layer with one expert\<close>

definition example_args :: BenchArgs where
  "example_args = bench_defaults\<lparr>ba_layers := 1, ba_experts := 1, ba_hidden := 1, ba_inter := 1, ba_topk := 1, ba_slots := 1, ba_max_new := 3\<rparr>"

definition example_synth :: SyntheticWeightSource where
  "example_synth = (case synth_new 1 1 1 1 of Inr sw \<Rightarrow> sw)"

definition example_host :: memory where
  "example_host = (let d = synth_entry 2 1 0 0 in store_floats (store_floats (\<lambda>_. 0) 64 (en_gu d)) 72 (en_dn d))"

definition example_bench_env :: "unit BenchEnv" where
  "example_bench_env =
     \<lparr>bv_ops = sync_ops zero_priority 12 (\<lambda>_. 64), bv_pf = (), bv_malloc = (\<lambda>_. 4096), bv_mem = example_host,
      bv_open_dir = (\<lambda>_. Inl Invalid_argument), bv_at_gu = (\<lambda>_. 64), bv_at_dn = (\<lambda>_. 72), bv_to_int = trunc, bv_to_long = trunc\<rparr>"

definition example_loaded :: Loaded where
  "example_loaded =
     \<lparr>ld_source = synth_source example_synth (\<lambda>_. 64) (\<lambda>_. 72), ld_H = 1, ld_I = 1, ld_E = 1, ld_NL = 1, ld_slot_bytes = 76\<rparr>"

definition example_bench_cache :: SlotCache where
  "example_bench_cache = (case slot_cache_new (\<lambda>_. 4096) 76 1 of Inr c \<Rightarrow> c)"

lemma example_synth_fields:
  "synth_new 1 1 1 1 = Inr example_synth" "sw_gu_bytes example_synth = 8" "sw_dn_bytes example_synth = 4"
  "sw_data example_synth k = (if k = ExpertKey 0 0 then Some (synth_entry 2 1 0 0) else None)"
  by (cases k; simp add: example_synth_def synth_new_def size_of_int_def mul64_def size_mod_def Let_def; presburger?)+

lemma example_bench_cache_fields: "slot_cache_new (\<lambda>_. 4096) 76 1 = Inr example_bench_cache" "slot_ok 12 example_bench_cache"
  "slot_space example_bench_cache = (4096, 76)" "sc_cached example_bench_cache = []"
proof -
  show "slot_cache_new (\<lambda>_. 4096) 76 1 = Inr example_bench_cache" 
    by (simp add: example_bench_cache_def slot_cache_new_def Let_def)
  from slot_cache_new_ok [OF this] show "slot_ok 12 example_bench_cache" "sc_cached example_bench_cache = []"
    by (simp_all add: slot_ok_def size_mod_def)
  show "slot_space example_bench_cache = (4096, 76)"
    by (simp add: example_bench_cache_def slot_cache_new_def Let_def slot_space_def)
qed

lemma example_stored: "synth_stored example_synth (\<lambda>_. 64) example_host"
proof -
  define gu dn where "gu = en_gu (synth_entry 2 1 0 0)" and "dn = en_dn (synth_entry 2 1 0 0)"
  have len: "length gu = 2" "length dn = 1" by (simp_all add: gu_def dn_def synth_entry_def)
  define m1 where "m1 = store_floats (\<lambda>_. 0) 64 gu"
  have m: "example_host = store_floats m1 72 dn" by (simp add: example_host_def m1_def gu_def dn_def Let_def)
  have "load_floats example_host 64 2 = load_floats m1 64 2"
    unfolding m by (rule load_floats_cong) (simp add: store_floats_def len)
  also have "\<dots> = map f32_real gu" using load_store_floats [of "\<lambda>_. 0" 64 gu] len unfolding m1_def by simp
  finally have g: "load_floats example_host 64 (length gu) = map f32_real gu" using len by simp
  have "load_floats example_host 72 (length dn) = map f32_real dn" unfolding m by (rule load_store_floats)
  then show ?thesis using g by (simp add: synth_stored_def example_synth_fields gu_def dn_def)
qed

lemma example_dims: "synth_dims example_synth (bench_config example_loaded example_args)"
  by (simp add: synth_dims_def example_synth_fields synth_entry_def bench_config_def example_loaded_def)

definition example_streams :: "unit Streams" where
  "example_streams = \<lparr>s_pf = (), s_cache = example_bench_cache, s_mem = example_host\<rparr>"

lemma example_inv:
  "synth_inv example_synth (\<lambda>_. 64) (4096, 76) example_host (bench_config example_loaded example_args) example_streams"
proof -
  have "filled slot_region (\<lambda>_. 64) 12 (example_bench_cache, example_host)"
    by (simp add: filled_def slot_region_def find_cached_def example_bench_cache_fields)
  then show ?thesis
    using example_stored example_dims
    by (simp add: synth_inv_def sync_inv_def example_streams_def example_bench_cache_fields example_synth_fields span_def)
qed

section \<open>The driver's model names existing experts\<close>

lemma routed_ids: "es \<in> set (routed md ml x cfg) \<Longrightarrow> length (fst (md_route md ml x (nat (gc_hidden_dim cfg)) (nat (gc_topk cfg)))) = nat (gc_topk cfg) \<Longrightarrow>
    fst es \<in> set (fst (md_route md ml x (nat (gc_hidden_dim cfg)) (nat (gc_topk cfg))))"
  by (cases "md_route md ml x (nat (gc_hidden_dim cfg)) (nat (gc_topk cfg))") (auto simp: routed_def)

lemma bench_names_valid:
  assumes "0 < ld_E ld" and "ws_layer_index (ld_source ld) = (\<lambda>pos. pos)"
    and "\<And>l e. 0 \<le> l \<Longrightarrow> l < ld_NL ld \<Longrightarrow> 0 \<le> e \<Longrightarrow> e < ld_E ld \<Longrightarrow> valid l e"
  shows "names_valid (bench_model to_int to_long ld a) (bench_config ld a) valid"
  unfolding names_valid_def Let_def
proof (intro ballI allI conjI)
  fix layer x assume l: "layer \<in> {0 ..< gc_num_layers (bench_config ld a)}"
  let ?md = "bench_model to_int to_long ld a" and ?cfg = "bench_config ld a"
  have ml: "ws_layer_index (md_weights ?md) layer = layer" using assms(2) by (simp add: bench_model_def)
  have nl: "0 \<le> layer" "layer < ld_NL ld" using l by (simp_all add: bench_config_def)
  show "valid (ws_layer_index (md_weights ?md) layer) e"
    if "e \<in> set (md_predict ?md (ws_layer_index (md_weights ?md) layer) x (nat (gc_hidden_dim ?cfg)) (nat (gc_topk ?cfg)))" for e
    using that token_predict_range [OF assms(1) nl(1)] assms(3) [OF nl] unfolding ml by (auto simp: bench_model_def)
  show "valid (ws_layer_index (md_weights ?md) layer) (fst es)"
    if "es \<in> set (routed ?md (ws_layer_index (md_weights ?md) layer) x ?cfg)" for es
    using routed_ids [OF that] token_route_range [OF assms(1) nl(1)] assms(3) [OF nl] unfolding ml
    by (auto simp: bench_model_def token_route_def)
qed

abbreviation "example_md \<equiv> bench_model trunc trunc example_loaded example_args"

definition example_generator :: "(unit, nat) Generator" where
  "example_generator = \<lparr>g_cfg = bench_config example_loaded example_args, g_streams = example_streams, g_embedder = 0,
     g_hits = 0, g_misses = 0, g_reactive = 0, g_predictions = 0\<rparr>"

text \<open>The contract and its preconditions hold for the example.\<close>

lemma example_contract:
  "expert_streams (sync_ops zero_priority 12 (\<lambda>_. 64)) (synth_inv example_synth (\<lambda>_. 64) (4096, 76) example_host (g_cfg example_generator))
     (\<lambda>l e. sw_data example_synth (ExpertKey l e) \<noteq> None) (md_weights example_md) (g_cfg example_generator)
     (synth_weights en_gu example_synth) (synth_weights en_dn example_synth)"
  using copying.expert_streams_axioms [of zero_priority example_synth "\<lambda>_. 64" "(4096, 76)" example_host "g_cfg example_generator"]
  by (simp add: example_synth_fields bench_model_def example_loaded_def)

lemma example_pre:
  "synth_inv example_synth (\<lambda>_. 64) (4096, 76) example_host (g_cfg example_generator) (g_streams example_generator)"
  "names_valid example_md (g_cfg example_generator) (\<lambda>l e. sw_data example_synth (ExpertKey l e) \<noteq> None)"
proof -
  show "synth_inv example_synth (\<lambda>_. 64) (4096, 76) example_host (g_cfg example_generator) (g_streams example_generator)"
    using example_inv by (simp add: example_generator_def)
  show "names_valid example_md (g_cfg example_generator) (\<lambda>l e. sw_data example_synth (ExpertKey l e) \<noteq> None)"
    unfolding example_generator_def
    by (simp, rule bench_names_valid) (simp_all add: example_loaded_def example_synth_fields synth_source_def)
qed

section \<open>Properties of the generation loop\<close>

lemma ref_generate_shape:
  assumes "prmpt \<noteq> []" and "0 < n"
  shows "ref_generate md cfg gu dn emb prmpt n \<noteq> []" "length (ref_generate md cfg gu dn emb prmpt n) \<le> nat n"
    "gc_eos_token cfg \<notin> set (butlast (ref_generate md cfg gu dn emb prmpt n))"
    "length (ref_generate md cfg gu dn emb prmpt n) < nat n \<Longrightarrow> last (ref_generate md cfg gu dn emb prmpt n) = gc_eos_token cfg"
proof -
  obtain x e where "ref_prefill md cfg gu dn emb (replicate (nat (gc_hidden_dim cfg)) 0) prmpt = (x, e)" by fastforce
  then have r: "ref_generate md cfg gu dn emb prmpt n = ref_decode md cfg gu dn (nat n) e x"
    using assms by (simp add: ref_generate_def)
  note s = ref_decode_shape [of md cfg gu dn "nat n" e x]
  show "ref_generate md cfg gu dn emb prmpt n \<noteq> []" using s assms(2) unfolding r by fastforce
  show "length (ref_generate md cfg gu dn emb prmpt n) \<le> nat n"
    "gc_eos_token cfg \<notin> set (butlast (ref_generate md cfg gu dn emb prmpt n))"
    "length (ref_generate md cfg gu dn emb prmpt n) < nat n \<Longrightarrow> last (ref_generate md cfg gu dn emb prmpt n) = gc_eos_token cfg"
    using s unfolding r by simp_all
qed

text \<open>
  C1: streaming is transparent. Whatever the cache holds, whatever the oracle predicted and however the
  prefetcher orders its copies within its contract, the generator returns, and the tokens are those of the
  network evaluated directly on the weights.
\<close>

theorem generation_equals_reference:
  assumes "expert_streams ops I valid (md_weights md) (g_cfg g) gu dn" and "I (g_streams g)"
    and "names_valid md (g_cfg g) valid"
  shows "\<exists>g'. gen_generate ops md g prmpt n = Ret (g', ref_generate md (g_cfg g) gu dn (g_embedder g) prmpt n)"
  using expert_streams.generate_ok [OF assms refl refl] by blast

theorem generation_equals_reference_witness:
  "\<exists>g'. gen_generate (sync_ops zero_priority 12 (\<lambda>_. 64)) example_md example_generator [1] 3 =
     Ret (g', ref_generate example_md (g_cfg example_generator) (synth_weights en_gu example_synth) (synth_weights en_dn example_synth) 0 [1] 3)"
  using generation_equals_reference [OF example_contract example_pre, of "[1]" 3] by (simp add: example_generator_def)



text \<open>
  The counters account for the work. With \<open>fed\<close> tokens run through the network (the prompt and every generated token
  but the end token), the oracle was consulted once per layer of each, hits and misses add up to
  the experts evaluated, and every reactive prefetch is a miss.
\<close>

theorem generation_counters:
  assumes "expert_streams ops I valid (md_weights md) (g_cfg g) gu dn" and "I (g_streams g)"
    and "names_valid md (g_cfg g) valid" and "prmpt \<noteq> []" and "0 < n"
  shows "\<exists>g' out fed. gen_generate ops md g prmpt n = Ret (g', out) \<and>
    fed = length prmpt + length (filter (\<lambda>t. t \<noteq> gc_eos_token (g_cfg g)) out) \<and>
    g_predictions g' = g_predictions g + fed * nat (gc_num_layers (g_cfg g)) \<and>
    g_hits g' + g_misses g' = g_hits g + g_misses g + fed * (nat (gc_num_layers (g_cfg g)) * nat (gc_topk (g_cfg g))) \<and>
    g_reactive g' + g_misses g \<le> g_reactive g + g_misses g'"
  using expert_streams.generate_ok [OF assms(1-3) refl refl, of prmpt n]
    ref_generate_shape(1) [OF assms(4,5), where md = md and cfg = "g_cfg g" and gu = gu and dn = dn and emb = "g_embedder g"]
  by (auto simp: progress_def Let_def)

theorem generation_counters_witness:
  "\<exists>g' out. gen_generate (sync_ops zero_priority 12 (\<lambda>_. 64)) example_md example_generator [1] 3 = Ret (g', out) \<and>
     g_hits g' + g_misses g' = 1 + length (filter (\<lambda>t. t \<noteq> - 1) out) \<and> g_reactive g' \<le> g_misses g'"
  using generation_counters [OF example_contract example_pre, of "[1]" 3]
  by (auto simp: example_generator_def bench_config_def example_args_def bench_defaults_def example_loaded_def)

section \<open>Properties of the driver\<close>

lemma bench_flag_values:
  "bench_flag ''--layers'' = Some (\<lambda>n a. a\<lparr>ba_layers := n\<rparr>)" "bench_flag ''--experts'' = Some (\<lambda>n a. a\<lparr>ba_experts := n\<rparr>)"
  "bench_flag ''--hidden'' = Some (\<lambda>n a. a\<lparr>ba_hidden := n\<rparr>)" "bench_flag ''--inter'' = Some (\<lambda>n a. a\<lparr>ba_inter := n\<rparr>)"
  "bench_flag ''--topk'' = Some (\<lambda>n a. a\<lparr>ba_topk := n\<rparr>)" "bench_flag ''--slots'' = Some (\<lambda>n a. a\<lparr>ba_slots := n\<rparr>)"
  "bench_flag ''--prompt'' = Some (\<lambda>n a. a\<lparr>ba_prompt := n\<rparr>)" "bench_flag ''--max-new'' = Some (\<lambda>n a. a\<lparr>ba_max_new := n\<rparr>)"
  "bench_flag ''--eos'' = Some (\<lambda>n a. a\<lparr>ba_eos := n\<rparr>)" "bench_flag ''--vocab'' = Some (\<lambda>n a. a\<lparr>ba_vocab := n\<rparr>)"
  by (simp_all add: bench_flag_def)

definition bench_line :: "BenchArgs \<Rightarrow> string list" where
  "bench_line a = concat (map (\<lambda>(f, v). [f, show_int v])
     [(''--layers'', ba_layers a), (''--experts'', ba_experts a), (''--hidden'', ba_hidden a), (''--inter'', ba_inter a),
      (''--topk'', ba_topk a), (''--slots'', ba_slots a), (''--prompt'', ba_prompt a), (''--max-new'', ba_max_new a),
      (''--eos'', ba_eos a), (''--vocab'', ba_vocab a)]) @ [''--weights-dir'', ba_weights_dir a]"

lemma bench_parse_append:
  assumes "\<forall>(f, v) \<in> set settings. bench_flag f \<noteq> None \<and> is_int32 v"
  shows "bench_parse a (concat (map (\<lambda>(f, v). [f, show_int v]) settings) @ rest) =
    bench_parse (foldl (\<lambda>a (f, v). the (bench_flag f) v a) a settings) rest"
  using assms
proof (induction settings arbitrary: a)
  case (Cons s settings)
  obtain f v where s: "s = (f, v)" by fastforce
  then obtain upd where "bench_flag f = Some upd" "is_int32 v" using Cons.prems by auto
  then show ?case using Cons.IH [of "upd v a"] Cons.prems s by (simp add: atoi_show)
qed simp

definition bench_ints :: "BenchArgs \<Rightarrow> int list" where
  "bench_ints a = [ba_layers a, ba_experts a, ba_hidden a, ba_inter a, ba_topk a, ba_slots a, ba_prompt a, ba_max_new a, ba_eos a, ba_vocab a]"

lemma bench_parse_line: "list_all is_int32 (bench_ints a) \<Longrightarrow> bench_parse b (bench_line a) = Ret (Some a)"
proof -
  assume a: "list_all is_int32 (bench_ints a)"
  have "bench_flag ''--weights-dir'' = None" by (simp add: bench_flag_def)
  then show ?thesis
    using a unfolding bench_line_def
    by (subst bench_parse_append) (simp_all add: bench_ints_def bench_flag_values)
qed

text \<open>
  The command line of the benchmark sets what it says: printing every field of a configuration behind its flag and
  parsing the line restores the configuration, from whatever values were set before.
\<close>

theorem bench_line_roundtrip:
  assumes "list_all is_int32 (bench_ints a)"
  shows "bench_parse b (bench_line a) = Ret (Some a)"
  using assms by (rule bench_parse_line)

theorem bench_line_roundtrip_witness: "bench_parse bench_defaults (bench_line example_args) = Ret (Some example_args)"
  by (rule bench_line_roundtrip) (simp add: bench_ints_def example_args_def bench_defaults_def is_int32_def)

lemma ref_decode_sampled: "t \<in> set (ref_decode md cfg gu dn n emb x) \<Longrightarrow> \<exists>y. t = md_sample md y (nat (gc_hidden_dim cfg))"
  by (induction n arbitrary: emb x) (auto simp: Let_def split: if_splits prod.splits, metis)

lemma ref_generate_sampled: "t \<in> set (ref_generate md cfg gu dn emb prmpt n) \<Longrightarrow> \<exists>y. t = md_sample md y (nat (gc_hidden_dim cfg))"
  by (auto simp: ref_generate_def ref_decode_sampled split: if_splits prod.splits)

lemma bench_run_complete:
  assumes parse: "bench_parse bench_defaults args = Ret (Some a)" and max_new: "0 < ba_max_new a" "is_int32 (ba_max_new a)"
    and vocab: "0 < ba_vocab a" "is_int32 (ba_vocab a)" "ba_eos a < 0 \<or> ba_vocab a \<le> ba_eos a"
    and dims: "0 < ba_experts a" "0 < ba_hidden a" "0 < ba_inter a" "0 < ba_topk a" and dir: "ba_weights_dir a = []"
    and load: "load_weights (bv_open_dir env) (bv_at_gu env) (bv_at_dn env) a = Ret (Some ld)"
    and cache: "slot_cache_new (bv_malloc env) (ld_slot_bytes ld) (ba_slots a) = Inr c"
    and streams: "expert_streams (bv_ops env) I valid (ld_source ld) (bench_config ld a) gu dn"
      "I \<lparr>s_pf = bv_pf env, s_cache = c, s_mem = bv_mem env\<rparr>"
    and exist: "\<And>l e. 0 \<le> l \<Longrightarrow> l < ba_layers a \<Longrightarrow> 0 \<le> e \<Longrightarrow> e < ba_experts a \<Longrightarrow> valid l e"
  shows "\<exists>r. bench_main env args = Ret (0, Some r) \<and> br_tokens r = ba_max_new a \<and> set (br_first r) \<subseteq> {0 ..< ba_vocab a} \<and>
    br_oracle_calls r = (nat (ba_max_new a) + 1) * nat (ba_layers a) \<and>
    br_hits r + br_misses r = (nat (ba_max_new a) + 1) * (nat (ba_layers a) * nat (ba_topk a)) \<and> br_reactive r \<le> br_misses r"
proof -
  let ?md = "bench_model (bv_to_int env) (bv_to_long env) ld a" and ?cfg = "bench_config ld a"
  have ld: "ld_H ld = ba_hidden a" "ld_I ld = ba_inter a" "ld_E ld = ba_experts a" "ld_NL ld = ba_layers a"
    "ws_layer_index (ld_source ld) = (\<lambda>pos. pos)"
    using load dir by (auto simp: load_weights_def ret_iff Let_def synth_source_def)
  define g :: "('a, nat) Generator" where
    "g = \<lparr>g_cfg = ?cfg, g_streams = \<lparr>s_pf = bv_pf env, s_cache = c, s_mem = bv_mem env\<rparr>, g_embedder = 0,
      g_hits = 0, g_misses = 0, g_reactive = 0, g_predictions = 0\<rparr>"
  have new: "generator_new (g_streams g) 0 ?cfg = Inr g"
    using dims ld by (simp add: generator_new_def g_def bench_config_def)
  have nv: "names_valid ?md ?cfg valid" using bench_names_valid [of ld valid] dims(1) ld exist by simp
  define out where "out = ref_generate ?md ?cfg gu dn 0 [ba_prompt a] (ba_max_new a)"
  have voc: "t \<in> {0 ..< ba_vocab a}" if "t \<in> set out" for t
    using ref_generate_sampled [OF that [unfolded out_def]] argmax_sample_range [OF vocab(1,2)] by (auto simp: bench_model_def)
  then have noeos: "ba_eos a \<notin> set out" using vocab(3) by force
  have len: "length out = nat (ba_max_new a)"
  proof (rule ccontr)
    assume "length out \<noteq> nat (ba_max_new a)"
    then have "last out = ba_eos a" "out \<noteq> []"
      using ref_generate_shape [of "[ba_prompt a]" "ba_max_new a", where md = ?md and cfg = ?cfg and gu = gu and dn = dn and emb = 0] max_new(1)
      unfolding out_def by (simp_all add: bench_config_def)
    then show False using noeos by (metis last_in_set)
  qed
  have fil: "filter (\<lambda>t. t \<noteq> ba_eos a) out = out" using noeos by (auto simp: filter_id_conv)
  have ne: "out \<noteq> []" using len max_new(1) by auto
  obtain g' where g': "gen_generate (bv_ops env) ?md g [ba_prompt a] (ba_max_new a) = Ret (g', out)"
    "progress ((1 + length out) * (nat (ba_layers a) * nat (ba_topk a))) ((1 + length out) * nat (ba_layers a)) g g'"
    using expert_streams.generate_ok [OF streams(1), of g ?md "[ba_prompt a]" "ba_max_new a"] streams(2) nv ne fil ld
    by (auto simp: g_def bench_model_def out_def Let_def bench_config_def)
  show ?thesis
    using g' parse max_new load cache new len voc set_take_subset [of 12 out]
    by (auto simp: bench_main_def bench_run_def of_exn_def g_def progress_def to_int32_id)
qed


lemma example_bench_facts:
  shows "bench_parse bench_defaults (bench_line example_args) = Ret (Some example_args)"
    and "load_weights (bv_open_dir example_bench_env) (bv_at_gu example_bench_env) (bv_at_dn example_bench_env) example_args = Ret (Some example_loaded)"
    and "slot_cache_new (bv_malloc example_bench_env) (ld_slot_bytes example_loaded) (ba_slots example_args) = Inr example_bench_cache"
    and "expert_streams (bv_ops example_bench_env) (synth_inv example_synth (\<lambda>_. 64) (4096, 76) example_host (bench_config example_loaded example_args))
      (\<lambda>l e. sw_data example_synth (ExpertKey l e) \<noteq> None) (ld_source example_loaded) (bench_config example_loaded example_args)
      (synth_weights en_gu example_synth) (synth_weights en_dn example_synth)"
    and "synth_inv example_synth (\<lambda>_. 64) (4096, 76) example_host (bench_config example_loaded example_args)
      \<lparr>s_pf = bv_pf example_bench_env, s_cache = example_bench_cache, s_mem = bv_mem example_bench_env\<rparr>"
proof -
  show "bench_parse bench_defaults (bench_line example_args) = Ret (Some example_args)"
    by (rule bench_parse_line) (simp add: bench_ints_def example_args_def bench_defaults_def is_int32_def)
  show "load_weights (bv_open_dir example_bench_env) (bv_at_gu example_bench_env) (bv_at_dn example_bench_env) example_args = Ret (Some example_loaded)"
    by (simp add: load_weights_def example_args_def bench_defaults_def example_synth_fields of_exn_def example_loaded_def example_bench_env_def
      size_of_int_def mul64_def add64_def size_mod_def)
  show "slot_cache_new (bv_malloc example_bench_env) (ld_slot_bytes example_loaded) (ba_slots example_args) = Inr example_bench_cache"
    using example_bench_cache_fields(1) by (simp add: example_bench_env_def example_loaded_def example_args_def)
  show "expert_streams (bv_ops example_bench_env) (synth_inv example_synth (\<lambda>_. 64) (4096, 76) example_host (bench_config example_loaded example_args))
      (\<lambda>l e. sw_data example_synth (ExpertKey l e) \<noteq> None) (ld_source example_loaded) (bench_config example_loaded example_args)
      (synth_weights en_gu example_synth) (synth_weights en_dn example_synth)"
    using example_contract by (simp add: example_bench_env_def example_generator_def bench_model_def)
  show "synth_inv example_synth (\<lambda>_. 64) (4096, 76) example_host (bench_config example_loaded example_args)
      \<lparr>s_pf = bv_pf example_bench_env, s_cache = example_bench_cache, s_mem = bv_mem example_bench_env\<rparr>"
    using example_inv by (simp add: example_bench_env_def example_streams_def)
qed


end
