(* ===== verification/CudaDevice.thy ===== *)
theory CudaDevice
  imports Prelude
begin

text \<open>
  The device interface of \<^verbatim>\<open>include/dee/cuda_device.h\<close> as the default build implements it, in
  \<^verbatim>\<open>src/cuda_backend_mock.cpp\<close>: streams are queues of pending copies with increasing numbers, an
  event remembers the number its stream had reached. Streams and events are heap objects; the
  device maps their addresses to them, and using a destroyed or foreign address, which is undefined
  in the code, is \<open>None\<close>. The allocator behind \<^verbatim>\<open>new\<close> is a parameter.
\<close>

section \<open>State\<close>

record MockCopy =
  mc_dst :: nat
  mc_src :: nat
  mc_bytes :: nat
  mc_seq :: nat

record MockStream =
  ms_pending :: "MockCopy list"
  ms_next_seq :: nat

record MockEvent =
  me_stream :: "nat option"
  me_watermark :: nat

record MockCudaDevice =
  d_allocs :: "(nat \<times> nat) list"
  d_streams :: "nat \<rightharpoonup> MockStream"
  d_events :: "nat \<rightharpoonup> MockEvent"

definition device_new :: MockCudaDevice where
  "device_new = \<lparr>d_allocs = [], d_streams = Map.empty, d_events = Map.empty\<rparr>"

section \<open>Operations\<close>

definition device_malloc :: "(nat \<Rightarrow> nat) \<Rightarrow> MockCudaDevice \<Rightarrow> nat \<Rightarrow> nat \<times> MockCudaDevice" where
  "device_malloc new_bytes d bytes =
     (let p = new_bytes (if bytes \<noteq> 0 then bytes else 1)
      in if p = nullptr then (nullptr, d) else (p, d\<lparr>d_allocs := AList.update p bytes (d_allocs d)\<rparr>))"

definition device_free :: "MockCudaDevice \<Rightarrow> nat \<Rightarrow> MockCudaDevice" where
  "device_free d ptr = d\<lparr>d_allocs := AList.delete ptr (d_allocs d)\<rparr>"

definition device_destroy :: "MockCudaDevice \<Rightarrow> nat list \<times> MockCudaDevice" where
  "device_destroy d = (map fst (d_allocs d), d\<lparr>d_allocs := []\<rparr>)"

text \<open>\<open>p\<close> is the fresh address that \<^verbatim>\<open>new\<close> returns.\<close>

definition stream_create :: "MockCudaDevice \<Rightarrow> nat \<Rightarrow> MockCudaDevice" where
  "stream_create d p = d\<lparr>d_streams := (d_streams d)(p \<mapsto> \<lparr>ms_pending = [], ms_next_seq = 0\<rparr>)\<rparr>"

definition destroy_stream :: "MockCudaDevice \<Rightarrow> nat \<Rightarrow> MockCudaDevice" where
  "destroy_stream d s = d\<lparr>d_streams := (d_streams d)(s := None)\<rparr>"

definition event_create :: "MockCudaDevice \<Rightarrow> nat \<Rightarrow> MockCudaDevice" where
  "event_create d p = d\<lparr>d_events := (d_events d)(p \<mapsto> \<lparr>me_stream = None, me_watermark = 0\<rparr>)\<rparr>"

definition destroy_event :: "MockCudaDevice \<Rightarrow> nat \<Rightarrow> MockCudaDevice" where
  "destroy_event d e = d\<lparr>d_events := (d_events d)(e := None)\<rparr>"

definition event_record :: "MockCudaDevice \<Rightarrow> nat \<Rightarrow> nat \<Rightarrow> MockCudaDevice option" where
  "event_record d e s =
     (case (d_events d e, d_streams d s) of
        (Some ev, Some st) \<Rightarrow>
          Some (d\<lparr>d_events := (d_events d)(e \<mapsto> ev\<lparr>me_stream := Some s, me_watermark := ms_next_seq st\<rparr>)\<rparr>)
      | _ \<Rightarrow> None)"

definition run_copy :: "memory \<Rightarrow> MockCopy \<Rightarrow> memory" where
  "run_copy m c = memcpy m (mc_dst c) (mc_src c) (mc_bytes c)"

fun drain_below :: "nat \<Rightarrow> memory \<Rightarrow> MockCopy list \<Rightarrow> memory \<times> MockCopy list" where
  "drain_below w m [] = (m, [])"
| "drain_below w m (c # q) = (if mc_seq c < w then drain_below w (run_copy m c) q else (m, c # q))"

definition event_synchronize :: "memory \<Rightarrow> MockCudaDevice \<Rightarrow> nat \<Rightarrow> (memory \<times> MockCudaDevice) option" where
  "event_synchronize m d e =
     (case d_events d e of
        None \<Rightarrow> None
      | Some ev \<Rightarrow>
          (case me_stream ev of
             None \<Rightarrow> Some (m, d)
           | Some s \<Rightarrow>
               (case d_streams d s of
                  None \<Rightarrow> None
                | Some st \<Rightarrow>
                    (case drain_below (me_watermark ev) m (ms_pending st) of (m', q) \<Rightarrow>
                       Some (m', d\<lparr>d_streams := (d_streams d)(s \<mapsto> st\<lparr>ms_pending := q\<rparr>)\<rparr>)))))"

definition memcpy_h2d_async :: "MockCudaDevice \<Rightarrow> nat \<Rightarrow> nat \<Rightarrow> nat \<Rightarrow> nat \<Rightarrow> MockCudaDevice option" where
  "memcpy_h2d_async d dst src bytes s =
     (case d_streams d s of
        None \<Rightarrow> None
      | Some st \<Rightarrow>
          Some (d\<lparr>d_streams := (d_streams d)(s \<mapsto>
            \<lparr>ms_pending = ms_pending st @ [\<lparr>mc_dst = dst, mc_src = src, mc_bytes = bytes, mc_seq = ms_next_seq st\<rparr>],
             ms_next_seq = Suc (ms_next_seq st)\<rparr>)\<rparr>))"

definition memcpy_d2h_sync :: "memory \<Rightarrow> nat \<Rightarrow> nat \<Rightarrow> nat \<Rightarrow> memory" where
  "memcpy_d2h_sync m dst src bytes = memcpy m dst src bytes"

definition stream_synchronize :: "memory \<Rightarrow> MockCudaDevice \<Rightarrow> nat \<Rightarrow> (memory \<times> MockCudaDevice) option" where
  "stream_synchronize m d s =
     (case d_streams d s of
        None \<Rightarrow> None
      | Some st \<Rightarrow>
          Some (foldl run_copy m (ms_pending st), d\<lparr>d_streams := (d_streams d)(s \<mapsto> st\<lparr>ms_pending := []\<rparr>)\<rparr>))"

definition backend_name :: string where
  "backend_name = ''mock''"

section \<open>Streams\<close>

definition stream_ok :: "MockStream \<Rightarrow> bool" where
  "stream_ok st \<longleftrightarrow> sorted_wrt (<) (map mc_seq (ms_pending st)) \<and> (\<forall>c \<in> set (ms_pending st). mc_seq c < ms_next_seq st)"

definition device_ok :: "MockCudaDevice \<Rightarrow> bool" where
  "device_ok d \<longleftrightarrow> (\<forall>s st. d_streams d s = Some st \<longrightarrow> stream_ok st)"

lemma drain_below_eq:
  "sorted_wrt (<) (map mc_seq q) \<Longrightarrow>
     drain_below w m q = (foldl run_copy m (filter (\<lambda>c. mc_seq c < w) q), filter (\<lambda>c. w \<le> mc_seq c) q)"
proof (induction q arbitrary: m)
  case Nil
  then show ?case by simp
next
  case (Cons c q)
  show ?case
  proof (cases "mc_seq c < w")
    case True
    then show ?thesis using Cons by simp
  next
    case False
    then have "\<forall>x \<in> set q. w \<le> mc_seq x" using Cons.prems by fastforce
    then have "filter (\<lambda>c. mc_seq c < w) q = []" "filter (\<lambda>c. w \<le> mc_seq c) q = q"
      by (simp_all add: filter_empty_conv filter_id_conv not_less)
    then show ?thesis using False by simp
  qed
qed

lemma run_copies_outside:
  "\<forall>c \<in> set q. x \<notin> span (mc_dst c) (mc_bytes c) \<Longrightarrow> foldl run_copy m q x = m x"
  by (induction q arbitrary: m) (simp_all add: run_copy_def memcpy_outside del: mem_span)

text \<open>The life of a device: every call of the interface on live objects.\<close>

inductive device_step :: "MockCudaDevice \<Rightarrow> MockCudaDevice \<Rightarrow> bool" where
  malloc: "device_step d (snd (device_malloc new_bytes d bytes))"
| free: "device_step d (device_free d p)"
| new_stream: "d_streams d p = None \<Longrightarrow> device_step d (stream_create d p)"
| drop_stream: "device_step d (destroy_stream d s)"
| new_event: "device_step d (event_create d p)"
| drop_event: "device_step d (destroy_event d e)"
| record_event: "event_record d e s = Some d' \<Longrightarrow> device_step d d'"
| sync_event: "event_synchronize m d e = Some (m', d') \<Longrightarrow> device_step d d'"
| copy: "memcpy_h2d_async d dst src n s = Some d' \<Longrightarrow> device_step d d'"
| sync_stream: "stream_synchronize m d s = Some (m', d') \<Longrightarrow> device_step d d'"

lemma stream_ok_filter:
  "stream_ok st \<Longrightarrow> stream_ok (st\<lparr>ms_pending := filter P (ms_pending st)\<rparr>)"
  by (auto simp: stream_ok_def sorted_wrt_map sorted_wrt_filter)

lemma device_step_ok: "device_step d d' \<Longrightarrow> device_ok d \<Longrightarrow> device_ok d'"
proof (induction rule: device_step.induct)
  case (sync_event m d e m' d')
  then obtain ev where ev: "d_events d e = Some ev" by (auto simp: event_synchronize_def split: option.splits)
  show ?case
  proof (cases "me_stream ev")
    case None
    then show ?thesis using sync_event ev by (simp add: event_synchronize_def)
  next
    case (Some s)
    then obtain st where st: "d_streams d s = Some st"
      using sync_event(1) ev by (auto simp: event_synchronize_def split: option.splits)
    then have ok: "stream_ok st" using sync_event(2) by (auto simp: device_ok_def)
    then have "d' = d\<lparr>d_streams := (d_streams d)(s \<mapsto> st\<lparr>ms_pending := filter (\<lambda>c. me_watermark ev \<le> mc_seq c) (ms_pending st)\<rparr>)\<rparr>"
      using sync_event(1) ev Some st drain_below_eq [of "ms_pending st"] by (simp add: event_synchronize_def stream_ok_def)
    then show ?thesis using stream_ok_filter [OF ok] sync_event(2) by (auto simp: device_ok_def)
  qed
next
  case (copy d dst src n s d')
  then obtain st where st: "d_streams d s = Some st" "stream_ok st"
    by (auto simp: memcpy_h2d_async_def device_ok_def split: option.splits)
  then have "stream_ok \<lparr>ms_pending = ms_pending st @ [\<lparr>mc_dst = dst, mc_src = src, mc_bytes = n, mc_seq = ms_next_seq st\<rparr>],
      ms_next_seq = Suc (ms_next_seq st)\<rparr>"
    by (auto simp: stream_ok_def sorted_wrt_append less_Suc_eq)
  then show ?case using copy st by (auto simp: memcpy_h2d_async_def device_ok_def split: if_splits)
qed (auto simp: device_malloc_def device_free_def stream_create_def destroy_stream_def event_create_def destroy_event_def
      event_record_def stream_synchronize_def device_ok_def stream_ok_def Let_def split: option.splits)

inductive device_reachable :: "MockCudaDevice \<Rightarrow> bool" where
  start: "device_reachable device_new"
| step: "device_reachable d \<Longrightarrow> device_step d d' \<Longrightarrow> device_reachable d'"

lemma device_reachable_ok: "device_reachable d \<Longrightarrow> device_ok d"
proof (induction rule: device_reachable.induct)
  case start
  then show ?case by (simp add: device_new_def device_ok_def)
next
  case (step d d')
  then show ?case using device_step_ok by blast
qed

lemma event_synchronize_eq:
  assumes "device_ok d" and "d_events d e = Some ev" and "me_stream ev = Some s" and "d_streams d s = Some st"
  shows "event_synchronize m d e = Some (foldl run_copy m (filter (\<lambda>c. mc_seq c < me_watermark ev) (ms_pending st)),
    d\<lparr>d_streams := (d_streams d)(s \<mapsto> st\<lparr>ms_pending := filter (\<lambda>c. me_watermark ev \<le> mc_seq c) (ms_pending st)\<rparr>)\<rparr>)"
  using assms drain_below_eq [of "ms_pending st"] by (auto simp: event_synchronize_def device_ok_def stream_ok_def)

text \<open>A client that queues further copies \<open>(dst, src, bytes)\<close> on a stream.\<close>

fun enqueue_all :: "(nat \<times> nat \<times> nat) list \<Rightarrow> nat \<Rightarrow> MockCudaDevice \<Rightarrow> MockCudaDevice option" where
  "enqueue_all [] s d = Some d"
| "enqueue_all ((dst, src, n) # cs) s d =
     (case memcpy_h2d_async d dst src n s of None \<Rightarrow> None | Some d' \<Rightarrow> enqueue_all cs s d')"

lemma enqueue_all_eq:
  assumes "d_streams d s = Some st" and "enqueue_all cs s d = Some d'"
  shows "d_events d' = d_events d \<and> (device_ok d \<longrightarrow> device_ok d') \<and>
    (\<exists>st' q. d_streams d' s = Some st' \<and> ms_pending st' = ms_pending st @ q \<and>
       map (\<lambda>c. (mc_dst c, mc_src c, mc_bytes c)) q = cs \<and> (\<forall>c \<in> set q. ms_next_seq st \<le> mc_seq c))"
  using assms
proof (induction cs s d arbitrary: st rule: enqueue_all.induct)
  case (1 s d)
  then show ?case by simp
next
  case (2 dst src n cs s d)
  let ?c = "\<lparr>mc_dst = dst, mc_src = src, mc_bytes = n, mc_seq = ms_next_seq st\<rparr>"
  let ?st = "\<lparr>ms_pending = ms_pending st @ [?c], ms_next_seq = Suc (ms_next_seq st)\<rparr>"
  let ?d = "d\<lparr>d_streams := (d_streams d)(s \<mapsto> ?st)\<rparr>"
  have d1: "memcpy_h2d_async d dst src n s = Some ?d" using "2.prems" by (simp add: memcpy_h2d_async_def)
  have "d_streams ?d s = Some ?st" "enqueue_all cs s ?d = Some d'" using "2.prems" d1 by simp_all
  from "2.IH" [OF d1 this] obtain st' q where q: "d_events d' = d_events d" "device_ok ?d \<longrightarrow> device_ok d'"
    "d_streams d' s = Some st'" "ms_pending st' = (ms_pending st @ [?c]) @ q"
    "map (\<lambda>c. (mc_dst c, mc_src c, mc_bytes c)) q = cs" "\<forall>c \<in> set q. Suc (ms_next_seq st) \<le> mc_seq c"
    by auto
  have "device_ok d \<longrightarrow> device_ok d'" using q(2) device_step_ok [OF device_step.copy [OF d1]] by blast
  moreover have "ms_pending st' = ms_pending st @ (?c # q)" using q(4) by simp
  moreover have "map (\<lambda>c. (mc_dst c, mc_src c, mc_bytes c)) (?c # q) = (dst, src, n) # cs" using q(5) by simp
  moreover have "\<forall>c \<in> set (?c # q). ms_next_seq st \<le> mc_seq c" using q(6) by (auto simp: Suc_le_eq)
  ultimately show ?case using q(1,3) by (intro conjI exI [of _ st'] exI [of _ "?c # q"])
qed

section \<open>Properties\<close>

text \<open>
  An event isolates one transfer. After a copy is queued and an event recorded behind it, the
  client may queue any further copies; synchronising the event completes the copy (its destination
  holds the bytes of its source), runs nothing that was queued after the record, and leaves exactly
  those later copies pending.
\<close>

theorem event_sync_delivers:
  assumes "device_reachable d" and "d_streams d s = Some st" and "d_events d e = Some ev"
    and "memcpy_h2d_async d dst src n s = Some d1" and "event_record d1 e s = Some d2"
    and "enqueue_all cs s d2 = Some d3" and "span src n \<inter> span dst n = {}"
  shows "\<exists>m' d4 st4. event_synchronize m d3 e = Some (m', d4) \<and> d_streams d4 s = Some st4 \<and>
    map (\<lambda>c. (mc_dst c, mc_src c, mc_bytes c)) (ms_pending st4) = cs \<and>
    m' = memcpy (foldl run_copy m (ms_pending st)) dst src n \<and> same_bytes m' dst src n"
proof -
  let ?c = "\<lparr>mc_dst = dst, mc_src = src, mc_bytes = n, mc_seq = ms_next_seq st\<rparr>"
  let ?st = "\<lparr>ms_pending = ms_pending st @ [?c], ms_next_seq = Suc (ms_next_seq st)\<rparr>"
  have ok: "device_ok d" "stream_ok st"
    using device_reachable_ok [OF assms(1)] assms(2) by (auto simp: device_ok_def)
  have d1: "d1 = d\<lparr>d_streams := (d_streams d)(s \<mapsto> ?st)\<rparr>" using assms(2,4) by (simp add: memcpy_h2d_async_def)
  then have d2: "d2 = d1\<lparr>d_events := (d_events d)(e \<mapsto> ev\<lparr>me_stream := Some s, me_watermark := Suc (ms_next_seq st)\<rparr>)\<rparr>"
    using assms(3,5) by (simp add: event_record_def)
  have "device_ok d2"
    using device_step_ok [OF device_step.copy [OF assms(4)] ok(1)] device_step_ok [OF device_step.record_event [OF assms(5)]] by blast
  moreover have s2: "d_streams d2 s = Some ?st" using d1 d2 by simp
  ultimately obtain st' q where q: "d_events d3 = d_events d2" "device_ok d3" "d_streams d3 s = Some st'"
    "ms_pending st' = (ms_pending st @ [?c]) @ q" "map (\<lambda>c. (mc_dst c, mc_src c, mc_bytes c)) q = cs"
    "\<forall>c \<in> set q. Suc (ms_next_seq st) \<le> mc_seq c"
    using enqueue_all_eq [OF s2 assms(6)] by auto
  have ev: "d_events d3 e = Some (ev\<lparr>me_stream := Some s, me_watermark := Suc (ms_next_seq st)\<rparr>)" using q(1) d2 by simp
  have old: "\<forall>c \<in> set (ms_pending st). mc_seq c < Suc (ms_next_seq st)"
    using ok(2) by (auto simp: stream_ok_def less_Suc_eq)
  have early: "filter (\<lambda>c. mc_seq c < Suc (ms_next_seq st)) (ms_pending st') = ms_pending st @ [?c]"
    using old q(6) by (auto simp: q(4) filter_id_conv filter_empty_conv)
  have late: "filter (\<lambda>c. Suc (ms_next_seq st) \<le> mc_seq c) (ms_pending st') = q"
    using old q(6) by (auto simp: q(4) filter_id_conv filter_empty_conv)
  have "event_synchronize m d3 e = Some (foldl run_copy m (ms_pending st @ [?c]),
      d3\<lparr>d_streams := (d_streams d3)(s \<mapsto> st'\<lparr>ms_pending := q\<rparr>)\<rparr>)"
    using event_synchronize_eq [OF q(2) ev _ q(3)] early late by simp
  then show ?thesis
    using memcpy_same_bytes [OF assms(7)] q(5) by (simp add: run_copy_def)
qed

text \<open>A stream at address 1 with one queued copy, and an event at address 2.\<close>

definition example_device :: MockCudaDevice where
  "example_device = \<lparr>d_allocs = [], d_streams = [1 \<mapsto> \<lparr>ms_pending = [], ms_next_seq = 0\<rparr>],
     d_events = [2 \<mapsto> \<lparr>me_stream = None, me_watermark = 0\<rparr>]\<rparr>"

lemma example_device_reachable: "device_reachable example_device"
proof -
  have "device_reachable (stream_create device_new 1)"
    by (rule device_reachable.step [OF device_reachable.start device_step.new_stream]) (simp add: device_new_def)
  from device_reachable.step [OF this device_step.new_event [of _ 2]]
  show ?thesis by (simp add: example_device_def event_create_def stream_create_def device_new_def)
qed

theorem event_sync_delivers_witness:
  "\<exists>d1 d2 d3 m' d4. memcpy_h2d_async example_device 100 500 8 1 = Some d1 \<and> event_record d1 2 1 = Some d2 \<and>
     enqueue_all [(100, 600, 8)] 1 d2 = Some d3 \<and> event_synchronize (\<lambda>a. word_of_nat a) d3 2 = Some (m', d4) \<and>
     same_bytes m' 100 500 8"
proof -
  obtain d1 where d1: "memcpy_h2d_async example_device 100 500 8 1 = Some d1"
    by (simp add: memcpy_h2d_async_def example_device_def)
  obtain d2 where d2: "event_record d1 2 1 = Some d2"
    using d1 by (auto simp: memcpy_h2d_async_def example_device_def event_record_def)
  obtain d3 where d3: "enqueue_all [(100, 600, 8)] 1 d2 = Some d3"
    using d1 d2 by (auto simp: memcpy_h2d_async_def example_device_def event_record_def)
  have "span 500 8 \<inter> span 100 8 = {}" by (rule span_disjointI) simp
  then have "\<exists>m' d4. event_synchronize (\<lambda>a. word_of_nat a) d3 2 = Some (m', d4) \<and> same_bytes m' 100 500 8"
    using event_sync_delivers [OF example_device_reachable _ _ d1 d2 d3, of "\<lparr>ms_pending = [], ms_next_seq = 0\<rparr>"
        "\<lparr>me_stream = None, me_watermark = 0\<rparr>" "\<lambda>a. word_of_nat a"]
    by (auto simp: example_device_def)
  then show ?thesis using d1 d2 d3 by blast
qed

text \<open>
  Waiting for an event first does not change what a stream computes: synchronising an event and
  then its stream leaves the memory that synchronising the stream alone leaves, and an empty queue.
\<close>

theorem event_then_stream_sync:
  assumes "device_reachable d" and "d_events d e = Some ev" and "me_stream ev = Some s" and "d_streams d s = Some st"
  shows "\<exists>m1 d1 m2 d2 d2'. event_synchronize m d e = Some (m1, d1) \<and> stream_synchronize m1 d1 s = Some (m2, d2) \<and>
    stream_synchronize m d s = Some (m2, d2') \<and> d_streams d2 = d_streams d2'"
proof -
  have ok: "device_ok d" by (rule device_reachable_ok [OF assms(1)])
  then have "sorted_wrt (<) (map mc_seq (ms_pending st))" using assms(4) by (auto simp: device_ok_def stream_ok_def)
  then have "ms_pending st = filter (\<lambda>c. mc_seq c < me_watermark ev) (ms_pending st) @
      filter (\<lambda>c. me_watermark ev \<le> mc_seq c) (ms_pending st)"
  proof (induction "ms_pending st" arbitrary: st)
    case Nil
    then show ?case by simp
  next
    case (Cons c q)
    have q: "q = filter (\<lambda>c. mc_seq c < me_watermark ev) q @ filter (\<lambda>c. me_watermark ev \<le> mc_seq c) q"
      using Cons.hyps(1) [of "st\<lparr>ms_pending := q\<rparr>"] Cons.prems Cons.hyps(2) [symmetric] by simp
    show ?case
    proof (cases "mc_seq c < me_watermark ev")
      case True
      then show ?thesis unfolding Cons.hyps(2) [symmetric] using q by simp
    next
      case False
      then have "\<forall>x \<in> set q. me_watermark ev \<le> mc_seq x"
        using Cons.prems unfolding Cons.hyps(2) [symmetric] by fastforce
      then show ?thesis unfolding Cons.hyps(2) [symmetric] using False
        by (simp add: filter_empty_conv filter_id_conv not_less)
    qed
  qed
  then have "foldl run_copy (foldl run_copy m (filter (\<lambda>c. mc_seq c < me_watermark ev) (ms_pending st)))
      (filter (\<lambda>c. me_watermark ev \<le> mc_seq c) (ms_pending st)) = foldl run_copy m (ms_pending st)"
    by (metis foldl_append)
  then show ?thesis
    using event_synchronize_eq [OF ok assms(2-4)] assms(4) by (simp add: stream_synchronize_def)
qed

theorem event_then_stream_sync_witness:
  "\<exists>d1 d2 m1 d3 m2 d4. memcpy_h2d_async example_device 100 500 8 1 = Some d1 \<and> event_record d1 2 1 = Some d2 \<and>
     event_synchronize (\<lambda>a. word_of_nat a) d2 2 = Some (m1, d3) \<and> stream_synchronize m1 d3 1 = Some (m2, d4)"
proof -
  obtain d1 where d1: "memcpy_h2d_async example_device 100 500 8 1 = Some d1"
    by (simp add: memcpy_h2d_async_def example_device_def)
  obtain d2 where d2: "event_record d1 2 1 = Some d2"
    using d1 by (auto simp: memcpy_h2d_async_def example_device_def event_record_def)
  have r: "device_reachable d2"
    by (rule device_reachable.step [OF device_reachable.step [OF example_device_reachable device_step.copy [OF d1]]
          device_step.record_event [OF d2]])
  obtain ev st where "d_events d2 2 = Some ev" "me_stream ev = Some 1" "d_streams d2 1 = Some st"
    using d1 d2 by (auto simp: memcpy_h2d_async_def example_device_def event_record_def)
  from event_then_stream_sync [OF r this, of "\<lambda>a. word_of_nat a"] show ?thesis using d1 d2 by blast
qed

end
