(* ===== verification/CopyStream.thy ===== *)
theory CopyStream
  imports Prelude
begin

text \<open>
  What the clients of a device rely on of a stream of asynchronous copies, as the comments of
  \<^verbatim>\<open>include/dee/cuda_device.h\<close> and the CUDA documentation state it: copies run one after the other in the order of
  submission, at any time after it; an event waits for the copies that were submitted before its record; synchronising
  the stream waits for all. The locales \<open>copy_stream\<close> and \<open>event_runtime\<close> state this for any implementation.
\<close>

section \<open>Copies\<close>

text \<open>A copy is its destination, its source and its number of bytes.\<close>

type_synonym copy = "nat \<times> nat \<times> nat"

definition run_one :: "memory \<Rightarrow> copy \<Rightarrow> memory" where
  "run_one m c = (case c of (dst, src, n) \<Rightarrow> memcpy m dst src n)"

definition run_copies :: "memory \<Rightarrow> copy list \<Rightarrow> memory" where
  "run_copies m q = foldl run_one m q"

lemma run_copies_simps [simp]:
  "run_copies m [] = m" "run_copies m (c # q) = run_copies (run_one m c) q"
  "run_copies m (q @ q') = run_copies (run_copies m q) q'"
  by (simp_all add: run_copies_def)

lemma copies_outside:
  "(\<And>dst src n. (dst, src, n) \<in> set q \<Longrightarrow> x \<notin> span dst n) \<Longrightarrow> run_copies m q x = m x"
proof (induction q arbitrary: m)
  case (Cons c q)
  obtain dst src n where c: "c = (dst, src, n)" by (cases c)
  then have "run_one m c x = m x" using Cons.prems [of dst src n] by (simp add: run_one_def memcpy_outside del: mem_span)
  moreover have "run_copies (run_one m c) q x = run_one m c x"
    by (rule Cons.IH) (metis Cons.prems list.set_intros(2))
  ultimately show ?case by simp
qed simp

text \<open>
  A queue \<open>q\<close> of copies has advanced by \<open>j\<close>: the first \<open>j\<close> have run, the others are pending.
\<close>

definition advanced :: "memory \<Rightarrow> copy list \<Rightarrow> nat \<Rightarrow> memory \<Rightarrow> copy list \<Rightarrow> bool" where
  "advanced m q j m' q' \<longleftrightarrow> j \<le> length q \<and> m' = run_copies m (take j q) \<and> q' = drop j q"

lemma advanced_run: "advanced m q j m' q' \<Longrightarrow> run_copies m' q' = run_copies m q"
  unfolding advanced_def by (metis append_take_drop_id run_copies_simps(3))

lemma advanced_refl [simp]: "advanced m q 0 m q"
  by (simp add: advanced_def)

lemma advanced_all [simp]: "advanced m q (length q) (run_copies m q) []"
  by (simp add: advanced_def)

section \<open>Clients\<close>

text \<open>What a client does on a stream, and the copies it submits.\<close>

datatype call = Copy nat nat nat | Record nat | Sync_event nat | Sync_stream

fun run_call ::
  "('d \<times> memory \<Rightarrow> nat \<Rightarrow> nat \<Rightarrow> nat \<Rightarrow> 'd \<times> memory) \<Rightarrow> ('d \<times> memory \<Rightarrow> nat \<Rightarrow> 'd \<times> memory) \<Rightarrow> ('d \<times> memory \<Rightarrow> nat \<Rightarrow> 'd \<times> memory) \<Rightarrow>
     ('d \<times> memory \<Rightarrow> 'd \<times> memory) \<Rightarrow> 'd \<times> memory \<Rightarrow> call \<Rightarrow> 'd \<times> memory" where
  "run_call cp rc se ss dm (Copy dst src n) = cp dm dst src n"
| "run_call cp rc se ss dm (Record e) = rc dm e"
| "run_call cp rc se ss dm (Sync_event e) = se dm e"
| "run_call cp rc se ss dm Sync_stream = ss dm"

fun call_copies :: "call \<Rightarrow> copy list" where
  "call_copies (Copy dst src n) = [(dst, src, n)]"
| "call_copies (Record e) = []"
| "call_copies (Sync_event e) = []"
| "call_copies Sync_stream = []"

fun call_event :: "call \<Rightarrow> nat option" where
  "call_event (Copy dst src n) = None"
| "call_event (Record e) = Some e"
| "call_event (Sync_event e) = Some e"
| "call_event Sync_stream = None"

section \<open>The contract of a stream\<close>

text \<open>
  \<open>pend\<close> are the pending copies of the stream, oldest first; \<open>due d e\<close> is the number of pending copies that the event
  \<open>e\<close> waits for, if the event exists. Every operation may let the stream advance.
\<close>

locale copy_stream =
  fixes good :: "'d \<Rightarrow> bool"
    and pend :: "'d \<Rightarrow> copy list"
    and due :: "'d \<Rightarrow> nat \<Rightarrow> nat option"
    and copy_async :: "'d \<times> memory \<Rightarrow> nat \<Rightarrow> nat \<Rightarrow> nat \<Rightarrow> 'd \<times> memory"
    and record_event :: "'d \<times> memory \<Rightarrow> nat \<Rightarrow> 'd \<times> memory"
    and sync_event :: "'d \<times> memory \<Rightarrow> nat \<Rightarrow> 'd \<times> memory"
    and sync_stream :: "'d \<times> memory \<Rightarrow> 'd \<times> memory"
  assumes copy_law: "good d \<Longrightarrow> copy_async (d, m) dst src n = (d', m') \<Longrightarrow>
      good d' \<and> (\<exists>j. advanced m (pend d @ [(dst, src, n)]) j m' (pend d') \<and> (\<forall>e k. due d e = Some k \<longrightarrow> due d' e = Some (k - j)))"
    and record_law: "good d \<Longrightarrow> due d e \<noteq> None \<Longrightarrow> record_event (d, m) e = (d', m') \<Longrightarrow>
      good d' \<and> (\<exists>j. advanced m (pend d) j m' (pend d') \<and> due d' e = Some (length (pend d')) \<and>
        (\<forall>e' k. e' \<noteq> e \<longrightarrow> due d e' = Some k \<longrightarrow> due d' e' = Some (k - j)))"
    and sync_event_law: "good d \<Longrightarrow> due d e = Some k \<Longrightarrow> sync_event (d, m) e = (d', m') \<Longrightarrow>
      good d' \<and> (\<exists>j \<ge> k. advanced m (pend d) j m' (pend d') \<and> (\<forall>e' k'. due d e' = Some k' \<longrightarrow> due d' e' = Some (k' - j)))"
    and sync_stream_law: "good d \<Longrightarrow> sync_stream (d, m) = (d', m') \<Longrightarrow>
      good d' \<and> m' = run_copies m (pend d) \<and> pend d' = [] \<and> (\<forall>e k. due d e = Some k \<longrightarrow> due d' e = Some 0)"
begin

text \<open>A client that copies, records and waits on existing events.\<close>

lemma copy_run:
  assumes "good d" and "copy_async (d, m) dst src n = (d', m')"
  shows "good d'" "run_copies m' (pend d') = run_copies m (pend d @ [(dst, src, n)])"
    "due d e \<noteq> None \<Longrightarrow> due d' e \<noteq> None"
  using copy_law [OF assms] advanced_run by (blast | fastforce)+

lemma record_run:
  assumes "good d" and "due d e \<noteq> None" and "record_event (d, m) e = (d', m')"
  shows "good d'" "run_copies m' (pend d') = run_copies m (pend d)" "due d e' \<noteq> None \<Longrightarrow> due d' e' \<noteq> None"
  using record_law [OF assms] advanced_run assms(2) by (blast | (cases "e' = e"; fastforce))+

lemma sync_event_run:
  assumes "good d" and "due d e \<noteq> None" and "sync_event (d, m) e = (d', m')"
  shows "good d'" "run_copies m' (pend d') = run_copies m (pend d)" "due d e' \<noteq> None \<Longrightarrow> due d' e' \<noteq> None"
  using assms(2) sync_event_law [OF assms(1) _ assms(3)] advanced_run by (blast | fastforce)+

lemma run_call_run:
  assumes "good d" and "run_call copy_async record_event sync_event sync_stream (d, m) c = (d', m')"
    and "\<And>e. call_event c = Some e \<Longrightarrow> due d e \<noteq> None"
  shows "good d'" "run_copies m' (pend d') = run_copies m (pend d @ call_copies c)" "due d e \<noteq> None \<Longrightarrow> due d' e \<noteq> None"
proof -
  have "good d' \<and> run_copies m' (pend d') = run_copies m (pend d @ call_copies c) \<and> (due d e \<noteq> None \<longrightarrow> due d' e \<noteq> None)"
  proof (cases c)
    case (Copy dst src n)
    then show ?thesis using copy_run [OF assms(1)] assms(2) by auto
  next
    case (Record e')
    then show ?thesis using record_run [OF assms(1)] assms(2,3) by auto
  next
    case (Sync_event e')
    then show ?thesis using sync_event_run [OF assms(1)] assms(2,3) by auto
  next
    case Sync_stream
    then show ?thesis using sync_stream_law [OF assms(1)] assms(2) by fastforce
  qed
  then show "good d'" "run_copies m' (pend d') = run_copies m (pend d @ call_copies c)" "due d e \<noteq> None \<Longrightarrow> due d' e \<noteq> None"
    by blast+
qed

text \<open>However the stream advances, a final synchronisation leaves the memory that running all copies in order gives.\<close>

lemma run_calls_synchronised:
  assumes "good d" and "\<And>c e. c \<in> set cs \<Longrightarrow> call_event c = Some e \<Longrightarrow> due d e \<noteq> None"
  shows "snd (sync_stream (foldl (run_call copy_async record_event sync_event sync_stream) (d, m) cs)) =
    run_copies m (pend d @ concat (map call_copies cs))"
  using assms
proof (induction cs arbitrary: d m)
  case Nil
  obtain d' m' where s: "sync_stream (d, m) = (d', m')" by fastforce
  then show ?case using sync_stream_law [OF Nil.prems(1) s] by simp
next
  case (Cons c cs)
  obtain d1 m1 where s: "run_call copy_async record_event sync_event sync_stream (d, m) c = (d1, m1)" by fastforce
  have ev: "due d e \<noteq> None" if "call_event c = Some e" for e using Cons.prems(2) [of c e] that by simp
  note r = run_call_run [OF Cons.prems(1) s ev]
  have "due d1 e \<noteq> None" if "c' \<in> set cs" "call_event c' = Some e" for c' e
    using Cons.prems(2) [of c' e] r(3) that by simp
  then show ?case using Cons.IH [OF r(1), of m1] r(2) s by simp
qed

end

section \<open>Creating events\<close>

locale event_runtime = copy_stream +
  fixes create_event :: "'a \<times> memory \<Rightarrow> nat option \<times> 'a \<times> memory"
    and destroy_event :: "'a \<times> memory \<Rightarrow> nat \<Rightarrow> 'a \<times> memory"
  assumes create_law: "good d \<Longrightarrow> create_event (d, m) = (r, d', m') \<Longrightarrow>
      good d' \<and> (\<exists>j. advanced m (pend d) j m' (pend d') \<and> (\<forall>e k. due d e = Some k \<longrightarrow> due d' e = Some (k - j))) \<and>
      (case r of None \<Rightarrow> True | Some e \<Rightarrow> e \<noteq> nullptr \<and> due d e = None \<and> due d' e = Some 0)"
    and destroy_law: "good d \<Longrightarrow> destroy_event (d, m) e = (d', m') \<Longrightarrow>
      good d' \<and> (\<exists>j. advanced m (pend d) j m' (pend d') \<and> (\<forall>e' k. e' \<noteq> e \<longrightarrow> due d e' = Some k \<longrightarrow> due d' e' = Some (k - j)))"

end
