(* ===== verification/CudaBackend.thy ===== *)
theory CudaBackend
  imports CudaDevice CopyStream
begin

text \<open>
  The CUDA implementation of the device interface, \<^verbatim>\<open>src/cuda_backend_cuda.cpp\<close>: one call of the CUDA runtime
  per operation. The runtime is a parameter, the record \<open>Cuda\<close>; \<^verbatim>\<open>stub/cuda_runtime.h\<close>, the stand-in that the repository builds
  against, is one instance. A call takes and returns the state of the runtime and the memory, because it may let
  queued copies run. Handles are addresses, and the \<open>new\<close> of the stub yields a fresh one.
\<close>

section \<open>The runtime\<close>

record 'r Cuda =
  cuda_malloc :: "'r \<times> memory \<Rightarrow> nat \<Rightarrow> nat option \<times> 'r \<times> memory"
  cuda_free :: "'r \<times> memory \<Rightarrow> nat \<Rightarrow> 'r \<times> memory"
  cuda_stream_create :: "'r \<times> memory \<Rightarrow> nat option \<times> 'r \<times> memory"
  cuda_stream_destroy :: "'r \<times> memory \<Rightarrow> nat \<Rightarrow> 'r \<times> memory"
  cuda_event_create :: "'r \<times> memory \<Rightarrow> nat option \<times> 'r \<times> memory"
  cuda_event_destroy :: "'r \<times> memory \<Rightarrow> nat \<Rightarrow> 'r \<times> memory"
  cuda_event_record :: "'r \<times> memory \<Rightarrow> nat \<Rightarrow> nat \<Rightarrow> 'r \<times> memory"
  cuda_event_synchronize :: "'r \<times> memory \<Rightarrow> nat \<Rightarrow> 'r \<times> memory"
  cuda_memcpy_async :: "'r \<times> memory \<Rightarrow> nat \<Rightarrow> nat \<Rightarrow> nat \<Rightarrow> nat \<Rightarrow> bool \<times> 'r \<times> memory"
  cuda_memcpy :: "'r \<times> memory \<Rightarrow> nat \<Rightarrow> nat \<Rightarrow> nat \<Rightarrow> 'r \<times> memory"
  cuda_stream_synchronize :: "'r \<times> memory \<Rightarrow> nat \<Rightarrow> 'r \<times> memory"

section \<open>\<^verbatim>\<open>CudaCudaDevice\<close>\<close>

text \<open>The result codes are dropped, except that of the allocation.\<close>

definition cu_device_malloc :: "'r Cuda \<Rightarrow> 'r \<times> memory \<Rightarrow> nat \<Rightarrow> nat \<times> 'r \<times> memory" where
  "cu_device_malloc cu d bytes = (case cuda_malloc cu d bytes of (r, d') \<Rightarrow> (case r of Some p \<Rightarrow> p | None \<Rightarrow> nullptr, d'))"

definition cu_device_free :: "'r Cuda \<Rightarrow> 'r \<times> memory \<Rightarrow> nat \<Rightarrow> 'r \<times> memory" where
  "cu_device_free cu d ptr = (if ptr \<noteq> nullptr then cuda_free cu d ptr else d)"

definition cu_stream_create :: "'r Cuda \<Rightarrow> 'r \<times> memory \<Rightarrow> nat \<times> 'r \<times> memory" where
  "cu_stream_create cu d = (case cuda_stream_create cu d of (r, d') \<Rightarrow> (case r of Some s \<Rightarrow> s | None \<Rightarrow> nullptr, d'))"

definition cu_destroy_stream :: "'r Cuda \<Rightarrow> 'r \<times> memory \<Rightarrow> nat \<Rightarrow> 'r \<times> memory" where
  "cu_destroy_stream cu d s = cuda_stream_destroy cu d s"

definition cu_event_create :: "'r Cuda \<Rightarrow> 'r \<times> memory \<Rightarrow> nat \<times> 'r \<times> memory" where
  "cu_event_create cu d = (case cuda_event_create cu d of (r, d') \<Rightarrow> (case r of Some e \<Rightarrow> e | None \<Rightarrow> nullptr, d'))"

definition cu_destroy_event :: "'r Cuda \<Rightarrow> 'r \<times> memory \<Rightarrow> nat \<Rightarrow> 'r \<times> memory" where
  "cu_destroy_event cu d e = cuda_event_destroy cu d e"

definition cu_event_record :: "'r Cuda \<Rightarrow> nat \<Rightarrow> 'r \<times> memory \<Rightarrow> nat \<Rightarrow> 'r \<times> memory" where
  "cu_event_record cu s d e = cuda_event_record cu d e s"

definition cu_event_synchronize :: "'r Cuda \<Rightarrow> 'r \<times> memory \<Rightarrow> nat \<Rightarrow> 'r \<times> memory" where
  "cu_event_synchronize cu d e = cuda_event_synchronize cu d e"

definition cu_memcpy_h2d_async :: "'r Cuda \<Rightarrow> nat \<Rightarrow> 'r \<times> memory \<Rightarrow> nat \<Rightarrow> nat \<Rightarrow> nat \<Rightarrow> 'r \<times> memory" where
  "cu_memcpy_h2d_async cu s d dst src bytes = snd (cuda_memcpy_async cu d dst src bytes s)"

definition cu_memcpy_d2h_sync :: "'r Cuda \<Rightarrow> 'r \<times> memory \<Rightarrow> nat \<Rightarrow> nat \<Rightarrow> nat \<Rightarrow> 'r \<times> memory" where
  "cu_memcpy_d2h_sync cu d dst src bytes = cuda_memcpy cu d dst src bytes"

definition cu_stream_synchronize :: "'r Cuda \<Rightarrow> nat \<Rightarrow> 'r \<times> memory \<Rightarrow> 'r \<times> memory" where
  "cu_stream_synchronize cu s d = cuda_stream_synchronize cu d s"

definition cu_backend_name :: string where
  "cu_backend_name = ''cuda''"

section \<open>The stub runtime\<close>

text \<open>The heap objects behind the handles of streams and events; \<open>stub_next\<close> is the next address that \<^verbatim>\<open>new\<close> returns.\<close>

record Stub =
  stub_next :: nat
  stub_handles :: "nat list"

definition stub_new :: "Stub \<times> memory \<Rightarrow> nat option \<times> Stub \<times> memory" where
  "stub_new d = (Some (stub_next (fst d)),
     (fst d)\<lparr>stub_next := Suc (stub_next (fst d)), stub_handles := stub_next (fst d) # stub_handles (fst d)\<rparr>, snd d)"

definition stub_delete :: "Stub \<times> memory \<Rightarrow> nat \<Rightarrow> Stub \<times> memory" where
  "stub_delete d h = ((fst d)\<lparr>stub_handles := removeAll h (stub_handles (fst d))\<rparr>, snd d)"

definition stub_malloc :: "(nat \<Rightarrow> nat) \<Rightarrow> Stub \<times> memory \<Rightarrow> nat \<Rightarrow> nat option \<times> Stub \<times> memory" where
  "stub_malloc malloc d bytes =
     (let p = malloc (if bytes \<noteq> 0 then bytes else 1) in (if p \<noteq> nullptr then Some p else None, d))"

definition stub_memcpy :: "Stub \<times> memory \<Rightarrow> nat \<Rightarrow> nat \<Rightarrow> nat \<Rightarrow> Stub \<times> memory" where
  "stub_memcpy d dst src bytes = (fst d, memcpy (snd d) dst src bytes)"

definition stub_runtime :: "(nat \<Rightarrow> nat) \<Rightarrow> Stub Cuda" where
  "stub_runtime malloc =
     \<lparr>cuda_malloc = stub_malloc malloc, cuda_free = (\<lambda>d ptr. d),
      cuda_stream_create = stub_new, cuda_stream_destroy = stub_delete,
      cuda_event_create = stub_new, cuda_event_destroy = stub_delete,
      cuda_event_record = (\<lambda>d e s. d), cuda_event_synchronize = (\<lambda>d e. d),
      cuda_memcpy_async = (\<lambda>d dst src bytes s. (True, stub_memcpy d dst src bytes)),
      cuda_memcpy = stub_memcpy, cuda_stream_synchronize = (\<lambda>d s. d)\<rparr>"

section \<open>Both backends keep the contract\<close>

text \<open>The stub runs every copy at once, so nothing is ever pending.\<close>

definition stub_good :: "Stub \<Rightarrow> bool" where
  "stub_good r \<longleftrightarrow> 0 < stub_next r \<and> (\<forall>h \<in> set (stub_handles r). h < stub_next r)"

definition stub_due :: "Stub \<Rightarrow> nat \<Rightarrow> nat option" where
  "stub_due r e = (if e \<in> set (stub_handles r) then Some 0 else None)"

lemma advanced_now: "advanced m [(dst, src, n)] (Suc 0) (memcpy m dst src n) []"
  by (simp add: advanced_def run_one_def)

interpretation stub_stream: event_runtime stub_good "\<lambda>_. []" stub_due "cu_memcpy_h2d_async (stub_runtime malloc) s"
  "cu_event_record (stub_runtime malloc) s" "cu_event_synchronize (stub_runtime malloc)" "cu_stream_synchronize (stub_runtime malloc) s"
  "cuda_event_create (stub_runtime malloc)" "cuda_event_destroy (stub_runtime malloc)" for malloc s
proof (unfold_locales, goal_cases)
  case (1 d m dst src n d' m')
  then show ?case using advanced_now [of m dst src n]
    by (auto simp: cu_memcpy_h2d_async_def stub_runtime_def stub_memcpy_def stub_due_def)
qed (auto simp: cu_event_record_def cu_event_synchronize_def cu_stream_synchronize_def stub_runtime_def stub_new_def stub_delete_def
    stub_good_def stub_due_def intro!: exI [of _ 0] split: if_splits)

text \<open>
  The mock device on one of its streams. Uses of dead objects do not occur: the stream exists, and events that the
  client uses were created and recorded on it, if at all.
\<close>

definition mock_stream :: "nat \<Rightarrow> MockCudaDevice \<Rightarrow> MockStream" where
  "mock_stream s d = the (d_streams d s)"

definition mock_good :: "nat \<Rightarrow> MockCudaDevice \<Rightarrow> bool" where
  "mock_good s d \<longleftrightarrow> device_ok d \<and> d_streams d s \<noteq> None \<and> (\<forall>e ev. d_events d e = Some ev \<longrightarrow>
       me_stream ev = None \<or> me_stream ev = Some s \<and> me_watermark ev \<le> ms_next_seq (mock_stream s d))"

definition mock_pend :: "nat \<Rightarrow> MockCudaDevice \<Rightarrow> copy list" where
  "mock_pend s d = map (\<lambda>c. (mc_dst c, mc_src c, mc_bytes c)) (ms_pending (mock_stream s d))"

definition mock_due :: "nat \<Rightarrow> MockCudaDevice \<Rightarrow> nat \<Rightarrow> nat option" where
  "mock_due s d e = map_option (\<lambda>ev. if me_stream ev = None then 0
     else length (filter (\<lambda>c. mc_seq c < me_watermark ev) (ms_pending (mock_stream s d)))) (d_events d e)"

definition mock_copy :: "nat \<Rightarrow> MockCudaDevice \<times> memory \<Rightarrow> nat \<Rightarrow> nat \<Rightarrow> nat \<Rightarrow> MockCudaDevice \<times> memory" where
  "mock_copy s d dst src n = (the (memcpy_h2d_async (fst d) dst src n s), snd d)"

definition mock_record :: "nat \<Rightarrow> MockCudaDevice \<times> memory \<Rightarrow> nat \<Rightarrow> MockCudaDevice \<times> memory" where
  "mock_record s d e = (the (event_record (fst d) e s), snd d)"

definition mock_sync_event :: "MockCudaDevice \<times> memory \<Rightarrow> nat \<Rightarrow> MockCudaDevice \<times> memory" where
  "mock_sync_event d e = prod.swap (the (event_synchronize (snd d) (fst d) e))"

definition mock_sync_stream :: "nat \<Rightarrow> MockCudaDevice \<times> memory \<Rightarrow> MockCudaDevice \<times> memory" where
  "mock_sync_stream s d = prod.swap (the (stream_synchronize (snd d) (fst d) s))"

abbreviation "as_copy \<equiv> \<lambda>c. (mc_dst c, mc_src c, mc_bytes c)"

lemma run_copies_mock: "run_copies m (map as_copy q) = foldl run_copy m q"
  by (induction q arbitrary: m) (simp_all add: run_one_def run_copy_def)

lemma sorted_below:
  fixes w :: nat
  assumes "sorted_wrt (<) (map mc_seq q)"
  defines "k \<equiv> length (filter (\<lambda>c. mc_seq c < (w :: nat)) q)"
  shows "filter (\<lambda>c. mc_seq c < w) q = take k q" "filter (\<lambda>c. w \<le> mc_seq c) q = drop k q"
proof -
  have "filter (\<lambda>c. mc_seq c < w) q = take (length (filter (\<lambda>c. mc_seq c < w) q)) q \<and>
    filter (\<lambda>c. w \<le> mc_seq c) q = drop (length (filter (\<lambda>c. mc_seq c < w) q)) q"
    using assms(1)
  proof (induction q)
    case (Cons c q)
    show ?case
    proof (cases "mc_seq c < w")
      case False
      then have "\<forall>x \<in> set q. w \<le> mc_seq x" using Cons.prems by fastforce
      then have "filter (\<lambda>c. mc_seq c < w) q = []" "filter (\<lambda>c. w \<le> mc_seq c) q = q"
        by (simp_all add: filter_empty_conv filter_id_conv not_less)
      then show ?thesis using False by simp
    qed (use Cons in simp)
  qed simp
  then show "filter (\<lambda>c. mc_seq c < w) q = take k q" "filter (\<lambda>c. w \<le> mc_seq c) q = drop k q"
    by (simp_all add: k_def)
qed

lemma count_above:
  "length (filter (\<lambda>c. mc_seq c < w') (filter (\<lambda>c. w \<le> mc_seq c) q)) =
     length (filter (\<lambda>c. mc_seq c < w') q) - length (filter (\<lambda>c. mc_seq c < w) q)"
proof (cases "w \<le> w'")
  case True
  then have "length (filter (\<lambda>c. mc_seq c < w') (filter (\<lambda>c. w \<le> mc_seq c) q)) + length (filter (\<lambda>c. mc_seq c < w) q) =
      length (filter (\<lambda>c. mc_seq c < w') q)" by (induction q) auto
  then show ?thesis by simp
next
  case False
  then have "filter (\<lambda>c. mc_seq c < w') (filter (\<lambda>c. w \<le> mc_seq c) q) = []" by (auto simp: filter_empty_conv)
  moreover have "length (filter (\<lambda>c. mc_seq c < w') q) \<le> length (filter (\<lambda>c. mc_seq c < w) q)"
    using False by (induction q) auto
  ultimately show ?thesis by simp
qed

lemma mock_goodD:
  assumes "mock_good s d"
  shows "d_streams d s = Some (mock_stream s d)" "device_ok d" "stream_ok (mock_stream s d)"
    "d_events d e = Some ev \<Longrightarrow> me_stream ev \<noteq> None \<Longrightarrow> me_stream ev = Some s \<and> me_watermark ev \<le> ms_next_seq (mock_stream s d)"
proof -
  show "d_streams d s = Some (mock_stream s d)" "device_ok d" "stream_ok (mock_stream s d)"
    using assms by (auto simp: mock_good_def mock_stream_def device_ok_def)
  show "d_events d e = Some ev \<Longrightarrow> me_stream ev \<noteq> None \<Longrightarrow> me_stream ev = Some s \<and> me_watermark ev \<le> ms_next_seq (mock_stream s d)"
    using assms unfolding mock_good_def by metis
qed

lemma mock_sync_event_eq:
  assumes "mock_good s d" and "d_events d e = Some ev" and "me_stream ev = Some s"
  shows "mock_sync_event (d, m) e = (d\<lparr>d_streams := (d_streams d)(s \<mapsto>
      (mock_stream s d)\<lparr>ms_pending := filter (\<lambda>c. me_watermark ev \<le> mc_seq c) (ms_pending (mock_stream s d))\<rparr>)\<rparr>,
      foldl run_copy m (filter (\<lambda>c. mc_seq c < me_watermark ev) (ms_pending (mock_stream s d))))"
  using event_synchronize_eq [OF mock_goodD(2) [OF assms(1)] assms(2,3) mock_goodD(1) [OF assms(1)], of m]
  by (simp add: mock_sync_event_def)

lemma mock_stream_upd [simp]: "mock_stream s (d\<lparr>d_streams := (d_streams d)(s \<mapsto> st)\<rparr>) = st"
  by (simp add: mock_stream_def)

lemma mock_stream_events [simp]: "mock_stream s (d\<lparr>d_events := es\<rparr>) = mock_stream s d"
  by (simp add: mock_stream_def)

lemma mock_good_upd:
  assumes "mock_good s d" and "stream_ok st" and "ms_next_seq (mock_stream s d) \<le> ms_next_seq st"
  shows "mock_good s (d\<lparr>d_streams := (d_streams d)(s \<mapsto> st)\<rparr>)"
  using assms by (fastforce simp: mock_good_def device_ok_def)

interpretation mock_copies: copy_stream "mock_good s" "mock_pend s" "mock_due s" "mock_copy s" "mock_record s" mock_sync_event
  "mock_sync_stream s" for s
proof (unfold_locales, goal_cases)
  case (1 d m dst src n d' m')
  let ?st = "mock_stream s d"
  let ?c = "\<lparr>mc_dst = dst, mc_src = src, mc_bytes = n, mc_seq = ms_next_seq ?st\<rparr>"
  let ?st' = "\<lparr>ms_pending = ms_pending ?st @ [?c], ms_next_seq = Suc (ms_next_seq ?st)\<rparr>"
  note g = mock_goodD [OF 1(1)]
  have d': "d' = d\<lparr>d_streams := (d_streams d)(s \<mapsto> ?st')\<rparr>" "m' = m"
    using 1(2) g(1) by (auto simp: mock_copy_def memcpy_h2d_async_def)
  have "stream_ok ?st'" using g(3) by (auto simp: stream_ok_def sorted_wrt_append less_Suc_eq)
  then have "mock_good s d'" unfolding d' by (rule mock_good_upd [OF 1(1)]) simp
  moreover have "mock_due s d' e = Some k" if "mock_due s d e = Some k" for e k
    using that g(4) [of e] by (auto simp: mock_due_def d' split: if_splits)
  ultimately show ?case by (auto simp: d' mock_pend_def intro!: exI [of _ 0])
next
  case (2 d e m d' m')
  then obtain ev where ev: "d_events d e = Some ev" by (auto simp: mock_due_def)
  note g = mock_goodD [OF 2(1)]
  have d': "d' = d\<lparr>d_events := (d_events d)(e \<mapsto> ev\<lparr>me_stream := Some s, me_watermark := ms_next_seq (mock_stream s d)\<rparr>)\<rparr>" "m' = m"
    using 2(3) g(1) ev by (auto simp: mock_record_def event_record_def)
  have "filter (\<lambda>c. mc_seq c < ms_next_seq (mock_stream s d)) (ms_pending (mock_stream s d)) = ms_pending (mock_stream s d)"
    using g(3) by (simp add: stream_ok_def filter_id_conv)
  moreover have "mock_good s d'" using 2(1) by (auto simp: d' mock_good_def device_ok_def)
  moreover have "advanced m (mock_pend s d) 0 m' (mock_pend s d')" by (simp add: d' mock_pend_def)
  moreover have "mock_due s d' e' = mock_due s d e'" if "e' \<noteq> e" for e' using that by (simp add: d' mock_due_def cong: if_cong)
  ultimately show ?case
    by (intro conjI exI [of _ 0]) (auto simp: d' mock_pend_def mock_due_def)
next
  case (3 d e k m d' m')
  then obtain ev where ev: "d_events d e = Some ev" by (auto simp: mock_due_def)
  note g = mock_goodD [OF 3(1)]
  show ?case
  proof (cases "me_stream ev")
    case None
    then have "d' = d" "m' = m" "k = 0" using 3(2,3) ev by (auto simp: mock_sync_event_def event_synchronize_def mock_due_def)
    then show ?thesis using 3(1) by (auto intro!: exI [of _ 0])
  next
    case (Some s')
    then have st: "me_stream ev = Some s" using g(4) [OF ev] by simp
    let ?q = "ms_pending (mock_stream s d)" and ?w = "me_watermark ev"
    have srt: "sorted_wrt (<) (map mc_seq ?q)" using g(3) by (simp add: stream_ok_def)
    have k: "k = length (filter (\<lambda>c. mc_seq c < ?w) ?q)" using 3(2) ev st by (simp add: mock_due_def)
    have d': "d' = d\<lparr>d_streams := (d_streams d)(s \<mapsto> (mock_stream s d)\<lparr>ms_pending := filter (\<lambda>c. ?w \<le> mc_seq c) ?q\<rparr>)\<rparr>"
      and m': "m' = foldl run_copy m (filter (\<lambda>c. mc_seq c < ?w) ?q)"
      using 3(3) mock_sync_event_eq [OF 3(1) ev st, of m] by simp_all
    have "mock_good s d'" unfolding d' by (rule mock_good_upd [OF 3(1) stream_ok_filter [OF g(3)]]) simp
    moreover have "advanced m (mock_pend s d) k m' (mock_pend s d')"
      unfolding advanced_def mock_pend_def take_map drop_map run_copies_mock d' mock_stream_upd
      using sorted_below [OF srt, of ?w] m' k by (simp add: length_filter_le)
    moreover have "mock_due s d' e' = Some (k' - k)" if "mock_due s d e' = Some k'" for e' k'
      using that count_above [of _ ?w ?q]
      by (cases "d_events d e'") (auto simp: mock_due_def d' k simp del: filter_filter cong: if_cong)
    ultimately show ?thesis by blast
  qed
next
  case (4 d m d' m')
  note g = mock_goodD [OF 4(1)]
  have d': "d' = d\<lparr>d_streams := (d_streams d)(s \<mapsto> (mock_stream s d)\<lparr>ms_pending := []\<rparr>)\<rparr>" "m' = foldl run_copy m (ms_pending (mock_stream s d))"
    using 4(2) g(1) by (auto simp: mock_sync_stream_def stream_synchronize_def)
  have "mock_good s d'" unfolding d' by (rule mock_good_upd [OF 4(1)]) (simp_all add: stream_ok_def)
  then show ?case by (auto simp: d' mock_pend_def run_copies_mock mock_due_def)
qed

section \<open>The mock device as a runtime\<close>

text \<open>
  The mock device behind the interface of the runtime: an instance whose copies stay pending until somebody waits. The
  state holds the next address for a stream or an event.
\<close>

definition on_mock :: "(MockCudaDevice \<times> memory \<Rightarrow> MockCudaDevice \<times> memory) \<Rightarrow> (nat \<times> MockCudaDevice) \<times> memory \<Rightarrow> (nat \<times> MockCudaDevice) \<times> memory" where
  "on_mock f d = (case f (snd (fst d), snd d) of (dev, m) \<Rightarrow> ((fst (fst d), dev), m))"

definition mock_fresh :: "(MockCudaDevice \<Rightarrow> nat \<Rightarrow> MockCudaDevice) \<Rightarrow> (nat \<times> MockCudaDevice) \<times> memory \<Rightarrow> nat option \<times> (nat \<times> MockCudaDevice) \<times> memory" where
  "mock_fresh f d = (case d of ((k, dev), m) \<Rightarrow> (Some k, (Suc k, f dev k), m))"

definition mock_runtime :: "(nat \<Rightarrow> nat) \<Rightarrow> (nat \<times> MockCudaDevice) Cuda" where
  "mock_runtime new_bytes =
     \<lparr>cuda_malloc = (\<lambda>d n. case device_malloc new_bytes (snd (fst d)) n of (p, dev) \<Rightarrow>
         (if p = nullptr then None else Some p, (fst (fst d), dev), snd d)),
      cuda_free = (\<lambda>d p. on_mock (apfst (\<lambda>dev. device_free dev p)) d),
      cuda_stream_create = mock_fresh stream_create,
      cuda_stream_destroy = (\<lambda>d s. on_mock (apfst (\<lambda>dev. destroy_stream dev s)) d),
      cuda_event_create = mock_fresh event_create,
      cuda_event_destroy = (\<lambda>d e. on_mock (apfst (\<lambda>dev. destroy_event dev e)) d),
      cuda_event_record = (\<lambda>d e s. on_mock (\<lambda>x. mock_record s x e) d),
      cuda_event_synchronize = (\<lambda>d e. on_mock (\<lambda>x. mock_sync_event x e) d),
      cuda_memcpy_async = (\<lambda>d dst src n s. (True, on_mock (\<lambda>x. mock_copy s x dst src n) d)),
      cuda_memcpy = (\<lambda>d dst src n. on_mock (apsnd (\<lambda>m. memcpy_d2h_sync m dst src n)) d),
      cuda_stream_synchronize = (\<lambda>d s. on_mock (mock_sync_stream s) d)\<rparr>"

definition runtime_good :: "nat \<Rightarrow> nat \<times> MockCudaDevice \<Rightarrow> bool" where
  "runtime_good s r \<longleftrightarrow> mock_good s (snd r) \<and> 0 < fst r \<and> (\<forall>e \<ge> fst r. d_events (snd r) e = None)"

lemma mock_events_kept:
  assumes "mock_good s d"
  shows "mock_copy s (d, m) dst src n = (d', m') \<Longrightarrow> d_events d' = d_events d"
    "mock_record s (d, m) e = (d', m') \<Longrightarrow> mock_due s d e \<noteq> None \<Longrightarrow> dom (d_events d') = dom (d_events d)"
    "mock_sync_event (d, m) e = (d', m') \<Longrightarrow> mock_due s d e \<noteq> None \<Longrightarrow> d_events d' = d_events d"
    "mock_sync_stream s (d, m) = (d', m') \<Longrightarrow> d_events d' = d_events d"
proof -
  note g = mock_goodD [OF assms]
  show "mock_copy s (d, m) dst src n = (d', m') \<Longrightarrow> d_events d' = d_events d"
    using g(1) by (auto simp: mock_copy_def memcpy_h2d_async_def)
  show "mock_record s (d, m) e = (d', m') \<Longrightarrow> mock_due s d e \<noteq> None \<Longrightarrow> dom (d_events d') = dom (d_events d)"
    using g(1) by (auto simp: mock_record_def event_record_def mock_due_def split: if_splits)
  show "mock_sync_stream s (d, m) = (d', m') \<Longrightarrow> d_events d' = d_events d"
    using g(1) by (auto simp: mock_sync_stream_def stream_synchronize_def)
  assume sy: "mock_sync_event (d, m) e = (d', m')" and "mock_due s d e \<noteq> None"
  then obtain ev where ev: "d_events d e = Some ev" by (auto simp: mock_due_def)
  show "d_events d' = d_events d"
  proof (cases "me_stream ev")
    case None
    then show ?thesis using sy ev by (simp add: mock_sync_event_def event_synchronize_def)
  next
    case (Some s')
    then have "me_stream ev = Some s" using g(4) [OF ev] by simp
    from mock_sync_event_eq [OF assms ev this, of m] show ?thesis using sy by auto
  qed
qed

lemma on_mock_eq: "on_mock f ((k, d), m) = (r', m') \<longleftrightarrow> f (d, m) = (snd r', m') \<and> fst r' = k"
  by (auto simp: on_mock_def split: prod.splits)

interpretation mock_events: event_runtime "runtime_good s" "\<lambda>r. mock_pend s (snd r)" "\<lambda>r. mock_due s (snd r)"
  "cu_memcpy_h2d_async (mock_runtime nb) s" "cu_event_record (mock_runtime nb) s" "cu_event_synchronize (mock_runtime nb)"
  "cu_stream_synchronize (mock_runtime nb) s" "cuda_event_create (mock_runtime nb)" "cuda_event_destroy (mock_runtime nb)" for nb s
proof (unfold_locales, goal_cases)
  case (1 r m dst src n r' m')
  then have c: "mock_copy s (snd r, m) dst src n = (snd r', m')" and k: "fst r' = fst r" and g: "mock_good s (snd r)"
    by (cases r; simp add: cu_memcpy_h2d_async_def mock_runtime_def on_mock_eq runtime_good_def)+
  show ?case using mock_copies.copy_law [OF g c] mock_events_kept(1) [OF g c] 1(1) k by (simp add: runtime_good_def)
next
  case (2 r e m r' m')
  then have c: "mock_record s (snd r, m) e = (snd r', m')" and k: "fst r' = fst r" and g: "mock_good s (snd r)"
    by (cases r; simp add: cu_event_record_def mock_runtime_def on_mock_eq runtime_good_def)+
  have "dom (d_events (snd r')) = dom (d_events (snd r))" by (rule mock_events_kept(2) [OF g c 2(2)])
  then have "\<forall>x \<ge> fst r'. d_events (snd r') x = None" using 2(1) k unfolding runtime_good_def by (metis domIff)
  then show ?case using mock_copies.record_law [OF g 2(2) c] 2(1) k by (simp add: runtime_good_def)
next
  case (3 r e q m r' m')
  then have c: "mock_sync_event (snd r, m) e = (snd r', m')" and k: "fst r' = fst r" and g: "mock_good s (snd r)"
    by (cases r; simp add: cu_event_synchronize_def mock_runtime_def on_mock_eq runtime_good_def)+
  show ?case using mock_copies.sync_event_law [OF g 3(2) c] mock_events_kept(3) [OF g c] 3(1,2) k by (simp add: runtime_good_def)
next
  case (4 r m r' m')
  then have c: "mock_sync_stream s (snd r, m) = (snd r', m')" and k: "fst r' = fst r" and g: "mock_good s (snd r)"
    by (cases r; simp add: cu_stream_synchronize_def mock_runtime_def on_mock_eq runtime_good_def)+
  show ?case using mock_copies.sync_stream_law [OF g c] mock_events_kept(4) [OF g c] 4(1) k by (simp add: runtime_good_def)
next
  case (5 r m e r' m')
  obtain k d where r: "r = (k, d)" by fastforce
  have e: "e = Some k" "r' = (Suc k, event_create d k)" "m' = m" using 5(2) by (simp_all add: r mock_runtime_def mock_fresh_def)
  have g: "mock_good s d" "d_events d k = None" "0 < k" "\<forall>x \<ge> k. d_events d x = None" using 5(1) by (simp_all add: r runtime_good_def)
  have "mock_good s (event_create d k)" using g(1,2) by (auto simp: mock_good_def event_create_def device_ok_def)
  moreover have "mock_due s (event_create d k) e = (if e = k then Some 0 else mock_due s d e)" "mock_pend s (event_create d k) = mock_pend s d"
    "mock_due s d k = None" "\<forall>x \<ge> Suc k. d_events (event_create d k) x = None" for e
    using g by (simp_all add: mock_due_def event_create_def mock_pend_def cong: if_cong)
  ultimately show ?case using g by (auto simp: r e runtime_good_def intro!: exI [of _ 0])
next
  case (6 r m e r' m')
  obtain k d where r: "r = (k, d)" by fastforce
  have e: "r' = (k, destroy_event d e)" "m' = m" using 6(2) by (simp_all add: r mock_runtime_def on_mock_def prod_eq_iff)
  have g: "mock_good s d" "0 < k" "\<forall>x \<ge> k. d_events d x = None" using 6(1) by (simp_all add: r runtime_good_def)
  have "mock_good s (destroy_event d e)" using g(1) by (auto simp: mock_good_def destroy_event_def device_ok_def)
  moreover have "mock_due s (destroy_event d e) x = mock_due s d x" if "x \<noteq> e" for x
    using that by (simp add: mock_due_def destroy_event_def cong: if_cong)
  moreover have "mock_pend s (destroy_event d e) = mock_pend s d" "\<forall>x \<ge> k. d_events (destroy_event d e) x = None"
    using g by (simp_all add: mock_pend_def destroy_event_def)
  ultimately show ?case using g by (auto simp: r e runtime_good_def intro!: exI [of _ 0])
qed

section \<open>Properties\<close>

text \<open>
  C35: the mock backend and the CUDA backend are interchangeable. For every sequence of copies, event records and waits on a stream,
  the mock, which runs copies as late as it can, and the CUDA backend on the stub runtime, which runs them at once, leave
  the same memory once the stream is synchronised.
\<close>

theorem backends_agree:
  assumes "mock_good s d" and "mock_pend s d = []" and "stub_good r"
    and "\<forall>c \<in> set cs. \<forall>e. call_event c = Some e \<longrightarrow> mock_due s d e \<noteq> None \<and> stub_due r e \<noteq> None"
  shows "snd (mock_sync_stream s (foldl (run_call (mock_copy s) (mock_record s) mock_sync_event (mock_sync_stream s)) (d, m) cs)) =
    snd (cu_stream_synchronize (stub_runtime malloc) s'
      (foldl (run_call (cu_memcpy_h2d_async (stub_runtime malloc) s') (cu_event_record (stub_runtime malloc) s')
        (cu_event_synchronize (stub_runtime malloc)) (cu_stream_synchronize (stub_runtime malloc) s')) (r, m) cs))"
proof -
  have "mock_due s d e \<noteq> None" "stub_due r e \<noteq> None" if "c \<in> set cs" "call_event c = Some e" for c e
    using assms(4) that by blast+
  then show ?thesis
    using mock_copies.run_calls_synchronised [OF assms(1), of cs m] stub_stream.run_calls_synchronised [OF assms(3), of cs malloc s' m] assms(2)
    by simp
qed

definition example_mock :: MockCudaDevice where
  "example_mock = event_create (stream_create device_new 7) 3"

lemma example_mock_good: "mock_good 7 example_mock" "mock_pend 7 example_mock = []" "mock_due 7 example_mock 3 = Some 0"
  by (simp_all add: example_mock_def mock_good_def mock_pend_def mock_due_def mock_stream_def event_create_def stream_create_def device_new_def
      device_ok_def stream_ok_def)

theorem backends_agree_witness:
  "snd (mock_sync_stream 7 (foldl (run_call (mock_copy 7) (mock_record 7) mock_sync_event (mock_sync_stream 7)) (example_mock, \<lambda>_. 0)
      [Copy 100 200 8, Record 3, Copy 200 100 4, Sync_event 3])) =
   snd (cu_stream_synchronize (stub_runtime id) 1
      (foldl (run_call (cu_memcpy_h2d_async (stub_runtime id) 1) (cu_event_record (stub_runtime id) 1)
        (cu_event_synchronize (stub_runtime id)) (cu_stream_synchronize (stub_runtime id) 1)) (\<lparr>stub_next = 4, stub_handles = [3, 1]\<rparr>, \<lambda>_. 0)
      [Copy 100 200 8, Record 3, Copy 200 100 4, Sync_event 3]))"
  by (rule backends_agree [OF example_mock_good(1,2)]) (simp_all add: example_mock_good stub_good_def stub_due_def)

end
