(* ===== verification/PrefetcherCuda.thy ===== *)
theory PrefetcherCuda
  imports Prefetcher CudaBackend "HOL-Library.Sublist"
begin

text \<open>
  The class \<^verbatim>\<open>dee::AsyncPrefetcher\<close> in the build with \<^verbatim>\<open>DEE_CUDA\<close>: the parts of \<^verbatim>\<open>src/async_prefetcher.cpp\<close> between
  \<^verbatim>\<open>#ifdef DEE_CUDA\<close> and \<^verbatim>\<open>#else\<close>. What both builds share is that of \<open>Prefetcher\<close>; the fields that only this
  build writes are the record \<open>CudaHandles\<close>, where \<open>ch_events\<close> holds the field \<^verbatim>\<open>event\<close> of the transfers in order. The
  CUDA runtime is a parameter.
\<close>

section \<open>State and operations\<close>

record CudaHandles =
  ch_events :: "nat list"
  ch_stream :: "nat option"
  ch_host_buf :: nat
  ch_host_buf_bytes :: nat

definition handles_new :: CudaHandles where
  "handles_new = \<lparr>ch_events = [], ch_stream = None, ch_host_buf = nullptr, ch_host_buf_bytes = 0\<rparr>"

text \<open>
  \<open>malloc_host\<close> is \<^verbatim>\<open>cudaMallocHost\<close>. If no stream can be created, \<^verbatim>\<open>stream_\<close> points to an uninitialised handle.
\<close>

definition cuda_init_on ::
  "'r Cuda \<Rightarrow> (nat \<Rightarrow> nat) \<Rightarrow> 'r \<times> memory \<Rightarrow> CudaHandles \<Rightarrow> bool \<times> ('r \<times> memory) \<times> CudaHandles" where
  "cuda_init_on cu malloc_host d ch =
     (case cuda_stream_create cu d of (r, d1) \<Rightarrow>
        (case r of
           None \<Rightarrow> (False, d1, ch\<lparr>ch_stream := Some nullptr\<rparr>)
         | Some s \<Rightarrow> (True, d1, ch\<lparr>ch_stream := Some s, ch_host_buf_bytes := 67108864, ch_host_buf := malloc_host 67108864\<rparr>)))"

definition prefetcher_init_on ::
  "'r Cuda \<Rightarrow> (nat \<Rightarrow> nat) \<Rightarrow> 'r \<times> memory \<Rightarrow> AsyncPrefetcher \<times> CudaHandles \<Rightarrow> bool \<Rightarrow>
     bool \<times> ('r \<times> memory) \<times> AsyncPrefetcher \<times> CudaHandles" where
  "prefetcher_init_on cu malloc_host d p use_cuda =
     (let pf1 = (fst p)\<lparr>p_use_cuda := use_cuda\<rparr>
      in if use_cuda then (case cuda_init_on cu malloc_host d (snd p) of (ok, d1, ch) \<Rightarrow> (ok, d1, pf1, ch))
         else (True, d, pf1, snd p))"

text \<open>The failure of the copy is only reported; a transfer whose event cannot be created keeps a null event.\<close>

definition cuda_submit_on :: "'r Cuda \<Rightarrow> 'r \<times> memory \<Rightarrow> AsyncPrefetcher \<Rightarrow> CudaHandles \<Rightarrow> int \<Rightarrow> ('r \<times> memory) \<times> CudaHandles" where
  "cuda_submit_on cu d pf ch idx =
     (if idx < 0 \<or> int (length (p_inflight pf)) \<le> idx then (d, ch)
      else case ch_stream ch of
             None \<Rightarrow> (d, ch)
           | Some s \<Rightarrow>
               let t = p_inflight pf ! nat idx;
                   d1 = snd (cuda_memcpy_async cu d (t_dst t) (t_src t) (t_nbytes t) s)
               in case cuda_event_create cu d1 of (r, d2) \<Rightarrow>
                    (case r of
                       None \<Rightarrow> (d2, ch)
                     | Some ev \<Rightarrow> (cuda_event_record cu d2 ev s, ch\<lparr>ch_events := (ch_events ch)[nat idx := ev]\<rparr>)))"

definition prefetch_on ::
  "'r Cuda \<Rightarrow> 'r \<times> memory \<Rightarrow> AsyncPrefetcher \<times> CudaHandles \<Rightarrow> int \<Rightarrow> int \<Rightarrow> nat \<Rightarrow> nat \<Rightarrow> int \<Rightarrow>
     int \<times> ('r \<times> memory) \<times> AsyncPrefetcher \<times> CudaHandles" where
  "prefetch_on cu d p layer expert src nbytes priority =
     (case cache_ensure (p_cache (fst p)) layer expert nbytes priority of (ok, c) \<Rightarrow>
        let pf1 = (fst p)\<lparr>p_cache := c\<rparr>
        in if \<not> ok then (- 1, d, pf1, snd p)
           else
             let dst = cache_data c layer expert
             in if dst = nullptr then (- 1, d, pf1, snd p)
                else
                  let t = \<lparr>t_key = ExpertKey layer expert, t_dst = dst, t_src = src, t_nbytes = nbytes,
                           t_done = False, t_abandoned = False\<rparr>;
                      inflight = p_inflight pf1 @ [t];
                      ch1 = (snd p)\<lparr>ch_events := ch_events (snd p) @ [nullptr]\<rparr>;
                      idx = length inflight - 1;
                      pf2 = pf1\<lparr>p_next_id := p_next_id pf1 + 1,
                        p_inflight := inflight,
                        p_key_to_idx := AList.update (pack_key layer expert) (to_int32 (int idx)) (p_key_to_idx pf1),
                        p_stats := (p_stats pf1)\<lparr>ps_issued := Suc (ps_issued (p_stats pf1))\<rparr>\<rparr>
                  in if p_use_cuda pf2
                     then (case cuda_submit_on cu d pf2 ch1 (int idx) of (d1, ch2) \<Rightarrow> (p_next_id pf1, d1, pf2, ch2))
                     else (p_next_id pf1, d, pf2, ch1))"

definition cuda_wait_on :: "'r Cuda \<Rightarrow> 'r \<times> memory \<Rightarrow> AsyncPrefetcher \<times> CudaHandles \<Rightarrow> int \<Rightarrow> ('r \<times> memory) \<times> AsyncPrefetcher \<times> CudaHandles" where
  "cuda_wait_on cu d p idx =
     (let pf = fst p; ch = snd p; i = nat idx; valid = (0 \<le> idx \<and> idx < int (length (p_inflight pf)));
          d1 = (if valid \<and> ch_events ch ! i \<noteq> nullptr then cuda_event_synchronize cu d (ch_events ch ! i) else d);
          pf1 = (if valid then pf\<lparr>p_inflight := (p_inflight pf)[i := (p_inflight pf ! i)\<lparr>t_done := True\<rparr>]\<rparr> else pf)
      in (d1, pf1, ch))"

definition wait_on ::
  "'r Cuda \<Rightarrow> 'r \<times> memory \<Rightarrow> AsyncPrefetcher \<times> CudaHandles \<Rightarrow> int \<Rightarrow> int \<Rightarrow> bool \<times> ('r \<times> memory) \<times> AsyncPrefetcher \<times> CudaHandles" where
  "wait_on cu d p layer expert =
     (let pf1 = (fst p)\<lparr>p_stats := (p_stats (fst p))\<lparr>ps_waited := Suc (ps_waited (p_stats (fst p)))\<rparr>\<rparr>;
          idx = find_inflight pf1 layer expert
      in if idx < 0
         then (False, d, pf1\<lparr>p_stats := (p_stats pf1)\<lparr>ps_fallbacks := Suc (ps_fallbacks (p_stats pf1))\<rparr>\<rparr>, snd p)
         else if p_use_cuda pf1 then (True, cuda_wait_on cu d (pf1, snd p) idx)
         else case drain_until (snd d) pf1 (to_int32 idx) of (m', pf2) \<Rightarrow>
                (t_done (p_inflight pf2 ! nat idx), (fst d, m'), pf2, snd p))"

definition synchronize_all_on :: "'r Cuda \<Rightarrow> 'r \<times> memory \<Rightarrow> AsyncPrefetcher \<times> CudaHandles \<Rightarrow> ('r \<times> memory) \<times> AsyncPrefetcher \<times> CudaHandles" where
  "synchronize_all_on cu d p =
     (if p_use_cuda (fst p)
      then (case ch_stream (snd p) of None \<Rightarrow> (d, p) | Some s \<Rightarrow> (cuda_stream_synchronize cu d s, p))
      else case drain_until (snd d) (fst p) (to_int32 (int (length (p_inflight (fst p)))) - 1) of (m', pf) \<Rightarrow> ((fst d, m'), pf, snd p))"

definition destroy_events :: "'r Cuda \<Rightarrow> 'r \<times> memory \<Rightarrow> nat list \<Rightarrow> 'r \<times> memory" where
  "destroy_events cu d evs = foldl (\<lambda>d e. if e \<noteq> nullptr then cuda_event_destroy cu d e else d) d evs"

definition prefetcher_reset_on :: "'r Cuda \<Rightarrow> 'r \<times> memory \<Rightarrow> AsyncPrefetcher \<times> CudaHandles \<Rightarrow> ('r \<times> memory) \<times> AsyncPrefetcher \<times> CudaHandles" where
  "prefetcher_reset_on cu d p =
     (destroy_events cu d (ch_events (snd p)), prefetcher_reset (fst p), (snd p)\<lparr>ch_events := []\<rparr>)"

text \<open>The destructor; \<open>free_host\<close> is \<^verbatim>\<open>cudaFreeHost\<close>.\<close>

definition prefetcher_destroy_on ::
  "'r Cuda \<Rightarrow> ('r \<times> memory \<Rightarrow> nat \<Rightarrow> 'r \<times> memory) \<Rightarrow> 'r \<times> memory \<Rightarrow> AsyncPrefetcher \<times> CudaHandles \<Rightarrow> ('r \<times> memory) \<times> AsyncPrefetcher \<times> CudaHandles" where
  "prefetcher_destroy_on cu free_host d p =
     (let d1 = destroy_events cu d (ch_events (snd p));
          d2 = (if p_use_cuda (fst p) then (case ch_stream (snd p) of None \<Rightarrow> d1 | Some s \<Rightarrow> cuda_stream_destroy cu d1 s) else d1);
          d3 = (if p_use_cuda (fst p) \<and> ch_host_buf (snd p) \<noteq> nullptr then free_host d2 (ch_host_buf (snd p)) else d2)
      in (d3, prefetcher_destroy (fst p), (snd p)\<lparr>ch_events := []\<rparr>))"

section \<open>The queue of copies and the transfers\<close>

definition transfer_copy :: "Transfer \<Rightarrow> copy" where
  "transfer_copy t = (t_dst t, t_src t, t_nbytes t)"

text \<open>All copies of a queue go to the device region, so the memory outside of it stays as it is.\<close>

definition inside :: "region \<Rightarrow> copy list \<Rightarrow> bool" where
  "inside sp q \<longleftrightarrow> (\<forall>c \<in> set q. span (fst c) (snd (snd c)) \<subseteq> span (fst sp) (snd sp))"

lemma inside_simps [simp]: "inside sp []" "inside sp (q @ q') \<longleftrightarrow> inside sp q \<and> inside sp q'"
  by (auto simp: inside_def simp del: mem_span)

lemma inside_take_drop: "inside sp q \<Longrightarrow> inside sp (take j q) \<and> inside sp (drop j q)"
  unfolding inside_def by (blast dest: in_set_takeD in_set_dropD)

lemma inside_transfer: "transfer_ok src n sp t \<Longrightarrow> inside sp [transfer_copy t]"
  by (auto simp: inside_def transfer_copy_def transfer_ok_def simp del: mem_span)

lemma inside_run:
  assumes "inside sp q" and "x \<in> - span (fst sp) (snd sp)"
  shows "run_copies m q x = m x"
proof (rule copies_outside)
  fix dst src k assume "(dst, src, k) \<in> set q"
  then have "span dst k \<subseteq> span (fst sp) (snd sp)" using assms(1) unfolding inside_def by fastforce
  then show "x \<notin> span dst k" using assms(2) by blast
qed

lemma inside_advanced:
  assumes "advanced m q j m' q'" and "inside sp q"
  shows "inside sp q'" "\<forall>x \<in> - span (fst sp) (snd sp). m' x = m x"
proof -
  have q: "q' = drop j q" "m' = run_copies m (take j q)" using assms(1) by (simp_all add: advanced_def)
  show "inside sp q'" unfolding q using inside_take_drop [OF assms(2)] by blast
  show "\<forall>x \<in> - span (fst sp) (snd sp). m' x = m x"
    unfolding q using inside_run [of sp "take j q"] inside_take_drop [OF assms(2)] by blast
qed

text \<open>
  \<open>q\<close> are the pending copies, \<open>u e\<close> the number of them that the event \<open>e\<close> waits for, \<open>ts\<close> the transfers and \<open>evs\<close> their
  events. The pending copies are the last ones submitted, possibly before a reset; the event of a transfer waits at least for every
  pending copy up to its own; once everything pending has run, the block of a transfer that no later one
  overwrites holds its source.
\<close>

definition flow ::
  "(ExpertKey \<Rightarrow> nat) \<Rightarrow> nat \<Rightarrow> region \<Rightarrow> Transfer list \<Rightarrow> nat list \<Rightarrow> copy list \<Rightarrow> (nat \<Rightarrow> nat option) \<Rightarrow> memory \<Rightarrow> bool" where
  "flow src n sp ts evs q u m \<longleftrightarrow> away src n sp \<and> (\<forall>t \<in> set ts. transfer_ok src n sp t) \<and> inside sp q \<and>
     (\<exists>hist. suffix q (hist @ map transfer_copy ts)) \<and> distinct evs \<and> length evs \<le> length ts \<and>
     (\<forall>i < length evs. evs ! i \<noteq> nullptr \<and> (\<exists>k. u (evs ! i) = Some k \<and> length q \<le> k + (length ts - Suc i))) \<and>
     (\<forall>i < length ts. current n ts i \<longrightarrow> same_bytes (run_copies m q) (t_dst (ts ! i)) (t_src (ts ! i)) n)"

lemma flowD:
  assumes "flow src n sp ts evs q u m"
  shows "away src n sp" "\<forall>t \<in> set ts. transfer_ok src n sp t" "inside sp q" "\<exists>hist. suffix q (hist @ map transfer_copy ts)"
    "distinct evs" "length evs \<le> length ts" "i < length evs \<Longrightarrow> evs ! i \<noteq> nullptr"
    "i < length evs \<Longrightarrow> \<exists>k. u (evs ! i) = Some k \<and> length q \<le> k + (length ts - Suc i)"
    "i < length ts \<Longrightarrow> current n ts i \<Longrightarrow> same_bytes (run_copies m q) (t_dst (ts ! i)) (t_src (ts ! i)) n"
  using assms unfolding flow_def by blast+

lemma flow_event_known: "flow src n sp ts evs q u m \<Longrightarrow> e \<in> set evs \<Longrightarrow> \<exists>k. u e = Some k"
  using flowD(8) by (metis in_set_conv_nth)

lemma flow_advance:
  assumes f: "flow src n sp ts evs q u m" and a: "advanced m q j m' q'"
    and u: "\<And>e k. e \<in> set evs \<Longrightarrow> u e = Some k \<Longrightarrow> u' e = Some (k - j)"
  shows "flow src n sp ts evs q' u' m'"
proof -
  note f' = flowD [OF f]
  have q: "q' = drop j q" using a by (simp add: advanced_def)
  have "\<exists>hist. suffix q' (hist @ map transfer_copy ts)"
    using f'(4) suffix_drop unfolding q by (metis suffix_order.trans)
  moreover have "\<exists>k. u' (evs ! i) = Some k \<and> length q' \<le> k + (length ts - Suc i)" if i: "i < length evs" for i
  proof -
    obtain k where k: "u (evs ! i) = Some k" "length q \<le> k + (length ts - Suc i)" using f'(8) [OF i] by blast
    then have "u' (evs ! i) = Some (k - j)" using u i by simp
    moreover have "length q' \<le> k - j + (length ts - Suc i)" using k(2) unfolding q by simp
    ultimately show ?thesis by blast
  qed
  ultimately show ?thesis
    using f'(1,2,5-7,9) inside_advanced(1) [OF a f'(3)] unfolding flow_def advanced_run [OF a] by blast
qed

lemma flow_snoc:
  assumes f: "flow src n sp ts evs q u m" and t: "transfer_ok src n sp t"
  shows "flow src n sp (ts @ [t]) evs (q @ [transfer_copy t]) u m"
proof -
  note f' = flowD [OF f]
  have "\<exists>hist. suffix (q @ [transfer_copy t]) (hist @ map transfer_copy (ts @ [t]))"
    using f'(4) by (auto simp: suffix_def)
  moreover have "\<exists>k. u (evs ! i) = Some k \<and> length (q @ [transfer_copy t]) \<le> k + (length (ts @ [t]) - Suc i)"
    if i: "i < length evs" for i using f'(8) [OF i] i f'(6) by fastforce
  moreover have "same_bytes (run_copies m (q @ [transfer_copy t])) (t_dst ((ts @ [t]) ! i)) (t_src ((ts @ [t]) ! i)) n"
    if i: "i < length (ts @ [t])" and c: "current n (ts @ [t]) i" for i
  proof -
    have r: "run_copies m (q @ [transfer_copy t]) = memcpy (run_copies m q) (t_dst t) (t_src t) n"
      using t by (simp add: run_one_def transfer_copy_def transfer_ok_def)
    have aw: "span (src k) n \<inter> span (t_dst t) n = {}" for k
      using f'(1) t unfolding away_def transfer_ok_def by blast
    show ?thesis
    proof (cases "i = length ts")
      case True
      then show ?thesis using memcpy_same_bytes aw t unfolding r by (simp add: transfer_ok_def)
    next
      case False
      then have i': "i < length ts" using i by simp
      then have c': "current n ts i" "span (t_dst (ts ! i)) n \<inter> span (t_dst t) n = {}"
        using c current_append_old by blast+
      have "t_src (ts ! i) = src (t_key (ts ! i))" using f'(2) i' by (simp add: transfer_ok_def)
      then show ?thesis
        using memcpy_frame [OF f'(9) [OF i' c'(1)] c'(2)] aw i' unfolding r by (simp add: nth_append)
    qed
  qed
  ultimately show ?thesis
    using f'(1,2,3,5-7) t inside_transfer [OF t] unfolding flow_def by simp
qed

lemma flow_event:
  assumes f: "flow src n sp ts evs q u m" and e: "e \<noteq> nullptr" "e \<notin> set evs" "u e = Some (length q)"
    and l: "length evs < length ts"
  shows "flow src n sp ts (evs @ [e]) q u m"
proof -
  note f' = flowD [OF f]
  have "(evs @ [e]) ! i \<noteq> nullptr \<and> (\<exists>k. u ((evs @ [e]) ! i) = Some k \<and> length q \<le> k + (length ts - Suc i))"
    if "i < length (evs @ [e])" for i
    using that f'(7,8) e by (cases "i = length evs") (auto simp: nth_append less_Suc_eq)
  then show ?thesis using f'(1-5,9) e(2) l unfolding flow_def by simp
qed

text \<open>When the event of a transfer has been waited for, only later transfers are pending, and they leave its block alone.\<close>

lemma flow_arrived:
  assumes f: "flow src n sp ts evs q u m" and i: "i < length ts" and c: "current n ts i" and l: "length q + Suc i \<le> length ts"
  shows "same_bytes m (t_dst (ts ! i)) (t_src (ts ! i)) n"
proof -
  note f' = flowD [OF f]
  obtain hist where "suffix q (hist @ map transfer_copy ts)" using f'(4) by blast
  moreover have "suffix (map transfer_copy (drop (Suc i) ts)) (hist @ map transfer_copy ts)"
    using suffix_drop [of "Suc i" "map transfer_copy ts"] by (auto simp: suffix_append drop_map)
  ultimately have q: "suffix q (map transfer_copy (drop (Suc i) ts))"
    by (rule suffix_length_suffix) (use l in simp)
  have off: "run_copies m q x = m x" if x: "x \<in> span (t_dst (ts ! i)) n \<union> span (t_src (ts ! i)) n" for x
  proof (rule copies_outside)
    fix dst s k assume "(dst, s, k) \<in> set q"
    then have "(dst, s, k) \<in> set (map transfer_copy (drop (Suc i) ts))" using set_mono_suffix [OF q] by blast
    then obtain j' where "j' < length (drop (Suc i) ts)" "(dst, s, k) = transfer_copy (drop (Suc i) ts ! j')"
      by (auto simp: in_set_conv_nth simp del: length_drop)
    then obtain j where j: "j < length ts" "i < j" "dst = t_dst (ts ! j)" "k = t_nbytes (ts ! j)"
      using i by (intro that [of "Suc i + j'"]) (auto simp: transfer_copy_def)
    then have t: "transfer_ok src n sp (ts ! j)" "transfer_ok src n sp (ts ! i)" using f'(2) i by auto
    have "span (t_dst (ts ! i)) n \<inter> span dst k = {}" using c j t(1) by (simp add: current_def transfer_ok_def del: mem_span)
    moreover have "span (t_src (ts ! i)) n \<inter> span dst k = {}"
    proof -
      have "span dst k \<subseteq> span (fst sp) (snd sp)" using t(1) j by (simp add: transfer_ok_def del: mem_span)
      moreover have "t_src (ts ! i) = src (t_key (ts ! i))" using t(2) by (simp add: transfer_ok_def)
      ultimately show ?thesis using f'(1) unfolding away_def by fastforce
    qed
    ultimately show "x \<notin> span dst k" using x by blast
  qed
  have "run_copies m q (t_dst (ts ! i) + j) = m (t_dst (ts ! i) + j)" "run_copies m q (t_src (ts ! i) + j) = m (t_src (ts ! i) + j)"
    if "j < n" for j using off that by simp_all
  then show ?thesis using f'(9) [OF i c] by (simp add: same_bytes_def)
qed

lemma flow_shape:
  assumes "flow src n sp ts evs q u m" and "length ts' = length ts"
    and "\<And>i. i < length ts \<Longrightarrow> \<exists>b. ts' ! i = (ts ! i)\<lparr>t_done := b\<rparr>"
  shows "flow src n sp ts' evs q u m"
proof -
  note f' = flowD [OF assms(1)]
  have eq: "t_dst (ts' ! i) = t_dst (ts ! i)" "t_src (ts' ! i) = t_src (ts ! i)" "transfer_copy (ts' ! i) = transfer_copy (ts ! i)"
    "transfer_ok src n sp (ts' ! i)" if "i < length ts" for i
  proof -
    have "transfer_ok src n sp (ts ! i)" using f'(2) that by simp
    then show "t_dst (ts' ! i) = t_dst (ts ! i)" "t_src (ts' ! i) = t_src (ts ! i)" "transfer_copy (ts' ! i) = transfer_copy (ts ! i)"
      "transfer_ok src n sp (ts' ! i)" using assms(3) [OF that] by (auto simp: transfer_copy_def transfer_ok_def simp del: mem_span)
  qed
  have "map transfer_copy ts' = map transfer_copy ts" "map t_dst ts' = map t_dst ts"
    using eq assms(2) by (auto intro!: nth_equalityI)
  moreover from this have "current n ts' i = current n ts i" for i using current_cong by blast
  moreover have "\<forall>t \<in> set ts'. transfer_ok src n sp t" using eq(4) assms(2) by (metis in_set_conv_nth)
  ultimately show ?thesis using f' eq assms(2) unfolding flow_def by simp
qed

lemma marked_done: "i < length ts \<Longrightarrow> \<exists>b. ts[j := (ts ! j)\<lparr>t_done := True\<rparr>] ! i = (ts ! i)\<lparr>t_done := b\<rparr>"
proof (cases "i = j")
  case False
  then show ?thesis by (intro exI [of _ "t_done (ts ! i)"]) simp
qed auto

lemma flow_idle:
  assumes "flow src n sp ts evs q u m" and "\<And>e k. u e = Some k \<Longrightarrow> u' e = Some 0"
  shows "flow src n sp ts evs [] u' (run_copies m q)"
  using flowD [OF assms(1)] assms(2) unfolding flow_def by (auto simp del: mem_span) blast

lemma flow_restart:
  assumes "flow src n sp ts evs q u m"
  shows "flow src n sp [] [] q u' m"
proof -
  have "suffix q ([] @ q)" by simp
  then have "\<exists>hist. suffix q (hist @ map transfer_copy [])" by (metis append_Nil append_Nil2 list.simps(8))
  then show ?thesis using flowD(1,3) [OF assms] unfolding flow_def by simp
qed

section \<open>The prefetcher on a runtime that keeps its contract\<close>

definition cuda_inv ::
  "('r \<Rightarrow> bool) \<Rightarrow> ('r \<Rightarrow> copy list) \<Rightarrow> ('r \<Rightarrow> nat \<Rightarrow> nat option) \<Rightarrow> nat \<Rightarrow> (ExpertKey \<Rightarrow> nat) \<Rightarrow> nat \<Rightarrow> region \<Rightarrow>
     ('r \<times> memory) \<times> AsyncPrefetcher \<times> CudaHandles \<Rightarrow> bool" where
  "cuda_inv good pend due s src n sp st \<longleftrightarrow> (case st of ((d, m), pf, ch) \<Rightarrow>
     good d \<and> cache_ok n (p_cache pf) \<and> cache_space (p_cache pf) = sp \<and> p_use_cuda pf \<and> ch_stream ch = Some s \<and>
     length (p_inflight pf) < 2 ^ 31 \<and> (\<forall>k. src k \<noteq> nullptr) \<and> index_ok n pf \<and>
     length (ch_events ch) = length (p_inflight pf) \<and> flow src n sp (p_inflight pf) (ch_events ch) (pend d) (due d) m)"

lemma cuda_invD:
  assumes "cuda_inv good pend due s src n sp ((d, m), pf, ch)"
  shows "good d" "cache_ok n (p_cache pf)" "cache_space (p_cache pf) = sp" "p_use_cuda pf" "ch_stream ch = Some s"
    "length (p_inflight pf) < 2 ^ 31" "src k \<noteq> nullptr" "index_ok n pf" "length (ch_events ch) = length (p_inflight pf)"
    "flow src n sp (p_inflight pf) (ch_events ch) (pend d) (due d) m"
  using assms by (simp_all add: cuda_inv_def)

lemma cuda_inv_stats: "cuda_inv good pend due s src n sp (d, pf\<lparr>p_stats := x\<rparr>, ch) = cuda_inv good pend due s src n sp (d, pf, ch)"
  by (simp add: cuda_inv_def index_ok_def split: prod.splits)

definition arrived :: "('r \<Rightarrow> copy list) \<Rightarrow> ('r \<times> memory) \<times> AsyncPrefetcher \<times> CudaHandles \<Rightarrow> int \<Rightarrow> int \<Rightarrow> bool" where
  "arrived pend st l e \<longleftrightarrow> (case st of ((d, m), pf, ch) \<Rightarrow>
     \<exists>j. map_of (p_key_to_idx pf) (pack_key l e) = Some j \<and> length (pend d) + Suc (nat j) \<le> length (p_inflight pf))"

text \<open>Events can always be created; a copy that the runtime refuses is not covered by its contract.\<close>

locale streaming = event_runtime good pend due "cu_memcpy_h2d_async cu s" "cu_event_record cu s" "cu_event_synchronize cu"
    "cu_stream_synchronize cu s" "cuda_event_create cu" "cuda_event_destroy cu"
  for good :: "'r \<Rightarrow> bool" and pend :: "'r \<Rightarrow> copy list" and due :: "'r \<Rightarrow> nat \<Rightarrow> nat option" and cu :: "'r Cuda" and s :: nat +
  assumes event_available: "good d \<Longrightarrow> fst (cuda_event_create cu (d, m)) \<noteq> None"
begin

lemma submit_flow:
  assumes g: "good d" and f: "flow src n sp ts evs (pend d) (due d) m" and l: "length evs = length ts"
    and t: "transfer_ok src n sp t" and pf: "p_inflight pf = ts @ [t]" and ch: "ch_stream ch = Some s" "ch_events ch = evs @ [nullptr]"
    and su: "cuda_submit_on cu (d, m) pf ch (int (length ts)) = ((d', m'), ch')"
  shows "good d' \<and> (\<exists>e. ch' = ch\<lparr>ch_events := evs @ [e]\<rparr> \<and> flow src n sp (ts @ [t]) (evs @ [e]) (pend d') (due d') m') \<and>
    (\<forall>x \<in> - span (fst sp) (snd sp). m' x = m x)"
proof -
  obtain d1 m1 where c: "cu_memcpy_h2d_async cu s (d, m) (t_dst t) (t_src t) (t_nbytes t) = (d1, m1)" by fastforce
  obtain j1 where c1: "good d1" "advanced m (pend d @ [transfer_copy t]) j1 m1 (pend d1)"
    "\<And>e k. due d e = Some k \<Longrightarrow> due d1 e = Some (k - j1)"
    using copy_law [OF g c] by (auto simp: transfer_copy_def)
  have f1: "flow src n sp (ts @ [t]) evs (pend d1) (due d1) m1" by (rule flow_advance [OF flow_snoc [OF f t] c1(2,3)])
  obtain e d2 m2 where ev: "cuda_event_create cu (d1, m1) = (Some e, d2, m2)"
    using event_available [OF c1(1), of m1] by (metis fst_conv option.exhaust prod.exhaust)
  obtain j2 where c2: "good d2" "advanced m1 (pend d1) j2 m2 (pend d2)" "\<And>e k. due d1 e = Some k \<Longrightarrow> due d2 e = Some (k - j2)"
    "e \<noteq> nullptr" "due d1 e = None" "due d2 e = Some 0"
    using create_law [OF c1(1) ev] by auto
  have f2: "flow src n sp (ts @ [t]) evs (pend d2) (due d2) m2" by (rule flow_advance [OF f1 c2(2,3)])
  have new: "e \<notin> set evs" using flow_event_known [OF f1] c2(5) by fastforce
  have s3: "cu_event_record cu s (d2, m2) e = (d', m')" and ch': "ch' = ch\<lparr>ch_events := evs @ [e]\<rparr>"
    using su c ev pf ch l
    by (simp_all add: cuda_submit_on_def cu_memcpy_h2d_async_def cu_event_record_def Let_def list_update_append)
  have "due d2 e \<noteq> None" using c2(6) by simp
  then obtain j3 where c3: "good d'" "advanced m2 (pend d2) j3 m' (pend d')" "due d' e = Some (length (pend d'))"
    "\<And>e' k. e' \<noteq> e \<Longrightarrow> due d2 e' = Some k \<Longrightarrow> due d' e' = Some (k - j3)"
    using record_law [OF c2(1) _ s3] by blast
  have "flow src n sp (ts @ [t]) evs (pend d') (due d') m'"
    by (rule flow_advance [OF f2 c3(2)]) (metis c3(4) new)
  then have "flow src n sp (ts @ [t]) (evs @ [e]) (pend d') (due d') m'"
    by (rule flow_event) (use c2(4) new c3(3) l in simp_all)
  moreover have "m' x = m x" if "x \<in> - span (fst sp) (snd sp)" for x
    using inside_advanced(2) [OF c3(2) flowD(3) [OF f2]] inside_advanced(2) [OF c2(2) flowD(3) [OF f1]]
      inside_advanced(2) [OF c1(2) flowD(3) [OF flow_snoc [OF f t]]] that by simp
  ultimately show ?thesis using c3(1) ch' by blast
qed

lemma prefetch_on_inv:
  assumes inv: "cuda_inv good pend due s src n sp ((d, m), pf, ch)" and le: "is_int32 l" "is_int32 e"
    and len: "Suc (length (p_inflight pf)) < 2 ^ 31"
    and pr: "prefetch_on cu (d, m) (pf, ch) l e (src (ExpertKey l e)) n p = (r, (d', m'), pf', ch')"
  shows "cuda_inv good pend due s src n sp ((d', m'), pf', ch')" "\<forall>x \<in> - span (fst sp) (snd sp). m' x = m x"
    "(r, pf') = prefetch pf l e (src (ExpertKey l e)) n p"
proof -
  note i = cuda_invD [OF inv]
  obtain c a k where c: "cache_ensure (p_cache pf) l e n p = (True, c)"
    "cache_region c (ExpertKey l e) = Some (a, k)" "cache_ok n c" "cache_space c = cache_space (p_cache pf)"
    "a \<noteq> nullptr" "span a n \<subseteq> span (fst (cache_space c)) (snd (cache_space c))"
    by (rule prefetch_eq [OF i(2), where l = l and e = e and p = p])
  define t where "t = \<lparr>t_key = ExpertKey l e, t_dst = a, t_src = src (ExpertKey l e), t_nbytes = n, t_done = False, t_abandoned = False\<rparr>"
  define pf2 where "pf2 = pf\<lparr>p_cache := c, p_next_id := p_next_id pf + 1, p_inflight := p_inflight pf @ [t],
       p_key_to_idx := AList.update (pack_key l e) (to_int32 (int (length (p_inflight pf)))) (p_key_to_idx pf),
       p_stats := (p_stats pf)\<lparr>ps_issued := Suc (ps_issued (p_stats pf))\<rparr>\<rparr>"
  let ?ch = "ch\<lparr>ch_events := ch_events ch @ [nullptr]\<rparr>"
  have su: "cuda_submit_on cu (d, m) pf2 ?ch (int (length (p_inflight pf))) = ((d', m'), ch')" and pf': "pf' = pf2" "r = p_next_id pf"
    using pr c(1,2,5) i(4) by (auto simp: prefetch_on_def cache_data_region t_def pf2_def Let_def split: prod.splits)
  have t: "transfer_ok src n sp t" using c(4-6) i(3,7) by (simp add: t_def transfer_ok_def del: mem_span)
  have sf: "good d' \<and> (\<exists>v. ch' = ?ch\<lparr>ch_events := ch_events ch @ [v]\<rparr> \<and>
      flow src n sp (p_inflight pf @ [t]) (ch_events ch @ [v]) (pend d') (due d') m') \<and> (\<forall>x \<in> - span (fst sp) (snd sp). m' x = m x)"
    by (rule submit_flow [OF i(1,10,9) t _ _ _ su]) (simp_all add: pf2_def i(5))
  have "index_ok n pf2"
    by (rule prefetch_index [OF i(8,2) le c(1,3,2), where t = t])
      (simp_all add: t_def pf2_def int32_length [OF Suc_lessD [OF len]])
  then show "cuda_inv good pend due s src n sp ((d', m'), pf', ch')"
    using sf i(3-5,7,9) c(3,4) len by (auto simp: cuda_inv_def pf' pf2_def)
  show "\<forall>x \<in> - span (fst sp) (snd sp). m' x = m x" using sf by blast
  show "(r, pf') = prefetch pf l e (src (ExpertKey l e)) n p"
    using c(1,2,5) by (simp add: pf' pf2_def prefetch_def cache_data_region t_def cuda_submit_def Let_def)
qed

text \<open>The transfer of an expert has arrived: at most the copies of later transfers are pending.\<close>

lemma arrived_bytes:
  assumes inv: "cuda_inv good pend due s src n sp ((d, m), pf, ch)" and le: "is_int32 l" "is_int32 e"
    and a: "arrived pend ((d, m), pf, ch) l e" and r: "cache_region (p_cache pf) (ExpertKey l e) = Some (a, k)"
  shows "same_bytes m a (src (ExpertKey l e)) n"
proof -
  note i = cuda_invD [OF inv]
  obtain j where j: "map_of (p_key_to_idx pf) (pack_key l e) = Some j" "length (pend d) + Suc (nat j) \<le> length (p_inflight pf)"
    using a by (auto simp: arrived_def)
  note ix = index_okD [OF i(8) le j(1)]
  have jl: "nat j < length (p_inflight pf)" using ix(1,2) by linarith
  show ?thesis
    using flow_arrived [OF i(10) jl _ j(2)] ix(3,4) r flowD(2) [OF i(10)] nth_mem [OF jl] by (simp add: transfer_ok_def)
qed

lemma wait_on_inv:
  assumes inv: "cuda_inv good pend due s src n sp ((d, m), pf, ch)" and le: "is_int32 l" "is_int32 e"
    and w: "wait_on cu (d, m) (pf, ch) l e = (ok, (d', m'), pf', ch')"
  shows "cuda_inv good pend due s src n sp ((d', m'), pf', ch')" "p_cache pf' = p_cache pf" "p_key_to_idx pf' = p_key_to_idx pf"
    "ok \<longleftrightarrow> map_of (p_key_to_idx pf) (pack_key l e) \<noteq> None"
    "ok \<Longrightarrow> arrived pend ((d', m'), pf', ch') l e"
    "arrived pend ((d, m), pf, ch) l2 e2 \<Longrightarrow> arrived pend ((d', m'), pf', ch') l2 e2"
    "\<forall>x \<in> - span (fst sp) (snd sp). m' x = m x"
proof -
  note i = cuda_invD [OF inv]
  let ?pf = "pf\<lparr>p_stats := (p_stats pf)\<lparr>ps_waited := Suc (ps_waited (p_stats pf))\<rparr>\<rparr>"
  have "cuda_inv good pend due s src n sp ((d', m'), pf', ch') \<and> p_cache pf' = p_cache pf \<and> p_key_to_idx pf' = p_key_to_idx pf \<and>
    ok = (map_of (p_key_to_idx pf) (pack_key l e) \<noteq> None) \<and> (ok \<longrightarrow> arrived pend ((d', m'), pf', ch') l e) \<and>
    (arrived pend ((d, m), pf, ch) l2 e2 \<longrightarrow> arrived pend ((d', m'), pf', ch') l2 e2) \<and> (\<forall>x \<in> - span (fst sp) (snd sp). m' x = m x)"
  proof (cases "map_of (p_key_to_idx pf) (pack_key l e)")
    case None
    then obtain st where "m' = m" "d' = d" "\<not> ok" "pf' = pf\<lparr>p_stats := st\<rparr>" "ch' = ch"
      using w by (auto simp: wait_on_def find_inflight_def Let_def)
    then show ?thesis using None inv cuda_inv_stats by (fastforce simp: arrived_def)
  next
    case (Some j)
    note ix = index_okD [OF i(8) le Some]
    have j: "nat j < length (p_inflight pf)" "nat j < length (ch_events ch)" using ix(1,2) i(9) by linarith+
    let ?ev = "ch_events ch ! nat j" and ?ts = "(p_inflight pf)[nat j := (p_inflight pf ! nat j)\<lparr>t_done := True\<rparr>]"
    obtain q where q: "due d ?ev = Some q" "length (pend d) \<le> q + (length (p_inflight pf) - Suc (nat j))" using flowD(8) [OF i(10) j(2)] by blast
    have sy: "cu_event_synchronize cu (d, m) ?ev = (d', m')" and r: "ok" "pf' = ?pf\<lparr>p_inflight := ?ts\<rparr>" "ch' = ch"
      using w ix(1,2) i(4) Some flowD(7) [OF i(10) j(2)]
      by (auto simp: wait_on_def cuda_wait_on_def find_inflight_def cu_event_synchronize_def Let_def)
    obtain x where x: "q \<le> x" "good d'" "advanced m (pend d) x m' (pend d')" "\<And>e k. due d e = Some k \<Longrightarrow> due d' e = Some (k - x)"
      using sync_event_law [OF i(1) q(1) sy] by blast
    have fl: "flow src n sp (p_inflight pf) (ch_events ch) (pend d') (due d') m'" by (rule flow_advance [OF i(10) x(3,4)])
    have "flow src n sp ?ts (ch_events ch) (pend d') (due d') m'" by (rule flow_shape [OF fl]) (simp_all add: marked_done)
    moreover have "index_ok n pf'" using index_ok_shape [OF i(8) shape_update [OF j(1)]] by (simp add: index_ok_def r(2))
    ultimately have inv': "cuda_inv good pend due s src n sp ((d', m'), pf', ch')" using i x(2) by (simp add: cuda_inv_def r)
    have l: "length (pend d') + Suc (nat j) \<le> length (p_inflight pf)" "length (pend d') \<le> length (pend d)"
      using x(1,3) q(2) j(1) by (simp_all add: advanced_def)
    then have "arrived pend ((d', m'), pf', ch') l e" using Some by (simp add: arrived_def r)
    moreover have "arrived pend ((d', m'), pf', ch') l2 e2" if "arrived pend ((d, m), pf, ch) l2 e2"
      using that l(2) by (auto simp: arrived_def r intro: le_trans)
    ultimately show ?thesis using inv' r Some inside_advanced(2) [OF x(3) flowD(3) [OF i(10)]] by simp
  qed
  then show "cuda_inv good pend due s src n sp ((d', m'), pf', ch')" "p_cache pf' = p_cache pf" "p_key_to_idx pf' = p_key_to_idx pf"
    "ok \<longleftrightarrow> map_of (p_key_to_idx pf) (pack_key l e) \<noteq> None"
    "ok \<Longrightarrow> arrived pend ((d', m'), pf', ch') l e"
    "arrived pend ((d, m), pf, ch) l2 e2 \<Longrightarrow> arrived pend ((d', m'), pf', ch') l2 e2"
    "\<forall>x \<in> - span (fst sp) (snd sp). m' x = m x"
    by blast+
qed

lemma wait_on_bytes:
  assumes "cuda_inv good pend due s src n sp ((d, m), pf, ch)" and "is_int32 l" "is_int32 e"
    and "wait_on cu (d, m) (pf, ch) l e = (True, (d', m'), pf', ch')" and "cache_region (p_cache pf) (ExpertKey l e) = Some (a, k)"
  shows "same_bytes m' a (src (ExpertKey l e)) n"
proof -
  note w = wait_on_inv [OF assms(1-4)]
  show ?thesis using arrived_bytes [OF w(1) assms(2,3) w(5)] w(2) assms(5) by simp
qed

lemma synchronize_all_on_inv:
  assumes inv: "cuda_inv good pend due s src n sp ((d, m), pf, ch)" and sy: "synchronize_all_on cu (d, m) (pf, ch) = ((d', m'), pf', ch')"
  shows "cuda_inv good pend due s src n sp ((d', m'), pf', ch')" "pf' = pf" "ch' = ch" "pend d' = []"
    "\<forall>x \<in> - span (fst sp) (snd sp). m' x = m x"
proof -
  note i = cuda_invD [OF inv]
  have s: "cu_stream_synchronize cu s (d, m) = (d', m')" and r: "pf' = pf" "ch' = ch"
    using sy i(4,5) by (simp_all add: synchronize_all_on_def cu_stream_synchronize_def)
  have l: "good d'" "m' = run_copies m (pend d)" "pend d' = []" "\<And>e k. due d e = Some k \<Longrightarrow> due d' e = Some 0"
    using sync_stream_law [OF i(1) s] by blast+
  have "flow src n sp (p_inflight pf) (ch_events ch) (pend d') (due d') m'" using flow_idle [OF i(10) l(4)] by (simp add: l)
  then show "cuda_inv good pend due s src n sp ((d', m'), pf', ch')" using i l(1) by (simp add: cuda_inv_def r)
  show "pf' = pf" "ch' = ch" "pend d' = []" using r l(3) by blast+
  show "\<forall>x \<in> - span (fst sp) (snd sp). m' x = m x" 
    using inside_run [OF flowD(3) [OF i(10)]] by (simp add: l)
qed

lemma destroy_events_flow:
  assumes "good d" and "flow src n sp [] [] (pend d) (due d) m" and "destroy_events cu (d, m) evs = (d', m')"
  shows "good d' \<and> flow src n sp [] [] (pend d') (due d') m' \<and> (\<forall>x \<in> - span (fst sp) (snd sp). m' x = m x)"
  using assms
proof (induction evs arbitrary: d m)
  case Nil
  then show ?case by (simp add: destroy_events_def)
next
  case (Cons e evs)
  obtain d1 m1 where s: "(if e \<noteq> nullptr then cuda_event_destroy cu (d, m) e else (d, m)) = (d1, m1)" by fastforce
  have "good d1 \<and> (\<exists>j. advanced m (pend d) j m1 (pend d1))"
    using s Cons.prems(1) destroy_law [OF Cons.prems(1), of m e d1 m1] by (auto split: if_splits intro: exI [of _ 0])
  then obtain j where j: "good d1" "advanced m (pend d) j m1 (pend d1)" by blast
  have f: "flow src n sp [] [] (pend d1) (due d1) m1" by (rule flow_advance [OF Cons.prems(2) j(2)]) simp
  have "destroy_events cu (d1, m1) evs = (d', m')" using Cons.prems(3) s by (simp add: destroy_events_def)
  then show ?case
    using Cons.IH [OF j(1) f] inside_advanced(2) [OF j(2) flowD(3) [OF Cons.prems(2)]] by simp
qed

lemma reset_on_inv:
  assumes inv: "cuda_inv good pend due s src n sp ((d, m), pf, ch)" and re: "prefetcher_reset_on cu (d, m) (pf, ch) = ((d', m'), pf', ch')"
  shows "cuda_inv good pend due s src n sp ((d', m'), pf', ch')" "\<forall>x \<in> - span (fst sp) (snd sp). m' x = m x"
    "pf' = prefetcher_reset pf"
proof -
  note i = cuda_invD [OF inv]
  have s: "destroy_events cu (d, m) (ch_events ch) = (d', m')" and r: "pf' = prefetcher_reset pf" "ch' = ch\<lparr>ch_events := []\<rparr>"
    using re by (simp_all add: prefetcher_reset_on_def)
  note f = destroy_events_flow [OF i(1) flow_restart [OF i(10)] s]
  show "cuda_inv good pend due s src n sp ((d', m'), pf', ch')"
    using i f by (simp add: cuda_inv_def r prefetcher_reset_def index_ok_def)
  show "\<forall>x \<in> - span (fst sp) (snd sp). m' x = m x" using f by blast
  show "pf' = prefetcher_reset pf" by (rule r)
qed

end

section \<open>Reachable states\<close>

text \<open>
  Every use of the prefetcher, and the stream itself, which may run pending copies at any time. At most \<open>2 ^ 31 - 1\<close>
  transfers are issued between resets.
\<close>

inductive cuda_step ::
  "('r \<Rightarrow> bool) \<Rightarrow> ('r \<Rightarrow> copy list) \<Rightarrow> ('r \<Rightarrow> nat \<Rightarrow> nat option) \<Rightarrow> 'r Cuda \<Rightarrow> (ExpertKey \<Rightarrow> nat) \<Rightarrow> nat \<Rightarrow>
     ('r \<times> memory) \<times> AsyncPrefetcher \<times> CudaHandles \<Rightarrow> ('r \<times> memory) \<times> AsyncPrefetcher \<times> CudaHandles \<Rightarrow> bool"
  for good pend due cu src n where
  prefetch: "is_int32 l \<Longrightarrow> is_int32 e \<Longrightarrow> Suc (length (p_inflight pf)) < 2 ^ 31 \<Longrightarrow>
    cuda_step good pend due cu src n (d, pf, ch) (snd (prefetch_on cu d (pf, ch) l e (src (ExpertKey l e)) n p))"
| wait: "is_int32 l \<Longrightarrow> is_int32 e \<Longrightarrow> cuda_step good pend due cu src n (d, p) (snd (wait_on cu d p l e))"
| synchronize_all: "cuda_step good pend due cu src n (d, p) (synchronize_all_on cu d p)"
| reset: "cuda_step good pend due cu src n (d, p) (prefetcher_reset_on cu d p)"
| touch: "cuda_step good pend due cu src n (d, pf, ch) (d, pf\<lparr>p_cache := cache_touch (p_cache pf) l e\<rparr>, ch)"
| stream: "good r' \<Longrightarrow> advanced m (pend r) j m' (pend r') \<Longrightarrow> (\<forall>e k. due r e = Some k \<longrightarrow> due r' e = Some (k - j)) \<Longrightarrow>
    cuda_step good pend due cu src n ((r, m), p) ((r', m'), p)"

inductive cuda_reachable ::
  "('r \<Rightarrow> bool) \<Rightarrow> ('r \<Rightarrow> copy list) \<Rightarrow> ('r \<Rightarrow> nat \<Rightarrow> nat option) \<Rightarrow> 'r Cuda \<Rightarrow> nat \<Rightarrow> (ExpertKey \<Rightarrow> nat) \<Rightarrow> nat \<Rightarrow> nat \<Rightarrow>
     ('r \<times> memory) \<times> AsyncPrefetcher \<times> CudaHandles \<Rightarrow> bool"
  for good pend due cu s src n cap where
  start: "cache_init cache_new cap be = (True, c) \<Longrightarrow> 0 < n \<Longrightarrow> n \<le> cap \<Longrightarrow> cap + n < size_mod \<Longrightarrow>
    away src n (cache_space c) \<Longrightarrow> (\<forall>k. src k \<noteq> nullptr) \<Longrightarrow>
    prefetcher_init_on cu malloc_host d0 (prefetcher_new c ring, handles_new) True = (True, (r, m), pf, ch) \<Longrightarrow>
    ch_stream ch = Some s \<Longrightarrow> good r \<Longrightarrow> pend r = [] \<Longrightarrow> cuda_reachable good pend due cu s src n cap ((r, m), pf, ch)"
| step: "cuda_reachable good pend due cu s src n cap st \<Longrightarrow> cuda_step good pend due cu src n st st' \<Longrightarrow>
    cuda_reachable good pend due cu s src n cap st'"

context streaming
begin

lemma cuda_step_inv:
  "cuda_step good pend due cu src n st st' \<Longrightarrow> cuda_inv good pend due s src n sp st \<Longrightarrow> cuda_inv good pend due s src n sp st'"
proof (induction rule: cuda_step.induct)
  case (prefetch l e pf d ch p)
  then show ?case using prefetch_on_inv(1) [of src n sp "fst d" "snd d" pf ch l e p] by (metis prod.collapse)
next
  case (wait l e d p)
  then show ?case using wait_on_inv(1) [of src n sp "fst d" "snd d" "fst p" "snd p" l e] by (metis prod.collapse)
next
  case (synchronize_all d p)
  then show ?case using synchronize_all_on_inv(1) [of src n sp "fst d" "snd d" "fst p" "snd p"] by (metis prod.collapse)
next
  case (reset d p)
  then show ?case using reset_on_inv(1) [of src n sp "fst d" "snd d" "fst p" "snd p"] by (metis prod.collapse)
next
  case (touch d pf ch l e)
  obtain r m where d: "d = (r, m)" by fastforce
  note i = cuda_invD [OF touch [unfolded d]]
  show ?case using i cache_touch_region [OF i(2), of l e] by (simp add: d cuda_inv_def index_ok_def)
next
  case (stream r' m r j m' p)
  obtain pf ch where p: "p = (pf, ch)" by fastforce
  note i = cuda_invD [OF stream(4) [unfolded p]]
  have "flow src n sp (p_inflight pf) (ch_events ch) (pend r') (due r') m'"
    by (rule flow_advance [OF i(10) stream(2)]) (use stream(3) in blast)
  then show ?case using i stream(1) by (simp add: p cuda_inv_def)
qed

lemma cuda_start_inv:
  assumes "cache_init cache_new cap be = (True, c)" "0 < n" "n \<le> cap" "cap + n < size_mod" "away src n (cache_space c)"
    "\<forall>k. src k \<noteq> nullptr" "prefetcher_init_on cu malloc_host d0 (prefetcher_new c ring, handles_new) True = (True, (r, m), pf, ch)"
    "ch_stream ch = Some s" "good r" "pend r = []"
  shows "cuda_inv good pend due s src n (cache_space c) ((r, m), pf, ch)" "pf = (prefetcher_new c ring)\<lparr>p_use_cuda := True\<rparr>"
proof -
  have r: "pf = (prefetcher_new c ring)\<lparr>p_use_cuda := True\<rparr>" "ch_events ch = []"
    using assms(7) by (auto simp: prefetcher_init_on_def cuda_init_on_def handles_new_def split: prod.splits option.splits)
  show "pf = (prefetcher_new c ring)\<lparr>p_use_cuda := True\<rparr>" by (rule r)
  show "cuda_inv good pend due s src n (cache_space c) ((r, m), pf, ch)"
    using assms cache_init_ok [OF assms(1-4)] r by (simp add: prefetcher_new_def cuda_inv_def flow_def index_ok_def)
qed

lemma cuda_reachable_inv:
  assumes "cuda_reachable good pend due cu s src n cap st"
  shows "cuda_inv good pend due s src n (cache_space (p_cache (fst (snd st)))) st"
proof -
  have "\<exists>sp. cuda_inv good pend due s src n sp st"
    using assms by induction (use cuda_start_inv(1) cuda_step_inv in blast)+
  then show ?thesis by (auto simp: cuda_inv_def)
qed

end

interpretation stub_streaming: streaming stub_good "\<lambda>_. []" stub_due "stub_runtime malloc" s for malloc s
  by unfold_locales (simp add: stub_runtime_def stub_new_def)

interpretation mock_streaming: streaming "runtime_good s" "\<lambda>r. mock_pend s (snd r)" "\<lambda>r. mock_due s (snd r)" "mock_runtime nb" s for nb s
  by unfold_locales (simp add: mock_runtime_def mock_fresh_def split: prod.splits)

section \<open>Sequences of prefetches\<close>

fun prefetch_all_on ::
  "'r Cuda \<Rightarrow> (ExpertKey \<Rightarrow> nat) \<Rightarrow> nat \<Rightarrow> (ExpertKey \<times> int) list \<Rightarrow> ('r \<times> memory) \<times> AsyncPrefetcher \<times> CudaHandles \<Rightarrow>
     ('r \<times> memory) \<times> AsyncPrefetcher \<times> CudaHandles" where
  "prefetch_all_on cu src n [] st = st"
| "prefetch_all_on cu src n ((k, p) # ks) st =
     prefetch_all_on cu src n ks (snd (prefetch_on cu (fst st) (snd st) (key_layer k) (key_expert k) (src k) n p))"

lemma prefetch_all_on_append: "prefetch_all_on cu src n (xs @ ys) st = prefetch_all_on cu src n ys (prefetch_all_on cu src n xs st)"
  by (induction cu src n xs st rule: prefetch_all_on.induct) simp_all

context streaming
begin

lemma prefetch_all_on_inv:
  assumes "cuda_inv good pend due s src n sp ((d, m), pf, ch)" and "\<forall>k \<in> fst ` set ks. key_ok k"
    and "length (p_inflight pf) + length ks < 2 ^ 31"
    and "prefetch_all_on cu src n ks ((d, m), pf, ch) = ((d', m'), pf', ch')"
  shows "cuda_inv good pend due s src n sp ((d', m'), pf', ch') \<and> pf' = prefetch_all src n ks pf \<and>
    (\<forall>x \<in> - span (fst sp) (snd sp). m' x = m x) \<and> (\<forall>k. k \<in> fst ` set ks \<or> issued pf k \<longrightarrow> issued pf' k)"
  using assms
proof (induction ks arbitrary: d m pf ch)
  case (Cons x ks)
  obtain k p where x: "x = (k, p)" by fastforce
  have le: "is_int32 (key_layer k)" "is_int32 (key_expert k)" using Cons.prems(2) by (simp_all add: x key_ok_def)
  have len: "Suc (length (p_inflight pf)) < 2 ^ 31" using Cons.prems(3) by simp
  obtain r d1 m1 pf1 ch1 where pr: "prefetch_on cu (d, m) (pf, ch) (key_layer k) (key_expert k) (src k) n p = (r, (d1, m1), pf1, ch1)"
    by (metis prod.exhaust)
  note o = prefetch_on_inv [OF Cons.prems(1) le len, of p r d1 m1 pf1 ch1]
  have o': "cuda_inv good pend due s src n sp ((d1, m1), pf1, ch1)" "\<forall>x \<in> - span (fst sp) (snd sp). m1 x = m x"
    "prefetch pf (key_layer k) (key_expert k) (src k) n p = (r, pf1)"
    using o pr by simp_all
  have q: "length (p_inflight pf1) = Suc (length (p_inflight pf))" "issued pf1 k" "issued pf j \<Longrightarrow> issued pf1 j" for j
    using o'(3) by (cases rule: prefetch_eq [OF cuda_invD(2) [OF Cons.prems(1)], where l = "key_layer k" and e = "key_expert k" and p = p and s = "src k"];
      force simp: issued_def update_conv')+
  have "prefetch_all_on cu src n ks ((d1, m1), pf1, ch1) = ((d', m'), pf', ch')" using Cons.prems(4) pr by (simp add: x)
  from Cons.IH [OF o'(1) _ _ this] show ?case using Cons.prems(2,3) q o'(2,3) by (auto simp: x)
qed simp

lemma prefetch_all_on_reachable:
  assumes "cuda_reachable good pend due cu s src n cap ((d, m), pf, ch)" and "\<forall>k \<in> fst ` set ks. key_ok k"
    and "length (p_inflight pf) + length ks < 2 ^ 31" and "prefetch_all_on cu src n ks ((d, m), pf, ch) = st"
  shows "cuda_reachable good pend due cu s src n cap st"
  using assms
proof (induction ks arbitrary: d m pf ch)
  case (Cons x ks)
  obtain k p where x: "x = (k, p)" by fastforce
  have le: "is_int32 (key_layer k)" "is_int32 (key_expert k)" using Cons.prems(2) by (simp_all add: x key_ok_def)
  have len: "Suc (length (p_inflight pf)) < 2 ^ 31" using Cons.prems(3) by simp
  obtain r d1 m1 pf1 ch1 where pr: "prefetch_on cu (d, m) (pf, ch) (key_layer k) (key_expert k) (src k) n p = (r, (d1, m1), pf1, ch1)"
    by (metis prod.exhaust)
  have inv: "cuda_inv good pend due s src n (cache_space (p_cache pf)) ((d, m), pf, ch)" using cuda_reachable_inv [OF Cons.prems(1)] by simp
  have "prefetch pf (key_layer k) (key_expert k) (src k) n p = (r, pf1)"
    using prefetch_on_inv(3) [OF inv le len, of p r d1 m1 pf1 ch1] pr by simp
  then have "length (p_inflight pf1) = Suc (length (p_inflight pf))"
    by (cases rule: prefetch_eq [OF cuda_invD(2) [OF inv], where l = "key_layer k" and e = "key_expert k" and p = p and s = "src k"]) auto
  moreover have "cuda_reachable good pend due cu s src n cap ((d1, m1), pf1, ch1)"
    using cuda_reachable.step [OF Cons.prems(1) cuda_step.prefetch [OF le len, where d = "(d, m)" and ch = ch and p = p]] pr by simp
  ultimately show ?case using Cons.IH [of d1 m1 pf1 ch1] Cons.prems(2-4) pr by (simp add: x)
qed simp

end

section \<open>Properties\<close>

text \<open>Three experts are prefetched into two slots on the mock device, where all three copies stay pending.\<close>

definition example_cuda :: "((nat \<times> MockCudaDevice) \<times> memory) \<times> AsyncPrefetcher \<times> CudaHandles" where
  "example_cuda = snd (prefetcher_init_on (mock_runtime id) id ((7, device_new), example_memory) (prefetcher_new example_cache 64, handles_new) True)"

definition example_cuda3 :: "((nat \<times> MockCudaDevice) \<times> memory) \<times> AsyncPrefetcher \<times> CudaHandles" where
  "example_cuda3 = prefetch_all_on (mock_runtime id) example_src 256 [(ExpertKey 0 0, 0), (ExpertKey 0 1, 0), (ExpertKey 0 2, 0)] example_cuda"

abbreviation "mock_reach \<equiv> cuda_reachable (runtime_good 7) (\<lambda>r. mock_pend 7 (snd r)) (\<lambda>r. mock_due 7 (snd r)) (mock_runtime id) 7 example_src 256 512"

lemma example_cuda_reachable: "mock_reach example_cuda"
proof -
  have "runtime_good 7 (8, stream_create device_new 7)" "mock_pend 7 (stream_create device_new 7) = []"
    by (simp_all add: runtime_good_def mock_good_def mock_pend_def mock_stream_def stream_create_def device_new_def device_ok_def stream_ok_def)
  then have "mock_reach (((8, stream_create device_new 7), example_memory), (prefetcher_new example_cache 64)\<lparr>p_use_cuda := True\<rparr>,
      handles_new\<lparr>ch_stream := Some 7, ch_host_buf_bytes := 67108864, ch_host_buf := 67108864\<rparr>)"
    by (intro cuda_reachable.start [where malloc_host = id and ring = 64 and ?d0.0 = "((7, device_new), example_memory)",
          OF example_init example_fits example_away example_src_nonnull])
      (simp_all add: prefetcher_init_on_def cuda_init_on_def mock_runtime_def mock_fresh_def)
  then show ?thesis by (simp add: example_cuda_def prefetcher_init_on_def cuda_init_on_def mock_runtime_def mock_fresh_def)
qed

lemma example_cuda3_reachable: "mock_reach example_cuda3"
  and example_cuda3_prefetcher: "fst (snd example_cuda3) = prefetch_all example_src 256 [(ExpertKey 0 0, 0), (ExpertKey 0 1, 0), (ExpertKey 0 2, 0)]
    ((prefetcher_new example_cache 64)\<lparr>p_use_cuda := True\<rparr>)"
proof -
  let ?ks = "[(ExpertKey 0 0, 0), (ExpertKey 0 1, 0), (ExpertKey 0 2, 0)] :: (ExpertKey \<times> int) list"
  obtain d m pf ch where e: "example_cuda = ((d, m), pf, ch)" by (metis prod.exhaust)
  obtain d' m' pf' ch' where e3: "prefetch_all_on (mock_runtime id) example_src 256 ?ks ((d, m), pf, ch) = ((d', m'), pf', ch')"
    by (metis prod.exhaust)
  have pf: "pf = (prefetcher_new example_cache 64)\<lparr>p_use_cuda := True\<rparr>"
    using e by (auto simp: example_cuda_def prefetcher_init_on_def cuda_init_on_def mock_runtime_def mock_fresh_def)
  have "\<forall>k \<in> fst ` set ?ks. key_ok k" "length (p_inflight pf) + length ?ks < 2 ^ 31"
    by (simp_all add: key_ok_def is_int32_def pf prefetcher_new_def)
  note ks = this
  have r: "mock_reach ((d, m), pf, ch)" using example_cuda_reachable e by simp
  have "pf' = prefetch_all example_src 256 ?ks pf"
    using mock_streaming.prefetch_all_on_inv [OF mock_streaming.cuda_reachable_inv [OF r, simplified] ks e3] by blast
  then show "fst (snd example_cuda3) = prefetch_all example_src 256 ?ks ((prefetcher_new example_cache 64)\<lparr>p_use_cuda := True\<rparr>)"
    using e3 by (simp add: example_cuda3_def e pf)
  show "mock_reach example_cuda3" using mock_streaming.prefetch_all_on_reachable [OF r ks refl] by (simp add: example_cuda3_def e)
qed



text \<open>
  C40: a copy that fails is only printed. If the runtime refuses every copy and so writes nothing, prefetching an expert still
  returns a transfer, waiting for it still returns true and the expert is resident, although its weights are not there.
\<close>

theorem failed_copy_reported_ready:
  assumes "\<forall>d dst s k st. cuda_memcpy_async cu d dst s k st = (False, d)"
    and "\<forall>d. snd (snd (cuda_event_create cu d)) = snd d" and "\<forall>d e st. snd (cuda_event_record cu d e st) = snd d"
    and "\<forall>d e. snd (cuda_event_synchronize cu d e) = snd d"
    and "cache_ok n (p_cache pf)" and "p_use_cuda pf" and "length (p_inflight pf) < 2 ^ 31"
    and "prefetch_on cu d (pf, ch) l e src n p = (r, d1, p1)" and "wait_on cu d1 p1 l e = (ok, d2, p2)"
  shows "r = p_next_id pf \<and> ok \<and> cache_is_resident (p_cache (fst p2)) l e \<and> snd d2 = snd d"
proof -
  obtain c a k where c: "cache_ensure (p_cache pf) l e n p = (True, c)" "cache_region c (ExpertKey l e) = Some (a, k)" "a \<noteq> nullptr"
    by (rule prefetch_eq [OF assms(5), where l = l and e = e and p = p])
  have su: "snd (fst (cuda_submit_on cu d pf ch i)) = snd d" for pf ch i
  proof -
    have e: "snd d' = snd d" if "cuda_event_create cu d = (x, d')" for x d d' using assms(2) that by (metis snd_conv)
    show ?thesis
      using assms(1,3) e by (cases d) (auto simp: cuda_submit_on_def Let_def split: option.splits prod.splits)
  qed
  obtain pf1 ch1 where p1: "p1 = (pf1, ch1)" by fastforce
  have r: "r = p_next_id pf" "p_cache pf1 = c" "p_use_cuda pf1" "find_inflight pf1 l e = int (length (p_inflight pf))"
    using assms(6,8) c int32_length [OF assms(7)]
    by (auto simp: prefetch_on_def cache_data_region find_inflight_def update_conv' p1 Let_def split: prod.splits)
  have m: "snd d1 = snd d"
  proof -
    obtain pf' ch' i where "d1 = fst (cuda_submit_on cu d pf' ch' i)"
      using assms(6,8) c by (auto simp: prefetch_on_def cache_data_region Let_def split: prod.splits) (metis fst_conv)
    then show ?thesis using su by simp
  qed
  have "find_inflight (pf1\<lparr>p_stats := st\<rparr>) l e = find_inflight pf1 l e" for st by (simp add: find_inflight_def)
  then have "ok" "p_cache (fst p2) = c" "snd d2 = snd d1"
    using assms(4,9) r by (cases d1; auto simp: wait_on_def cuda_wait_on_def p1 Let_def)+
  then show ?thesis using r m c(2) by (simp add: cache_data_region)
qed

definition refusing_runtime :: "Stub Cuda" where
  "refusing_runtime = (stub_runtime id)\<lparr>cuda_memcpy_async := (\<lambda>d dst src bytes s. (False, d))\<rparr>"

theorem failed_copy_reported_ready_witness:
  "\<exists>d pf ch d1 p1 d2 p2. prefetch_on refusing_runtime d (pf, ch) 0 1 200000 256 0 = (0, d1, p1) \<and>
     wait_on refusing_runtime d1 p1 0 1 = (True, d2, p2) \<and> \<not> same_bytes (snd d2) (cache_data (p_cache (fst p2)) 0 1) 200000 256"
proof -
  let ?d = "(\<lparr>stub_next = 1, stub_handles = []\<rparr>, example_memory)"
  let ?pf = "(prefetcher_new example_cache 64)\<lparr>p_use_cuda := True\<rparr>"
  let ?w = "prefetch_on refusing_runtime ?d (?pf, handles_new) 0 1 200000 256 0"
  let ?v = "wait_on refusing_runtime (fst (snd ?w)) (snd (snd ?w)) 0 1"
  have "cache_ok 256 (p_cache ?pf)" using cache_init_ok [OF example_init example_fits] by (simp add: prefetcher_new_def)
  moreover have "?w = (fst ?w, fst (snd ?w), snd (snd ?w))" "?v = (fst ?v, fst (snd ?v), snd (snd ?v))" by simp_all
  ultimately have r: "fst ?w = 0" "fst ?v" "snd (fst (snd ?v)) = example_memory"
    using failed_copy_reported_ready [where cu = refusing_runtime and n = 256 and pf = ?pf and d = ?d]
    by (fastforce simp: refusing_runtime_def stub_runtime_def stub_new_def prefetcher_new_def)+
  moreover have "cache_data (p_cache (fst (snd (snd ?v)))) 0 1 = 4096"
    by (simp add: prefetch_on_def wait_on_def cuda_wait_on_def cuda_submit_on_def prefetcher_eval handles_new_def)
  moreover have "\<not> same_bytes example_memory 4096 200000 256"
    by (auto simp: same_bytes_def example_memory_def intro!: exI [of _ 0])
  ultimately have "?w = (0, fst (snd ?w), snd (snd ?w))" "?v = (True, fst (snd ?v), snd (snd ?v))"
    "\<not> same_bytes (snd (fst (snd ?v))) (cache_data (p_cache (fst (snd (snd ?v)))) 0 1) 200000 256"
    by (simp_all add: prod_eq_iff)
  then show ?thesis by blast
qed

end
