(* ===== verification/BuildsAgree.thy ===== *)
theory BuildsAgree
  imports PrefetcherCuda
begin

text \<open>
  The prefetcher in its two builds, compared call by call: a client that prefetches, waits, synchronises and resets cannot
  tell them apart.
\<close>

section \<open>A client of both builds\<close>

text \<open>The calls of a client, and what the two builds do for them; a wait is recorded as 1 or 0.\<close>

datatype pf_call = Call_prefetch ExpertKey int | Call_wait ExpertKey | Call_synchronize_all | Call_reset

fun call_key :: "pf_call \<Rightarrow> ExpertKey option" where
  "call_key (Call_prefetch k p) = Some k"
| "call_key (Call_wait k) = Some k"
| "call_key Call_synchronize_all = None"
| "call_key Call_reset = None"

fun default_call :: "(ExpertKey \<Rightarrow> nat) \<Rightarrow> nat \<Rightarrow> memory \<times> AsyncPrefetcher \<Rightarrow> pf_call \<Rightarrow> int \<times> memory \<times> AsyncPrefetcher" where
  "default_call src n (m, pf) (Call_prefetch k p) = (case prefetch pf (key_layer k) (key_expert k) (src k) n p of (r, pf') \<Rightarrow> (r, m, pf'))"
| "default_call src n (m, pf) (Call_wait k) = (case wait m pf (key_layer k) (key_expert k) of (ok, mp) \<Rightarrow> (of_bool ok, mp))"
| "default_call src n (m, pf) Call_synchronize_all = (0, synchronize_all m pf)"
| "default_call src n (m, pf) Call_reset = (0, m, prefetcher_reset pf)"

fun cuda_call :: "'r Cuda \<Rightarrow> (ExpertKey \<Rightarrow> nat) \<Rightarrow> nat \<Rightarrow> ('r \<times> memory) \<times> AsyncPrefetcher \<times> CudaHandles \<Rightarrow> pf_call \<Rightarrow>
    int \<times> ('r \<times> memory) \<times> AsyncPrefetcher \<times> CudaHandles" where
  "cuda_call cu src n (d, p) (Call_prefetch k pr) = prefetch_on cu d p (key_layer k) (key_expert k) (src k) n pr"
| "cuda_call cu src n (d, p) (Call_wait k) = (case wait_on cu d p (key_layer k) (key_expert k) of (ok, st) \<Rightarrow> (of_bool ok, st))"
| "cuda_call cu src n (d, p) Call_synchronize_all = (0, synchronize_all_on cu d p)"
| "cuda_call cu src n (d, p) Call_reset = (0, prefetcher_reset_on cu d p)"

fun run_calls :: "('x \<Rightarrow> 'c \<Rightarrow> 'b \<times> 'x) \<Rightarrow> 'x \<Rightarrow> 'c list \<Rightarrow> 'b list \<times> 'x" where
  "run_calls f x [] = ([], x)"
| "run_calls f x (c # cs) = (case f x c of (r, x1) \<Rightarrow> case run_calls f x1 cs of (rs, x2) \<Rightarrow> (r # rs, x2))"

text \<open>What the prefetcher keeps, but for the flags \<^verbatim>\<open>done\<close>, which the two builds set at different times.\<close>

definition books :: "AsyncPrefetcher \<Rightarrow> VramCache \<times> (ExpertKey \<times> nat) list \<times> (64 word \<times> int) list \<times> int \<times> PrefetchStats" where
  "books pf = (p_cache pf, shape (p_inflight pf), p_key_to_idx pf, p_next_id pf, p_stats pf)"

lemma booksD:
  assumes "books pf = books pf'"
  shows "p_cache pf = p_cache pf'" "p_key_to_idx pf = p_key_to_idx pf'" "p_next_id pf = p_next_id pf'" "p_stats pf = p_stats pf'"
    "shape (p_inflight pf) = shape (p_inflight pf')" "length (p_inflight pf) = length (p_inflight pf')"
proof -
  show "p_cache pf = p_cache pf'" "p_key_to_idx pf = p_key_to_idx pf'" "p_next_id pf = p_next_id pf'" "p_stats pf = p_stats pf'"
    "shape (p_inflight pf) = shape (p_inflight pf')" using assms by (simp_all add: books_def)
  then show "length (p_inflight pf) = length (p_inflight pf')" using shape_length by blast
qed

lemma prefetch_books:
  assumes b: "books pf = books pf'" and ok: "cache_ok n (p_cache pf)"
  shows "fst (prefetch pf l e s n p) = fst (prefetch pf' l e s n p)" "books (snd (prefetch pf l e s n p)) = books (snd (prefetch pf' l e s n p))"
    "length (p_inflight (snd (prefetch pf l e s n p))) = Suc (length (p_inflight pf))"
proof -
  note d = booksD [OF b]
  obtain c a k where c: "cache_ensure (p_cache pf) l e n p = (True, c)" "cache_region c (ExpertKey l e) = Some (a, k)" "a \<noteq> nullptr"
    by (rule prefetch_eq [OF ok, where l = l and e = e and p = p])
  show "fst (prefetch pf l e s n p) = fst (prefetch pf' l e s n p)" "books (snd (prefetch pf l e s n p)) = books (snd (prefetch pf' l e s n p))"
    "length (p_inflight (snd (prefetch pf l e s n p))) = Suc (length (p_inflight pf))"
    using c d by (simp_all add: prefetch_def cuda_submit_def books_def shape_def cache_data_region Let_def)
qed

lemma drain_until_rest: "drain_until m pf i = (m', pf') \<Longrightarrow> \<exists>ts. pf' = pf\<lparr>p_inflight := ts\<rparr>"
  by (auto simp: drain_until_def Let_def split: prod.splits)

definition after_wait :: "bool \<Rightarrow> AsyncPrefetcher \<Rightarrow> AsyncPrefetcher" where
  "after_wait ok pf = pf\<lparr>p_stats := (p_stats pf)\<lparr>ps_waited := Suc (ps_waited (p_stats pf)),
     ps_fallbacks := ps_fallbacks (p_stats pf) + of_bool (\<not> ok)\<rparr>\<rparr>"

lemma wait_books:
  assumes inv: "prefetcher_inv src n sp (m, pf)" and le: "is_int32 l" "is_int32 e" and w: "wait m pf l e = (ok, m', pf')"
  shows "books pf' = books (after_wait ok pf)"
proof (cases "map_of (p_key_to_idx pf) (pack_key l e)")
  case None
  then show ?thesis using w by (auto simp: wait_def find_inflight_def after_wait_def Let_def)
next
  case (Some i)
  let ?pf = "pf\<lparr>p_stats := (p_stats pf)\<lparr>ps_waited := Suc (ps_waited (p_stats pf))\<rparr>\<rparr>"
  note ix = index_okD [OF prefetcher_invD(8) [OF inv] le Some]
  have i32: "to_int32 i = i" using ix(1,2) prefetcher_invD(4) [OF inv] int32_length [of "nat i"] by simp
  have dr: "drain_until m ?pf i = (m', pf')"
    using w ix(1) prefetcher_invD(3) [OF inv] i32 Some by (auto simp: wait_def find_inflight_def Let_def split: prod.splits)
  have ok: "ok" using wait_inv(4) [OF inv le w] Some by simp
  have "prefetcher_inv src n sp (m, ?pf)" using inv prefetcher_inv_stats by blast
  then have sh: "shape (p_inflight pf') = shape (p_inflight pf)" using drain_until_inv(4) [OF _ _ dr] ix(2) by simp
  show ?thesis
    using drain_until_rest [OF dr] sh ok by (auto simp: books_def after_wait_def)
qed

lemma books_cong: "books (after_wait ok pf) = books (after_wait ok pf')" if "books pf = books pf'"
  using booksD [OF that] by (simp add: books_def after_wait_def)

context streaming
begin

lemma wait_on_books:
  assumes inv: "cuda_inv good pend due s src n sp ((d, m), pf, ch)" and le: "is_int32 l" "is_int32 e"
    and w: "wait_on cu (d, m) (pf, ch) l e = (ok, d', pf', ch')"
  shows "books pf' = books (after_wait ok pf)"
proof (cases "map_of (p_key_to_idx pf) (pack_key l e)")
  case None
  then show ?thesis using w by (auto simp: wait_on_def find_inflight_def after_wait_def Let_def)
next
  case (Some i)
  note ix = index_okD [OF cuda_invD(8) [OF inv] le Some]
  have "nat i < length (p_inflight pf)" using ix(1,2) by linarith
  then show ?thesis
    using w ix(1,2) cuda_invD(4) [OF inv] Some shape_update
    by (auto simp: wait_on_def cuda_wait_on_def find_inflight_def books_def after_wait_def Let_def)
qed

text \<open>One call in both builds.\<close>

lemma builds_step:
  assumes p: "prefetcher_inv src n sp (m1, pf1)" and q: "cuda_inv good pend due s src n sp ((r, m2), pf2, ch)" and b: "books pf1 = books pf2"
    and k: "\<forall>x. call_key c = Some x \<longrightarrow> key_ok x" and len: "Suc (length (p_inflight pf1)) < 2 ^ 31"
    and d: "default_call src n (m1, pf1) c = (x1, m1', pf1')" and cc: "cuda_call cu src n ((r, m2), pf2, ch) c = (x2, (r', m2'), pf2', ch')"
  shows "prefetcher_inv src n sp (m1', pf1')" "cuda_inv good pend due s src n sp ((r', m2'), pf2', ch')" "books pf1' = books pf2'" "x1 = x2"
    "length (p_inflight pf1') \<le> Suc (length (p_inflight pf1))"
    "\<forall>x \<in> - span (fst sp) (snd sp). m1' x = m1 x \<and> m2' x = m2 x"
proof -
  have "prefetcher_inv src n sp (m1', pf1') \<and> cuda_inv good pend due s src n sp ((r', m2'), pf2', ch') \<and> books pf1' = books pf2' \<and> x1 = x2 \<and>
    length (p_inflight pf1') \<le> Suc (length (p_inflight pf1)) \<and> (\<forall>x \<in> - span (fst sp) (snd sp). m1' x = m1 x \<and> m2' x = m2 x)"
  proof (cases c)
    case (Call_prefetch key pr)
    have le: "is_int32 (key_layer key)" "is_int32 (key_expert key)" using k by (simp_all add: Call_prefetch key_ok_def)
    have r1: "prefetch pf1 (key_layer key) (key_expert key) (src (ExpertKey (key_layer key) (key_expert key))) n pr = (x1, pf1')" "m1' = m1"
      using d by (auto simp: Call_prefetch split: prod.splits)
    have r2: "prefetch_on cu (r, m2) (pf2, ch) (key_layer key) (key_expert key) (src (ExpertKey (key_layer key) (key_expert key))) n pr = (x2, (r', m2'), pf2', ch')"
      using cc by (simp add: Call_prefetch)
    have len2: "Suc (length (p_inflight pf2)) < 2 ^ 31" using len booksD(6) [OF b] by simp
    note o = prefetch_on_inv [OF q le len2 r2]
    note pb = prefetch_books [OF b prefetcher_invD(1) [OF p], of "key_layer key" "key_expert key" "src (ExpertKey (key_layer key) (key_expert key))" pr]
    show ?thesis using prefetch_inv(1) [OF p le len r1(1)] o pb r1 by (metis fst_conv le_refl snd_conv)
  next
    case (Call_wait key)
    have le: "is_int32 (key_layer key)" "is_int32 (key_expert key)" using k by (simp_all add: Call_wait key_ok_def)
    obtain ok1 where w1: "wait m1 pf1 (key_layer key) (key_expert key) = (ok1, m1', pf1')" "x1 = of_bool ok1"
      using d by (auto simp: Call_wait split: prod.splits)
    obtain ok2 where w2: "wait_on cu (r, m2) (pf2, ch) (key_layer key) (key_expert key) = (ok2, (r', m2'), pf2', ch')" "x2 = of_bool ok2"
      using cc by (auto simp: Call_wait split: prod.splits)
    note i1 = wait_inv [OF p le w1(1)] and i2 = wait_on_inv [OF q le w2(1)]
    have "ok1 = ok2" using i1(4) i2(4) booksD(2) [OF b] by simp
    moreover have "books pf1' = books (after_wait ok1 pf1)" by (rule wait_books [OF p le w1(1)])
    moreover have "books pf2' = books (after_wait ok2 pf2)" by (rule wait_on_books [OF q le w2(1)])
    ultimately have "books pf1' = books pf2'" "x1 = x2" "length (p_inflight pf1') = length (p_inflight pf1)"
      using books_cong [OF b] w1(2) w2(2) booksD(6) [of pf1' "after_wait ok1 pf1"] by (simp_all add: after_wait_def)
    then show ?thesis using i1(1,6) i2(1,7) by simp
  next
    case Call_synchronize_all
    have y1: "synchronize_all m1 pf1 = (m1', pf1')" "x1 = 0" using d by (simp_all add: Call_synchronize_all)
    have y2: "synchronize_all_on cu (r, m2) (pf2, ch) = ((r', m2'), pf2', ch')" "x2 = 0" using cc by (simp_all add: Call_synchronize_all)
    note i1 = synchronize_all_inv [OF p y1(1)] and i2 = synchronize_all_on_inv [OF q y2(1)]
    have dr: "drain_until m1 pf1 (int (length (p_inflight pf1)) - 1) = (m1', pf1')"
      using y1 prefetcher_invD(3,4) [OF p] by (simp add: synchronize_all_def int32_length)
    have sh: "shape (p_inflight pf1') = shape (p_inflight pf1)" using drain_until_inv(4) [OF p _ dr] by simp
    have "books pf1' = books pf1" using drain_until_rest [OF dr] sh by (auto simp: books_def)
    then show ?thesis using i1(1,4) i2 y1 y2 b shape_length [OF sh] by simp
  next
    case Call_reset
    have y1: "pf1' = prefetcher_reset pf1" "m1' = m1" "x1 = 0" using d by (simp_all add: Call_reset)
    have y2: "prefetcher_reset_on cu (r, m2) (pf2, ch) = ((r', m2'), pf2', ch')" "x2 = 0" using cc by (simp_all add: Call_reset)
    note i2 = reset_on_inv [OF q y2(1)]
    show ?thesis using reset_inv [OF p] i2 y1 y2 booksD [OF b] by (simp add: books_def prefetcher_reset_def)
  qed
  then show "prefetcher_inv src n sp (m1', pf1')" "cuda_inv good pend due s src n sp ((r', m2'), pf2', ch')" "books pf1' = books pf2'" "x1 = x2"
    "length (p_inflight pf1') \<le> Suc (length (p_inflight pf1))"
    "\<forall>x \<in> - span (fst sp) (snd sp). m1' x = m1 x \<and> m2' x = m2 x"
    by blast+
qed

lemma builds_run:
  assumes "prefetcher_inv src n sp (m1, pf1)" and "cuda_inv good pend due s src n sp ((r, m2), pf2, ch)" and "books pf1 = books pf2"
    and "\<forall>c \<in> set cs. \<forall>x. call_key c = Some x \<longrightarrow> key_ok x" and "length (p_inflight pf1) + length cs < 2 ^ 31"
    and "run_calls (default_call src n) (m1, pf1) cs = (xs1, m1', pf1')"
    and "run_calls (cuda_call cu src n) ((r, m2), pf2, ch) cs = (xs2, (r', m2'), pf2', ch')"
  shows "prefetcher_inv src n sp (m1', pf1') \<and> cuda_inv good pend due s src n sp ((r', m2'), pf2', ch') \<and> books pf1' = books pf2' \<and>
    xs1 = xs2 \<and> (\<forall>x \<in> - span (fst sp) (snd sp). m1' x = m1 x \<and> m2' x = m2 x)"
  using assms
proof (induction cs arbitrary: m1 pf1 r m2 pf2 ch xs1 xs2)
  case (Cons c cs)
  obtain y1 n1 p1 where d: "default_call src n (m1, pf1) c = (y1, n1, p1)" by (metis prod.exhaust)
  obtain y2 r2 n2 p2 h2 where q: "cuda_call cu src n ((r, m2), pf2, ch) c = (y2, (r2, n2), p2, h2)" by (metis prod.exhaust)
  obtain ys1 where d': "run_calls (default_call src n) (n1, p1) cs = (ys1, m1', pf1')" "xs1 = y1 # ys1"
    using Cons.prems(6) d by (auto split: prod.splits)
  obtain ys2 where q': "run_calls (cuda_call cu src n) ((r2, n2), p2, h2) cs = (ys2, (r', m2'), pf2', ch')" "xs2 = y2 # ys2"
    using Cons.prems(7) q by (auto split: prod.splits)
  have len: "Suc (length (p_inflight pf1)) < 2 ^ 31" and k: "\<forall>x. call_key c = Some x \<longrightarrow> key_ok x" using Cons.prems(4,5) by simp_all
  note st = builds_step [OF Cons.prems(1-3) k len d q]
  have "\<forall>c \<in> set cs. \<forall>x. call_key c = Some x \<longrightarrow> key_ok x" "length (p_inflight p1) + length cs < 2 ^ 31"
    using Cons.prems(4,5) st(5) by simp_all
  from Cons.IH [OF st(1-3) this d'(1) q'(1)] show ?case using st(4,6) d'(2) q'(2) by simp
qed simp

lemma synchronize_all_on_bytes:
  assumes inv: "cuda_inv good pend due s src n sp ((d, m), pf, ch)" and sy: "synchronize_all_on cu (d, m) (pf, ch) = ((d', m'), pf', ch')"
    and k: "key_ok k" "issued pf k" "cache_region (p_cache pf) k = Some (a, len)"
  shows "same_bytes m' a (src k) n"
proof -
  note s = synchronize_all_on_inv [OF inv sy]
  note i = cuda_invD [OF s(1)]
  obtain j where j: "map_of (p_key_to_idx pf) (pack_key (key_layer k) (key_expert k)) = Some j" using k(2) by (auto simp: issued_def)
  have le: "is_int32 (key_layer k)" "is_int32 (key_expert k)" using k(1) by (simp_all add: key_ok_def)
  note x = index_okD [OF i(8) [unfolded s(2)] le j]
  have l: "nat j < length (p_inflight pf)" using x(1,2) by linarith
  have "t_src (p_inflight pf ! nat j) = src k"
    using flowD(2) [OF i(10)] nth_mem [OF l] x(3) by (simp add: s(2) transfer_ok_def)
  then show ?thesis using flowD(9) [OF i(10), of "nat j"] x(4) [of a len] k(3) l by (simp add: s(2,4))
qed

end

section \<open>Properties\<close>


definition example_calls :: "pf_call list" where
  "example_calls = [Call_prefetch (ExpertKey 0 0) 0, Call_prefetch (ExpertKey 0 1) 0, Call_wait (ExpertKey 0 1), Call_prefetch (ExpertKey 0 2) 0,
     Call_wait (ExpertKey 0 3), Call_synchronize_all, Call_reset, Call_prefetch (ExpertKey 0 1) 0]"


end
