(* ===== verification/EngineCuda.thy ===== *)
theory EngineCuda
  imports Engine PrefetcherCuda
begin

text \<open>
  The engine in the build with \<^verbatim>\<open>DEE_CUDA\<close>: the parts of \<^verbatim>\<open>src/engine.cpp\<close> and \<^verbatim>\<open>include/dee/engine.h\<close> between
  \<^verbatim>\<open>#ifdef DEE_CUDA\<close> and \<^verbatim>\<open>#endif\<close>, on top of the parts that both builds share, which are those of \<open>Engine\<close>. Weights go over the
  copy stream of the prefetcher; the kernels and the transfers of hidden states go over a second stream, the compute
  stream, which executes its work in order, at any moment: after each call into the runtime a schedule says how much
  of it runs.
\<close>

section \<open>State\<close>

text \<open>A device buffer of floats: its address, null if there is none, and what it holds.\<close>

record Buffer =
  bf_ptr :: nat
  bf_data :: "real list"

definition no_buffer :: Buffer where
  "no_buffer = \<lparr>bf_ptr = nullptr, bf_data = []\<rparr>"

text \<open>The working set on the device, and the host array that the hidden state of a layer is downloaded to.\<close>

record Gpu =
  g_h_in :: Buffer
  g_h_out :: Buffer
  g_hbuf :: Buffer
  g_ybuf :: Buffer
  g_out :: "real list"

text \<open>What is submitted to the compute stream; an expert is the address of its weights and the row of its output.\<close>

datatype work = Upload "real list" | Run_expert nat nat | Combine_rows nat | Download

record 'r CudaEngine =
  ce_eng :: Engine
  ce_rt :: 'r
  ce_handles :: CudaHandles
  ce_compute :: "nat option"
  ce_gpu :: Gpu
  ce_total :: nat
  ce_free :: nat
  ce_work :: "work list"
  ce_clock :: nat

definition cuda_engine_new :: "memory \<Rightarrow> 'r \<Rightarrow> 'r CudaEngine" where
  "cuda_engine_new m r =
     \<lparr>ce_eng = engine_new m, ce_rt = r, ce_handles = handles_new, ce_compute = None,
      ce_gpu = \<lparr>g_h_in = no_buffer, g_h_out = no_buffer, g_hbuf = no_buffer, g_ybuf = no_buffer, g_out = []\<rparr>,
      ce_total = 0, ce_free = 0, ce_work = [], ce_clock = 0\<rparr>"

section \<open>The compute stream\<close>

text \<open>A transfer of \<open>n\<close> floats to the start of an array, and the kernels of one expert, whose output is row \<open>k\<close>.\<close>

definition copy_floats :: "nat \<Rightarrow> real list \<Rightarrow> real list \<Rightarrow> real list" where
  "copy_floats n src dst = take n src @ drop n dst"

definition run_expert :: "nat \<Rightarrow> nat \<Rightarrow> real list \<Rightarrow> Gpu \<Rightarrow> nat \<Rightarrow> Gpu" where
  "run_expert intr hidden W g k =
     (let y = bf_data (g_ybuf g)
      in case swiglu_expert_cuda W (bf_data (g_h_in g)) (bf_data (g_hbuf g)) (take hidden (drop (k * hidden) y)) intr hidden of
           (hb, row) \<Rightarrow> g\<lparr>g_hbuf := (g_hbuf g)\<lparr>bf_data := hb\<rparr>,
                           g_ybuf := (g_ybuf g)\<lparr>bf_data := take (k * hidden) y @ row @ drop (k * hidden + hidden) y\<rparr>\<rparr>)"

definition run_item :: "Engine \<Rightarrow> Gpu \<Rightarrow> work \<Rightarrow> Gpu" where
  "run_item en g w =
     (case w of
        Upload xs \<Rightarrow> g\<lparr>g_h_in := (g_h_in g)\<lparr>bf_data := copy_floats (e_hidden en) xs (bf_data (g_h_in g))\<rparr>\<rparr>
      | Run_expert p k \<Rightarrow> run_expert (e_inter en) (e_hidden en) (load_floats (e_mem en) p (e_blob_elems en)) g k
      | Combine_rows n \<Rightarrow>
          g\<lparr>g_h_out := (g_h_out g)\<lparr>bf_data := combine_cuda (bf_data (g_ybuf g)) (bf_data (g_h_out g)) n (e_hidden en)\<rparr>\<rparr>
      | Download \<Rightarrow> g\<lparr>g_out := copy_floats (e_hidden en) (bf_data (g_h_out g)) (g_out g)\<rparr>)"

text \<open>The stream executes its first \<open>n\<close> items; submitting; and the progress that the schedule gives after a call.\<close>

definition run_work :: "nat \<Rightarrow> 'r CudaEngine \<Rightarrow> 'r CudaEngine" where
  "run_work n ce = ce\<lparr>ce_gpu := foldl (run_item (ce_eng ce)) (ce_gpu ce) (take n (ce_work ce)), ce_work := drop n (ce_work ce)\<rparr>"

definition submit :: "work \<Rightarrow> 'r CudaEngine \<Rightarrow> 'r CudaEngine" where
  "submit w ce = ce\<lparr>ce_work := ce_work ce @ [w]\<rparr>"

definition tick :: "(nat \<Rightarrow> nat) \<Rightarrow> 'r CudaEngine \<Rightarrow> 'r CudaEngine" where
  "tick sched ce = run_work (sched (ce_clock ce)) (ce\<lparr>ce_clock := Suc (ce_clock ce)\<rparr>)"

section \<open>Staging and the forward pass of a layer\<close>

definition stage_expert_on :: "'r Cuda \<Rightarrow> Env \<Rightarrow> 'r CudaEngine \<Rightarrow> int \<Rightarrow> int \<Rightarrow> int \<Rightarrow> 'r CudaEngine" where
  "stage_expert_on cu env ce layer expert priority =
     (case get_staging env (ce_eng ce) expert of (blob, en1) \<Rightarrow>
        if blob = nullptr then ce\<lparr>ce_eng := en1\<rparr>
        else case prefetch_on cu (ce_rt ce, e_mem en1) (e_pf en1, ce_handles ce) layer expert blob (e_blob_bytes en1) priority of
               (_, (r, m), pf, ch) \<Rightarrow> ce\<lparr>ce_eng := en1\<lparr>e_mem := m, e_pf := pf\<rparr>, ce_rt := r, ce_handles := ch\<rparr>)"

definition stage_all_on :: "'r Cuda \<Rightarrow> Env \<Rightarrow> 'r CudaEngine \<Rightarrow> int \<Rightarrow> nat list \<Rightarrow> 'r CudaEngine" where
  "stage_all_on cu env ce layer experts =
     foldl (\<lambda>ce k. stage_expert_on cu env ce layer (int (experts ! k)) (to_int32 (cfg_topk (e_cfg (ce_eng ce)) - int k)))
       ce [0 ..< length experts]"

definition use_expert_on ::
  "'r Cuda \<Rightarrow> (nat \<Rightarrow> nat) \<Rightarrow> int \<Rightarrow> nat list \<Rightarrow> 'r CudaEngine \<Rightarrow> nat \<Rightarrow> 'r CudaEngine" where
  "use_expert_on cu sched layer experts ce k =
     (let en = ce_eng ce; e = int (experts ! k)
      in case wait_on cu (ce_rt ce, e_mem en) (e_pf en, ce_handles ce) layer e of (_, (r, m), pf, ch) \<Rightarrow>
           let ce1 = tick sched (ce\<lparr>ce_eng := en\<lparr>e_mem := m, e_pf := pf\<rparr>, ce_rt := r, ce_handles := ch\<rparr>);
               d_blob = cache_data (p_cache pf) layer e
           in if d_blob = nullptr
              then ce1\<lparr>ce_eng := (ce_eng ce1)\<lparr>e_stats := (e_stats (ce_eng ce1))\<lparr>es_fallbacks := Suc (es_fallbacks (e_stats (ce_eng ce1)))\<rparr>\<rparr>\<rparr>
              else tick sched (submit (Run_expert d_blob k) ce1))"

text \<open>The rescaling to root mean square 1.\<close>

definition stabilize :: "nat \<Rightarrow> real list \<Rightarrow> real list" where
  "stabilize hidden h_out =
     (let ss = foldl (\<lambda>s i. s + h_out ! i * h_out ! i) 0 [0 ..< hidden];
          rms = sqrt (ss / real hidden)
      in if rms > 1 / 10 ^ 8 then map (\<lambda>v. v * (1 / rms)) h_out else h_out)"

definition forward_layer_cuda ::
  "'r Cuda \<Rightarrow> Env \<Rightarrow> (nat \<Rightarrow> nat) \<Rightarrow> 'r CudaEngine \<Rightarrow> int \<Rightarrow> real list \<Rightarrow> real list \<Rightarrow> exn + real list \<times> 'r CudaEngine" where
  "forward_layer_cuda cu env sched ce layer h_in h_out =
     (case oracle_predict (env_sort env) (e_oracle (ce_eng ce)) layer h_in (cfg_topk (e_cfg (ce_eng ce))) of
        Inl e \<Rightarrow> Inl e
      | Inr experts \<Rightarrow>
          let n = length experts
          in if n = 0 then Inr (replicate (e_hidden (ce_eng ce)) 0, ce)
             else
               let ce1 = stage_all_on cu env (ce\<lparr>ce_gpu := (ce_gpu ce)\<lparr>g_out := h_out\<rparr>\<rparr>) layer experts;
                   ce2 = tick sched (submit (Upload h_in) ce1);
                   ce3 = foldl (use_expert_on cu sched layer experts) ce2 [0 ..< n];
                   ce4 = tick sched (submit (Combine_rows n) ce3);
                   ce5 = tick sched (submit Download ce4);
                   ce6 = run_work (length (ce_work ce5)) ce5
               in Inr (stabilize (e_hidden (ce_eng ce6)) (g_out (ce_gpu ce6)), ce6))"

section \<open>The generation loop\<close>

text \<open>Without \<^verbatim>\<open>--cuda\<close> the CUDA build runs the pass of the default build; no event is ever created then.\<close>

definition forward_layer_on ::
  "'r Cuda \<Rightarrow> Env \<Rightarrow> (nat \<Rightarrow> nat) \<Rightarrow> 'r CudaEngine \<Rightarrow> int \<Rightarrow> real list \<Rightarrow> real list \<Rightarrow> exn + real list \<times> 'r CudaEngine" where
  "forward_layer_on cu env sched ce layer h_in h_out =
     (if cfg_use_cuda (e_cfg (ce_eng ce)) then forward_layer_cuda cu env sched ce layer h_in h_out
      else map_sum id (\<lambda>(h, en). (h, ce\<lparr>ce_eng := en\<rparr>)) (forward_layer env (ce_eng ce) layer h_in))"

fun layer_loop_on :: "'r Cuda \<Rightarrow> Env \<Rightarrow> (nat \<Rightarrow> nat) \<Rightarrow> int list \<Rightarrow> real list \<Rightarrow> real list \<Rightarrow> 'r CudaEngine \<Rightarrow> exn + real list \<times> 'r CudaEngine" where
  "layer_loop_on cu env sched [] h_in h_out ce = Inr (h_out, ce)"
| "layer_loop_on cu env sched (L # Ls) h_in h_out ce =
     (case forward_layer_on cu env sched ce L h_in h_out of
        Inl e \<Rightarrow> Inl e
      | Inr (h_out', ce') \<Rightarrow> layer_loop_on cu env sched Ls h_in h_out' ce')"

fun token_loop_on :: "'r Cuda \<Rightarrow> Env \<Rightarrow> (nat \<Rightarrow> nat) \<Rightarrow> nat \<Rightarrow> real list \<Rightarrow> real list \<Rightarrow> 'r CudaEngine \<Rightarrow> exn + real list \<times> real list \<times> 'r CudaEngine" where
  "token_loop_on cu env sched 0 cur nxt ce = Inr (cur, nxt, ce)"
| "token_loop_on cu env sched (Suc t) cur nxt ce =
     (case layer_loop_on cu env sched [0 .. cfg_num_layers (e_cfg (ce_eng ce)) - 1] cur nxt ce of
        Inl e \<Rightarrow> Inl e
      | Inr (nxt', ce1) \<Rightarrow>
          let en1 = ce_eng ce1; used = cache_used_bytes (p_cache (e_pf en1));
              ce2 = (if es_peak_vram (e_stats en1) < used
                     then ce1\<lparr>ce_eng := en1\<lparr>e_stats := (e_stats en1)\<lparr>es_peak_vram := used\<rparr>\<rparr>\<rparr> else ce1)
          in token_loop_on cu env sched t nxt' cur ce2)"

definition generate_on :: "'r Cuda \<Rightarrow> Env \<Rightarrow> (nat \<Rightarrow> nat) \<Rightarrow> 'r CudaEngine \<Rightarrow> exn + real list \<times> 'r CudaEngine" where
  "generate_on cu env sched ce =
     (let n = nat (cfg_num_tokens (e_cfg (ce_eng ce)))
      in case token_loop_on cu env sched n (prompt (e_hidden (ce_eng ce))) (e_buf1 (ce_eng ce)) ce of
           Inl e \<Rightarrow> Inl e
         | Inr (cur, nxt, ce1) \<Rightarrow>
             let en1 = ce_eng ce1;
                 en2 = (if even n then en1\<lparr>e_buf0 := cur, e_buf1 := nxt\<rparr> else en1\<lparr>e_buf0 := nxt, e_buf1 := cur\<rparr>)
             in case prefetcher_reset_on cu (ce_rt ce1, e_mem en2) (e_pf en2, ce_handles ce1) of ((r, m), pf, ch) \<Rightarrow>
                  Inr (cur, ce1\<lparr>ce_eng := gather_stats env (en2\<lparr>e_mem := m, e_pf := pf\<rparr>), ce_rt := r, ce_handles := ch\<rparr>))"

section \<open>Initialisation and destruction\<close>

text \<open>
  What the runtime provides beside the copy stream: \<^verbatim>\<open>cudaMallocHost\<close>, \<^verbatim>\<open>cudaMemGetInfo\<close> (total and free), and what
  freshly allocated device memory holds.
\<close>

record Gpu_info =
  gi_malloc_host :: "nat \<Rightarrow> nat"
  gi_mem_info :: "(nat \<times> nat) option"
  gi_junk :: "nat \<Rightarrow> real list"

definition dev_alloc :: "'r Cuda \<Rightarrow> Gpu_info \<Rightarrow> 'r CudaEngine \<Rightarrow> nat \<Rightarrow> Buffer \<times> 'r CudaEngine" where
  "dev_alloc cu gi ce n =
     (case cuda_malloc cu (ce_rt ce, e_mem (ce_eng ce)) n of (p, r, m) \<Rightarrow>
        (case p of None \<Rightarrow> no_buffer | Some a \<Rightarrow> \<lparr>bf_ptr = a, bf_data = gi_junk gi (n div 4)\<rparr>,
         ce\<lparr>ce_rt := r, ce_eng := (ce_eng ce)\<lparr>e_mem := m\<rparr>\<rparr>))"

definition init_gpu :: "'r Cuda \<Rightarrow> Gpu_info \<Rightarrow> 'r CudaEngine \<Rightarrow> EngineConfig \<Rightarrow> bool \<times> 'r CudaEngine" where
  "init_gpu cu gi ce cfg =
     (case cuda_stream_create cu (ce_rt ce, e_mem (ce_eng ce)) of (s, r, m) \<Rightarrow>
        let ce1 = ce\<lparr>ce_rt := r, ce_eng := (ce_eng ce)\<lparr>e_mem := m\<rparr>, ce_compute := s\<rparr>;
            hidden = e_hidden (ce_eng ce); intr = e_inter (ce_eng ce)
        in if s = None then (False, ce1)
           else
             (case dev_alloc cu gi ce1 (mul64 hidden 4) of (bf1, ce2) \<Rightarrow>
              case dev_alloc cu gi ce2 (mul64 hidden 4) of (bf2, ce3) \<Rightarrow>
              case dev_alloc cu gi ce3 (mul64 intr 4) of (bf3, ce4) \<Rightarrow>
              case dev_alloc cu gi ce4 (mul64 (mul64 (nat (cfg_topk cfg mod 2 ^ 64)) hidden) 4) of (bf4, ce5) \<Rightarrow>
                let ce6 = ce5\<lparr>ce_gpu := (ce_gpu ce5)\<lparr>g_h_in := bf1, g_h_out := bf2, g_hbuf := bf3, g_ybuf := bf4\<rparr>\<rparr>
                in if bf_ptr bf1 = nullptr \<or> bf_ptr bf2 = nullptr \<or> bf_ptr bf3 = nullptr \<or> bf_ptr bf4 = nullptr then (False, ce6)
                   else (True, case gi_mem_info gi of
                           None \<Rightarrow> ce6
                         | Some (tot, fre) \<Rightarrow> ce6\<lparr>ce_total := tot, ce_free := fre,
                             ce_eng := (ce_eng ce6)\<lparr>e_stats := (e_stats (ce_eng ce6))\<lparr>es_cuda_total := tot, es_cuda_free := fre\<rparr>\<rparr>\<rparr>)))"

definition init_buffers_on :: "'r Cuda \<Rightarrow> Gpu_info \<Rightarrow> 'r CudaEngine \<Rightarrow> EngineConfig \<Rightarrow> (bool \<times> 'r CudaEngine) outcome" where
  "init_buffers_on cu gi ce cfg =
     (case prefetcher_init_on cu (gi_malloc_host gi) (ce_rt ce, e_mem (ce_eng ce)) (e_pf (ce_eng ce), ce_handles ce) (cfg_use_cuda cfg) of
        (ok, (r, m), pf, ch) \<Rightarrow>
          let en1 = (ce_eng ce)\<lparr>e_mem := m, e_pf := pf\<rparr>; ce1 = ce\<lparr>ce_rt := r, ce_handles := ch\<rparr>
          in if \<not> ok then Ret (False, ce1\<lparr>ce_eng := en1\<rparr>)
             else if cfg_hidden cfg < 0 then Throw Length_error
             else Ret (True, ce1\<lparr>ce_eng := en1\<lparr>e_buf0 := replicate (e_hidden en1) 0, e_buf1 := replicate (e_hidden en1) 0\<rparr>\<rparr>))"

text \<open>The arena allocates once, with \<^verbatim>\<open>cudaMalloc\<close> or with \<^verbatim>\<open>malloc\<close>, unless it has a region already.\<close>

definition cuda_arena :: "'r Cuda \<Rightarrow> 'r CudaEngine \<Rightarrow> nat \<Rightarrow> Backend \<times> 'r CudaEngine" where
  "cuda_arena cu ce budget =
     (case cu_device_malloc cu (ce_rt ce, e_mem (ce_eng ce)) budget of (p, r, m) \<Rightarrow>
        (\<lparr>be_alloc = Some (\<lambda>_. p), be_free = True, be_kind = ''cuda''\<rparr>,
         if a_base (c_arena (p_cache (e_pf (ce_eng ce)))) \<noteq> nullptr then ce
         else ce\<lparr>ce_rt := r, ce_eng := (ce_eng ce)\<lparr>e_mem := m\<rparr>\<rparr>))"

definition init_cache_on :: "'r Cuda \<Rightarrow> Gpu_info \<Rightarrow> Sys \<Rightarrow> 'r CudaEngine \<Rightarrow> EngineConfig \<Rightarrow> (bool \<times> 'r CudaEngine) outcome" where
  "init_cache_on cu gi sys ce cfg =
     (case (if cfg_use_cuda cfg then cuda_arena cu ce (budget_of cfg (ce_eng ce))
            else (\<lparr>be_alloc = Some (sys_malloc sys), be_free = True, be_kind = ''host''\<rparr>, ce)) of (be, ce1) \<Rightarrow>
        case cache_init (p_cache (e_pf (ce_eng ce1))) (budget_of cfg (ce_eng ce)) be of (ok, c) \<Rightarrow>
          let ce2 = ce1\<lparr>ce_eng := (ce_eng ce1)\<lparr>e_pf := (e_pf (ce_eng ce1))\<lparr>p_cache := c\<rparr>\<rparr>\<rparr>
          in if \<not> ok then Ret (False, ce2)
             else case (if cfg_use_cuda cfg then init_gpu cu gi ce2 cfg else (True, ce2)) of (ok1, ce3) \<Rightarrow>
                    if \<not> ok1 then Ret (False, ce3) else init_buffers_on cu gi ce3 cfg)"

definition init_on :: "'r Cuda \<Rightarrow> Gpu_info \<Rightarrow> Sys \<Rightarrow> 'z Zlib \<Rightarrow> 'r CudaEngine \<Rightarrow> EngineConfig \<Rightarrow> (bool \<times> 'r CudaEngine) outcome" where
  "init_on cu gi sys z ce cfg =
     bind_out (init_shard sys (ce_eng ce) cfg) (\<lambda>(ok, en1).
       if \<not> ok then Ret (False, ce\<lparr>ce_eng := en1\<rparr>)
       else bind_out (oracle_load (sys_files sys) z (e_oracle en1) (cfg_oracle_path cfg) (e_hidden en1) 256 256) (\<lambda>(ok1, sc).
              let en2 = en1\<lparr>e_oracle := sc\<rparr>
              in if \<not> ok1 then Ret (False, ce\<lparr>ce_eng := en2\<rparr>)
                 else init_cache_on cu gi sys (ce\<lparr>ce_eng := en2\<lparr>e_cfg := cfg\<lparr>cfg_num_layers := min (cfg_num_layers cfg) (num_layers sc)\<rparr>\<rparr>\<rparr>) cfg))"

definition free_buffer :: "'r Cuda \<Rightarrow> 'r \<times> memory \<Rightarrow> Buffer \<Rightarrow> ('r \<times> memory) \<times> Buffer" where
  "free_buffer cu d b = (if bf_ptr b \<noteq> nullptr then (cuda_free cu d (bf_ptr b), no_buffer) else (d, b))"

definition cuda_cleanup :: "'r Cuda \<Rightarrow> 'r CudaEngine \<Rightarrow> 'r CudaEngine" where
  "cuda_cleanup cu ce =
     (case free_buffer cu (ce_rt ce, e_mem (ce_eng ce)) (g_h_in (ce_gpu ce)) of (d1, bf1) \<Rightarrow>
      case free_buffer cu d1 (g_h_out (ce_gpu ce)) of (d2, bf2) \<Rightarrow>
      case free_buffer cu d2 (g_hbuf (ce_gpu ce)) of (d3, bf3) \<Rightarrow>
      case free_buffer cu d3 (g_ybuf (ce_gpu ce)) of (d4, bf4) \<Rightarrow>
      case (case ce_compute ce of None \<Rightarrow> d4 | Some s \<Rightarrow> cuda_stream_destroy cu d4 s) of (r, m) \<Rightarrow>
        ce\<lparr>ce_gpu := (ce_gpu ce)\<lparr>g_h_in := bf1, g_h_out := bf2, g_hbuf := bf3, g_ybuf := bf4\<rparr>, ce_compute := None,
           ce_rt := r, ce_eng := (ce_eng ce)\<lparr>e_mem := m\<rparr>\<rparr>)"

definition engine_destroy_on :: "'r Cuda \<Rightarrow> 'r CudaEngine \<Rightarrow> 'r CudaEngine" where
  "engine_destroy_on cu ce = (if cfg_use_cuda (e_cfg (ce_eng ce)) then cuda_cleanup cu ce else ce)"

section \<open>Rows of the output buffer\<close>

definition row :: "nat \<Rightarrow> real list \<Rightarrow> nat \<Rightarrow> real list" where
  "row hidden y k = take hidden (drop (k * hidden) y)"

definition set_row :: "nat \<Rightarrow> real list \<Rightarrow> nat \<Rightarrow> real list \<Rightarrow> real list" where
  "set_row hidden y k r = take (k * hidden) y @ r @ drop (k * hidden + hidden) y"

lemma row_below: "k < n \<Longrightarrow> n * hidden \<le> length y \<Longrightarrow> k * hidden + hidden \<le> length y" for k n hidden :: nat
  using mult_le_mono1 [of "Suc k" n hidden] by simp

lemma row_nth:
  assumes "k < n" "n * hidden \<le> length y"
  shows "length (row hidden y k) = hidden" "i < hidden \<Longrightarrow> row hidden y k ! i = y ! (k * hidden + i)"
  using row_below [OF assms] by (simp_all add: row_def)

lemma set_row_nth:
  assumes "k < n" "n * hidden \<le> length y" "length r = hidden"
  shows "length (set_row hidden y k r) = length y"
    "i < length y \<Longrightarrow> set_row hidden y k r ! i = (if k * hidden \<le> i \<and> i < k * hidden + hidden then r ! (i - k * hidden) else y ! i)"
  using row_below [OF assms(1,2)] assms(3) by (auto simp: set_row_def nth_append)

lemma row_set_row:
  assumes "k < n" "k' < n" "n * hidden \<le> length y" "length r = hidden"
  shows "row hidden (set_row hidden y k r) k' = (if k' = k then r else row hidden y k')"
proof (rule nth_equalityI)
  note s = set_row_nth [OF assms(1,3,4)]
  have l: "n * hidden \<le> length (set_row hidden y k r)" using s(1) assms(3) by simp
  show "length (row hidden (set_row hidden y k r) k') = length (if k' = k then r else row hidden y k')"
    using row_nth(1) [OF assms(2) l] row_nth(1) [OF assms(2,3)] assms(4) by simp
  fix i assume "i < length (row hidden (set_row hidden y k r) k')"
  then have i: "i < hidden" using row_nth(1) [OF assms(2) l] by simp
  have out: "\<not> (k * hidden \<le> k' * hidden + i \<and> k' * hidden + i < k * hidden + hidden)" if "k' \<noteq> k"
  proof (cases "k' < k")
    case True
    then show ?thesis using mult_le_mono1 [of "Suc k'" k hidden] i by simp
  next
    case False
    then show ?thesis using that mult_le_mono1 [of "Suc k" k' hidden] by simp
  qed
  have "k' * hidden + i < length y" using row_below [OF assms(2,3)] i by simp
  then show "row hidden (set_row hidden y k r) k' ! i = (if k' = k then r else row hidden y k') ! i"
    using row_nth(2) [OF assms(2) l i] row_nth(2) [OF assms(2,3) i] s(2) out i by (cases "k' = k") auto
qed

section \<open>What the kernels of a layer leave\<close>

text \<open>The output of the two kernels of an expert, for the weights \<open>W\<close>.\<close>

definition cuda_expert :: "real list \<Rightarrow> real list \<Rightarrow> nat \<Rightarrow> nat \<Rightarrow> real list" where
  "cuda_expert W x intr hidden =
     map (swiglu_y_kernel W (map (swiglu_h_kernel W x intr hidden) [0 ..< intr]) intr hidden) [0 ..< hidden]"

definition gpu_ok :: "nat \<Rightarrow> nat \<Rightarrow> nat \<Rightarrow> Gpu \<Rightarrow> bool" where
  "gpu_ok intr hidden n g \<longleftrightarrow> length (bf_data (g_h_in g)) = hidden \<and> length (bf_data (g_h_out g)) = hidden \<and>
     length (bf_data (g_hbuf g)) = intr \<and> n * hidden \<le> length (bf_data (g_ybuf g)) \<and> length (g_out g) = hidden"

lemma cuda_row_ok:
  assumes g: "gpu_ok intr hidden n g" and k: "k < n"
  shows "gpu_ok intr hidden n (run_expert intr hidden W g k)"
    "g_h_in (run_expert intr hidden W g k) = g_h_in g" "g_h_out (run_expert intr hidden W g k) = g_h_out g"
    "g_out (run_expert intr hidden W g k) = g_out g"
    "bf_data (g_ybuf (run_expert intr hidden W g k)) = set_row hidden (bf_data (g_ybuf g)) k (cuda_expert W (bf_data (g_h_in g)) intr hidden)"
proof -
  let ?y = "bf_data (g_ybuf g)"
  have y: "n * hidden \<le> length ?y" and h: "length (bf_data (g_hbuf g)) = intr" using g by (simp_all add: gpu_ok_def)
  have s: "swiglu_expert_cuda W (bf_data (g_h_in g)) (bf_data (g_hbuf g)) (take hidden (drop (k * hidden) ?y)) intr hidden =
      (map (swiglu_h_kernel W (bf_data (g_h_in g)) intr hidden) [0 ..< intr], cuda_expert W (bf_data (g_h_in g)) intr hidden)"
    using row_nth(1) [OF k y] h by (simp add: swiglu_expert_cuda_def launch_eq cuda_expert_def row_def Let_def)
  have l: "length (cuda_expert W x intr hidden) = hidden" for x by (simp add: cuda_expert_def)
  show "gpu_ok intr hidden n (run_expert intr hidden W g k)"
    "g_h_in (run_expert intr hidden W g k) = g_h_in g" "g_h_out (run_expert intr hidden W g k) = g_h_out g"
    "g_out (run_expert intr hidden W g k) = g_out g"
    "bf_data (g_ybuf (run_expert intr hidden W g k)) = set_row hidden ?y k (cuda_expert W (bf_data (g_h_in g)) intr hidden)"
    using g set_row_nth(1) [OF k y l] by (simp_all add: run_expert_def Let_def s set_row_def gpu_ok_def)
qed

text \<open>The experts one after the other; \<open>W k\<close> are the weights of the \<open>k\<close>-th, if it is resident.\<close>

definition run_rows :: "nat \<Rightarrow> nat \<Rightarrow> (nat \<Rightarrow> real list option) \<Rightarrow> Gpu \<Rightarrow> nat \<Rightarrow> Gpu" where
  "run_rows intr hidden W g j = foldl (\<lambda>g k. case W k of None \<Rightarrow> g | Some w \<Rightarrow> run_expert intr hidden w g k) g [0 ..< j]"

lemma run_rows_ok:
  assumes g: "gpu_ok intr hidden n g" and j: "j \<le> n"
  shows "gpu_ok intr hidden n (run_rows intr hidden W g j) \<and> g_h_in (run_rows intr hidden W g j) = g_h_in g \<and>
    (\<forall>k < n. row hidden (bf_data (g_ybuf (run_rows intr hidden W g j))) k =
      (case W k of Some w \<Rightarrow> if k < j then cuda_expert w (bf_data (g_h_in g)) intr hidden else row hidden (bf_data (g_ybuf g)) k
       | None \<Rightarrow> row hidden (bf_data (g_ybuf g)) k))"
  using j
proof (induction j)
  case 0
  then show ?case using g by (simp add: run_rows_def split: option.split)
next
  case (Suc j)
  let ?g = "run_rows intr hidden W g j"
  note IH = Suc.IH [OF Suc_leD [OF Suc.prems]]
  have j: "j < n" using Suc.prems by simp
  show ?case
  proof (cases "W j")
    case None
    then have "run_rows intr hidden W g (Suc j) = ?g" by (simp add: run_rows_def)
    then show ?thesis using IH None by (auto simp: less_Suc_eq split: option.splits)
  next
    case (Some w)
    then have r: "run_rows intr hidden W g (Suc j) = run_expert intr hidden w ?g j" by (simp add: run_rows_def)
    have ok: "gpu_ok intr hidden n ?g" "g_h_in ?g = g_h_in g" using IH by blast+
    note s = cuda_row_ok [OF ok(1) j, of w]
    have y: "n * hidden \<le> length (bf_data (g_ybuf ?g))" using ok(1) by (simp add: gpu_ok_def)
    have l: "length (cuda_expert w (bf_data (g_h_in g)) intr hidden) = hidden" by (simp add: cuda_expert_def)
    have "row hidden (bf_data (g_ybuf (run_expert intr hidden w ?g j))) k =
        (if k = j then cuda_expert w (bf_data (g_h_in g)) intr hidden else row hidden (bf_data (g_ybuf ?g)) k)" if "k < n" for k
      using row_set_row [OF j that y l] s(5) ok(2) by simp
    then show ?thesis unfolding r using s(1,2) ok(2) IH Some by (auto simp: less_Suc_eq split: option.splits)
  qed
qed

lemma combine_rows:
  assumes "n * hidden \<le> length y" and "length out = hidden"
  shows "combine_cuda y out n hidden = map (\<lambda>i. (\<Sum>k < n. row hidden y k ! i) / real n) [0 ..< hidden]"
proof -
  have "combine_kernel y n hidden i = (\<Sum>k < n. row hidden y k ! i) / real n" if "i < hidden" for i
    using row_nth(2) [OF _ assms(1) that] by (simp add: combine_kernel_def foldl_sum)
  then show ?thesis by (simp add: combine_cuda_def launch_eq [OF assms(2)])
qed

section \<open>The compute stream\<close>

text \<open>The working set once the stream has executed everything: it does not depend on how far the stream is.\<close>

definition settled :: "'r CudaEngine \<Rightarrow> Gpu" where
  "settled ce = foldl (run_item (ce_eng ce)) (ce_gpu ce) (ce_work ce)"

lemma settled_run_work [simp]: "settled (run_work n ce) = settled ce"
  unfolding settled_def run_work_def by simp (metis append_take_drop_id foldl_append)

lemma settled_submit [simp]: "settled (submit w ce) = run_item (ce_eng ce) (settled ce) w"
  by (simp add: settled_def submit_def)

lemma submit_simps [simp]:
  "ce_eng (submit w ce) = ce_eng ce" "ce_rt (submit w ce) = ce_rt ce" "ce_handles (submit w ce) = ce_handles ce"
  "ce_work (submit w ce) = ce_work ce @ [w]"
  by (simp_all add: submit_def)

lemma tick_simps [simp]:
  "settled (tick sched ce) = settled ce" "ce_eng (tick sched ce) = ce_eng ce" "ce_rt (tick sched ce) = ce_rt ce"
  "ce_handles (tick sched ce) = ce_handles ce" "set (ce_work (tick sched ce)) \<subseteq> set (ce_work ce)"
proof -
  show "settled (tick sched ce) = settled ce" by (simp add: tick_def) (simp add: settled_def)
qed (auto simp: tick_def run_work_def dest: in_set_dropD)

lemma settled_cong:
  assumes "ce_gpu ce' = ce_gpu ce" "ce_work ce' = ce_work ce" and "same_dims (ce_eng ce) (ce_eng ce')"
    and "\<And>p k. Run_expert p k \<in> set (ce_work ce) \<Longrightarrow> load_floats (e_mem (ce_eng ce')) p (e_blob_elems (ce_eng ce)) = load_floats (e_mem (ce_eng ce)) p (e_blob_elems (ce_eng ce))"
  shows "settled ce' = settled ce"
proof -
  have "foldl (run_item (ce_eng ce')) g ws = foldl (run_item (ce_eng ce)) g ws" if "set ws \<subseteq> set (ce_work ce)" for g ws
    using that
  proof (induction ws arbitrary: g)
    case (Cons w ws)
    have "run_item (ce_eng ce') g w = run_item (ce_eng ce) g w"
      using Cons.prems assms(3,4) by (auto simp: run_item_def same_dims_def split: work.split)
    then show ?case using Cons by simp
  qed simp
  then show ?thesis using assms(1,2) by (simp add: settled_def)
qed

section \<open>The experts of a layer\<close>

text \<open>
  What stays fixed while the experts of a layer are used: the state of the prefetcher, where the experts are, the dimensions and the
  weights; and every expert that waits in the compute stream has arrived and keeps its block.
\<close>

definition loop_ok ::
  "('r \<Rightarrow> bool) \<Rightarrow> ('r \<Rightarrow> copy list) \<Rightarrow> ('r \<Rightarrow> nat \<Rightarrow> nat option) \<Rightarrow> nat \<Rightarrow> (ExpertKey \<Rightarrow> nat) \<Rightarrow> nat \<Rightarrow> region \<Rightarrow> memory \<Rightarrow>
     (ExpertKey \<Rightarrow> region option) \<Rightarrow> int \<Rightarrow> nat list \<Rightarrow> 'r CudaEngine \<Rightarrow> bool" where
  "loop_ok good pend due s src n sp m0 rg layer experts ce \<longleftrightarrow>
     (let en = ce_eng ce; st = ((ce_rt ce, e_mem en), e_pf en, ce_handles ce)
      in cuda_inv good pend due s src n sp st \<and> 4 * e_blob_elems en = n \<and> cache_region (p_cache (e_pf en)) = rg \<and>
         (\<forall>e \<in> set experts. is_int32 (int e) \<and> issued (e_pf en) (ExpertKey layer (int e))) \<and>
         (\<forall>x \<in> - span (fst sp) (snd sp). e_mem en x = m0 x) \<and>
         (\<forall>p k. Run_expert p k \<in> set (ce_work ce) \<longrightarrow> (\<exists>e len. is_int32 e \<and> rg (ExpertKey layer e) = Some (p, len) \<and> arrived pend st layer e)))"

definition weights_of :: "(ExpertKey \<Rightarrow> nat) \<Rightarrow> memory \<Rightarrow> nat \<Rightarrow> int \<Rightarrow> int \<Rightarrow> real list" where
  "weights_of src m elems layer e = load_floats m (src (ExpertKey layer e)) elems"

lemma loop_okD:
  assumes "loop_ok good pend due s src n sp m0 rg layer experts ce"
  shows "cuda_inv good pend due s src n sp ((ce_rt ce, e_mem (ce_eng ce)), e_pf (ce_eng ce), ce_handles ce)"
    "4 * e_blob_elems (ce_eng ce) = n" "cache_region (p_cache (e_pf (ce_eng ce))) = rg"
    "e \<in> set experts \<Longrightarrow> is_int32 (int e) \<and> issued (e_pf (ce_eng ce)) (ExpertKey layer (int e))"
    "\<forall>x \<in> - span (fst sp) (snd sp). e_mem (ce_eng ce) x = m0 x"
    "Run_expert p k \<in> set (ce_work ce) \<Longrightarrow> \<exists>e len. is_int32 e \<and> rg (ExpertKey layer e) = Some (p, len) \<and>
       arrived pend ((ce_rt ce, e_mem (ce_eng ce)), e_pf (ce_eng ce), ce_handles ce) layer e"
  using assms unfolding loop_ok_def Let_def by blast+

text \<open>Ticks and items that are no experts change nothing of it.\<close>

lemma loop_ok_work:
  assumes "loop_ok good pend due s src n sp m0 rg layer experts ce" and "ce_eng ce' = ce_eng ce" "ce_rt ce' = ce_rt ce" "ce_handles ce' = ce_handles ce"
    and "\<And>p k. Run_expert p k \<in> set (ce_work ce') \<Longrightarrow> Run_expert p k \<in> set (ce_work ce)"
  shows "loop_ok good pend due s src n sp m0 rg layer experts ce'"
  using assms unfolding loop_ok_def Let_def by simp blast

lemma loop_ok_tick: "loop_ok good pend due s src n sp m0 rg layer experts ce \<Longrightarrow> loop_ok good pend due s src n sp m0 rg layer experts (tick sched ce)"
  by (erule loop_ok_work) (use tick_simps(5) in blast | simp)+

context streaming
begin

lemma resident_weights:
  assumes inv: "cuda_inv good pend due s src n sp ((d, m), pf, ch)" and el: "4 * elems = n" and le: "is_int32 layer" "is_int32 e"
    and out: "\<forall>x \<in> - span (fst sp) (snd sp). m x = m0 x"
    and r: "cache_region (p_cache pf) (ExpertKey layer e) = Some (p, len)" and a: "arrived pend ((d, m), pf, ch) layer e"
  shows "load_floats m p elems = weights_of src m0 elems layer e"
proof -
  let ?k = "ExpertKey layer e"
  have sb: "same_bytes m p (src ?k) n" by (rule arrived_bytes [OF inv le a r])
  have "m (p + i) = m0 (src ?k + i)" if "i < 4 * elems" for i
  proof -
    have "src ?k + i \<in> span (src ?k) n" using that el by simp
    then have "src ?k + i \<in> - span (fst sp) (snd sp)" using flowD(1) [OF cuda_invD(10) [OF inv]] unfolding away_def by blast
    then have "m (src ?k + i) = m0 (src ?k + i)" using out by blast
    then show ?thesis using sb that el by (simp add: same_bytes_def)
  qed
  then show ?thesis unfolding weights_of_def by (rule load_floats_cong)
qed

text \<open>Waiting for an expert keeps all of it, and what the compute stream will have computed.\<close>

lemma waited_ok:
  assumes ok: "loop_ok good pend due s src n sp m0 rg layer experts ce" and l: "is_int32 layer" and e: "e \<in> set experts"
    and w: "wait_on cu (ce_rt ce, e_mem (ce_eng ce)) (e_pf (ce_eng ce), ce_handles ce) layer (int e) = (r, (d, m), pf, ch)"
    and ce1: "ce1 = ce\<lparr>ce_eng := (ce_eng ce)\<lparr>e_mem := m, e_pf := pf\<rparr>, ce_rt := d, ce_handles := ch\<rparr>"
  shows "loop_ok good pend due s src n sp m0 rg layer experts ce1" "same_dims (ce_eng ce) (ce_eng ce1)" "settled ce1 = settled ce"
    "arrived pend ((d, m), pf, ch) layer (int e)"
proof -
  note o = loop_okD [OF ok]
  let ?en = "ce_eng ce"
  have e: "is_int32 (int e)" "issued (e_pf ?en) (ExpertKey layer (int e))" using o(4) e by simp_all
  note wi = wait_on_inv [OF o(1) l e(1) w]
  show "arrived pend ((d, m), pf, ch) layer (int e)" using wi(4,5) e(2) by (simp add: issued_def)
  have mout: "\<forall>x \<in> - span (fst sp) (snd sp). m x = m0 x" using wi(7) o(5) by simp
  have rg: "cache_region (p_cache pf) = rg" using wi(2) o(3) by simp
  have eng1: "ce_eng ce1 = ?en\<lparr>e_mem := m, e_pf := pf\<rparr>" "ce_rt ce1 = d" "ce_handles ce1 = ch" "ce_work ce1 = ce_work ce"
    by (simp_all add: ce1)
  show "loop_ok good pend due s src n sp m0 rg layer experts ce1"
    unfolding loop_ok_def Let_def
  proof (intro conjI)
    show "\<forall>p k. Run_expert p k \<in> set (ce_work ce1) \<longrightarrow> (\<exists>e len. is_int32 e \<and> rg (ExpertKey layer e) = Some (p, len) \<and>
        arrived pend ((ce_rt ce1, e_mem (ce_eng ce1)), e_pf (ce_eng ce1), ce_handles ce1) layer e)"
      using o(6) wi(6) by (simp add: eng1) blast
  qed (use wi(1,3) o(2,4) mout rg in \<open>simp_all add: eng1 issued_def\<close>)
  show sd: "same_dims ?en (ce_eng ce1)" by (simp add: eng1 same_dims_def)
  show "settled ce1 = settled ce"
  proof (rule settled_cong [OF _ eng1(4) sd])
    fix p j assume "Run_expert p j \<in> set (ce_work ce)"
    then obtain e2 len where x: "is_int32 e2" "rg (ExpertKey layer e2) = Some (p, len)"
      "arrived pend ((ce_rt ce, e_mem ?en), e_pf ?en, ce_handles ce) layer e2" using o(6) by blast
    show "load_floats (e_mem (ce_eng ce1)) p (e_blob_elems ?en) = load_floats (e_mem ?en) p (e_blob_elems ?en)"
      using resident_weights [OF o(1,2) l x(1) o(5) _ x(3)] resident_weights [OF wi(1) o(2) l x(1) mout _ wi(6) [OF x(3)]] x(2) rg o(3)
      by (simp add: eng1)
  qed (simp add: ce1)
qed

lemma use_expert_on_ok:
  assumes ok: "loop_ok good pend due s src n sp m0 rg layer experts ce" and l: "is_int32 layer" and k: "k < length experts"
  shows "loop_ok good pend due s src n sp m0 rg layer experts (use_expert_on cu sched layer experts ce k)"
    "same_dims (ce_eng ce) (ce_eng (use_expert_on cu sched layer experts ce k))"
    "settled (use_expert_on cu sched layer experts ce k) =
      (if rg (ExpertKey layer (int (experts ! k))) = None then settled ce
       else run_expert (e_inter (ce_eng ce)) (e_hidden (ce_eng ce)) (weights_of src m0 (e_blob_elems (ce_eng ce)) layer (int (experts ! k))) (settled ce) k)"
proof -
  let ?e = "int (experts ! k)" and ?en = "ce_eng ce" and ?ce' = "use_expert_on cu sched layer experts ce k"
  have mem: "experts ! k \<in> set experts" using k by simp
  obtain r d m pf ch where w: "wait_on cu (ce_rt ce, e_mem ?en) (e_pf ?en, ce_handles ce) layer ?e = (r, (d, m), pf, ch)" by (metis prod.exhaust)
  define ce1 where "ce1 = ce\<lparr>ce_eng := ?en\<lparr>e_mem := m, e_pf := pf\<rparr>, ce_rt := d, ce_handles := ch\<rparr>"
  note W = waited_ok [OF ok l mem w ce1_def]
  have eng1: "ce_eng ce1 = ?en\<lparr>e_mem := m, e_pf := pf\<rparr>" "ce_rt ce1 = d" "ce_handles ce1 = ch" by (simp_all add: ce1_def)
  note o = loop_okD [OF W(1), unfolded eng1, simplified]
  have e: "is_int32 ?e" using o(4) mem by blast
  let ?ce2 = "tick sched ce1"
  have l2: "loop_ok good pend due s src n sp m0 rg layer experts ?ce2" by (rule loop_ok_tick [OF W(1)])
  have "loop_ok good pend due s src n sp m0 rg layer experts ?ce' \<and> same_dims ?en (ce_eng ?ce') \<and> settled ?ce' =
      (if rg (ExpertKey layer ?e) = None then settled ce
       else run_expert (e_inter ?en) (e_hidden ?en) (weights_of src m0 (e_blob_elems ?en) layer ?e) (settled ce) k)"
  proof (cases "rg (ExpertKey layer ?e)")
    case None
    let ?ce3 = "?ce2\<lparr>ce_eng := (ce_eng ?ce2)\<lparr>e_stats := (e_stats (ce_eng ?ce2))\<lparr>es_fallbacks := Suc (es_fallbacks (e_stats (ce_eng ?ce2)))\<rparr>\<rparr>\<rparr>"
    have u: "?ce' = ?ce3" using w None o(3) by (simp add: use_expert_on_def Let_def cache_data_region ce1_def)
    have "loop_ok good pend due s src n sp m0 rg layer experts ?ce3" using l2 unfolding loop_ok_def Let_def by simp
    moreover have "settled ?ce3 = settled ?ce2" by (rule settled_cong) (simp_all add: same_dims_def)
    ultimately show ?thesis using None W(2,3) unfolding u by (simp add: same_dims_def)
  next
    case (Some x)
    obtain p len where x: "x = (p, len)" by fastforce
    have p: "p \<noteq> nullptr" "cache_data (p_cache pf) layer ?e = p"
      using Some x o(3) vram_store.region_inside [OF cuda_invD(2) [OF o(1)], of "ExpertKey layer ?e"] by (simp_all add: cache_data_region)
    have u: "?ce' = tick sched (submit (Run_expert p k) ?ce2)" using w p by (simp add: use_expert_on_def Let_def ce1_def)
    have "loop_ok good pend due s src n sp m0 rg layer experts (submit (Run_expert p k) ?ce2)"
      using l2 Some x e W(4) unfolding loop_ok_def Let_def by (auto simp: eng1)
    then have "loop_ok good pend due s src n sp m0 rg layer experts ?ce'" unfolding u by (rule loop_ok_tick)
    moreover have "load_floats m p (e_blob_elems ?en) = weights_of src m0 (e_blob_elems ?en) layer ?e"
      using resident_weights [OF o(1,2) l e o(5) _ W(4)] Some x o(3) by simp
    ultimately show ?thesis using Some W(2,3) unfolding u by (simp add: same_dims_def eng1 run_item_def)
  qed
  then show "loop_ok good pend due s src n sp m0 rg layer experts ?ce'" "same_dims ?en (ce_eng ?ce')" "settled ?ce' =
      (if rg (ExpertKey layer ?e) = None then settled ce
       else run_expert (e_inter ?en) (e_hidden ?en) (weights_of src m0 (e_blob_elems ?en) layer ?e) (settled ce) k)" by blast+
qed

text \<open>All experts of the layer, in the order of prediction.\<close>

lemma use_all_on_ok:
  assumes ok: "loop_ok good pend due s src n sp m0 rg layer experts ce" and l: "is_int32 layer" and j: "j \<le> length experts"
    and W: "W = (\<lambda>k. if rg (ExpertKey layer (int (experts ! k))) = None then None
      else Some (weights_of src m0 (e_blob_elems (ce_eng ce)) layer (int (experts ! k))))"
  shows "loop_ok good pend due s src n sp m0 rg layer experts (foldl (use_expert_on cu sched layer experts) ce [0 ..< j]) \<and>
    same_dims (ce_eng ce) (ce_eng (foldl (use_expert_on cu sched layer experts) ce [0 ..< j])) \<and>
    settled (foldl (use_expert_on cu sched layer experts) ce [0 ..< j]) = run_rows (e_inter (ce_eng ce)) (e_hidden (ce_eng ce)) W (settled ce) j"
  using j
proof (induction j)
  case 0
  then show ?case using ok by (simp add: run_rows_def same_dims_def)
next
  case (Suc j)
  let ?ce = "foldl (use_expert_on cu sched layer experts) ce [0 ..< j]"
  have IH: "loop_ok good pend due s src n sp m0 rg layer experts ?ce" "same_dims (ce_eng ce) (ce_eng ?ce)"
    "settled ?ce = run_rows (e_inter (ce_eng ce)) (e_hidden (ce_eng ce)) W (settled ce) j" using Suc by simp_all
  have j: "j < length experts" using Suc.prems by simp
  note u = use_expert_on_ok [OF IH(1) l j, of sched]
  have "run_rows (e_inter (ce_eng ce)) (e_hidden (ce_eng ce)) W (settled ce) (Suc j) = settled (use_expert_on cu sched layer experts ?ce j)"
    using u(3) IH(2,3) by (simp add: run_rows_def W same_dims_def)
  then show ?case using u(1,2) IH(2) by (simp add: same_dims_def)
qed

end

section \<open>Staging\<close>

lemma stage_all_on_warm:
  assumes "staged src (ce_eng ce) layer experts"
    and "prefetch_all_on cu src (e_blob_bytes (ce_eng ce)) (requests (cfg_topk (e_cfg (ce_eng ce))) layer experts)
      ((ce_rt ce, e_mem (ce_eng ce)), e_pf (ce_eng ce), ce_handles ce) = ((r, m), pf, ch)"
  shows "stage_all_on cu env ce layer experts = ce\<lparr>ce_eng := (ce_eng ce)\<lparr>e_mem := m, e_pf := pf\<rparr>, ce_rt := r, ce_handles := ch\<rparr>"
proof -
  let ?en = "ce_eng ce" and ?n = "e_blob_bytes (ce_eng ce)" and ?st = "((ce_rt ce, e_mem (ce_eng ce)), e_pf (ce_eng ce), ce_handles ce)"
  let ?rq = "\<lambda>k. (ExpertKey layer (int (experts ! k)), to_int32 (cfg_topk (e_cfg ?en) - int k))"
  have "foldl (\<lambda>ce k. stage_expert_on cu env ce layer (int (experts ! k)) (to_int32 (cfg_topk (e_cfg (ce_eng ce)) - int k))) ce [0 ..< j] =
      (case prefetch_all_on cu src ?n (map ?rq [0 ..< j]) ?st of ((r, m), pf, ch) \<Rightarrow>
         ce\<lparr>ce_eng := ?en\<lparr>e_mem := m, e_pf := pf\<rparr>, ce_rt := r, ce_handles := ch\<rparr>)"
    if "j \<le> length experts" for j
    using that
  proof (induction j)
    case (Suc j)
    have "experts ! j \<in> set experts" using Suc.prems by simp
    then have s: "map_of (e_staging ?en) (int (experts ! j)) = Some (src (ExpertKey layer (int (experts ! j))))"
      "src (ExpertKey layer (int (experts ! j))) \<noteq> nullptr" using assms(1) by (auto simp: staged_def)
    obtain r1 m1 pf1 ch1 where p1: "prefetch_all_on cu src ?n (map ?rq [0 ..< j]) ?st = ((r1, m1), pf1, ch1)"
      by (cases "prefetch_all_on cu src ?n (map ?rq [0 ..< j]) ?st") auto
    obtain x r2 m2 pf2 ch2 where p2: "prefetch_on cu (r1, m1) (pf1, ch1) layer (int (experts ! j)) (src (ExpertKey layer (int (experts ! j)))) ?n
        (to_int32 (cfg_topk (e_cfg ?en) - int j)) = (x, (r2, m2), pf2, ch2)" by (metis prod.exhaust)
    let ?f = "\<lambda>ce k. stage_expert_on cu env ce layer (int (experts ! k)) (to_int32 (cfg_topk (e_cfg (ce_eng ce)) - int k))"
    let ?c1 = "ce\<lparr>ce_eng := ?en\<lparr>e_mem := m1, e_pf := pf1\<rparr>, ce_rt := r1, ce_handles := ch1\<rparr>"
    have "foldl ?f ce [0 ..< j] = ?c1" using Suc.IH [OF Suc_leD [OF Suc.prems]] unfolding p1 by simp
    then have "foldl ?f ce [0 ..< Suc j] = ?f ?c1 j" by simp
    also have "\<dots> = ce\<lparr>ce_eng := ?en\<lparr>e_mem := m2, e_pf := pf2\<rparr>, ce_rt := r2, ce_handles := ch2\<rparr>"
      using s p2 by (simp add: stage_expert_on_def get_staging_def)
    moreover have "prefetch_all_on cu src ?n (map ?rq [0 ..< Suc j]) ?st = ((r2, m2), pf2, ch2)"
      using p2 by (simp add: prefetch_all_on_append p1)
    ultimately show ?case by simp
  qed simp
  from this [of "length experts"] show ?thesis using assms(2) by (simp add: stage_all_on_def requests_def)
qed

section \<open>The steps of a layer\<close>

text \<open>Staging leaves the state from which the experts are used, with the experts where the default build has them.\<close>

lemma layer_staged:
  assumes st: "streaming good pend due cu s" and en: "ce_eng ce = en"
    and re: "cuda_reachable good pend due cu s src (e_blob_bytes en) cap ((ce_rt ce, e_mem en), e_pf en, ce_handles ce)"
    and n: "e_blob_bytes en = 4 * e_blob_elems en" and l: "is_int32 layer" and sg: "staged src en layer experts"
    and e32: "\<forall>e \<in> set experts. is_int32 (int e)" and len: "length (p_inflight (e_pf en)) + length experts < 2 ^ 31" and w: "ce_work ce = []"
  shows "\<exists>ce1. stage_all_on cu env ce layer experts = ce1 \<and> same_dims en (ce_eng ce1) \<and> ce_work ce1 = [] \<and> ce_gpu ce1 = ce_gpu ce \<and>
    loop_ok good pend due s src (e_blob_bytes en) (cache_space (p_cache (e_pf en))) (e_mem en)
      (cache_region (p_cache (e_pf (stage_all env en layer experts)))) layer experts ce1"
proof -
  let ?n = "e_blob_bytes en" and ?rq = "requests (cfg_topk (e_cfg en)) layer experts"
  let ?sp = "cache_space (p_cache (e_pf en))" and ?st = "((ce_rt ce, e_mem en), e_pf en, ce_handles ce)"
  have inv: "cuda_inv good pend due s src ?n ?sp ?st" using streaming.cuda_reachable_inv [OF st re] by simp
  obtain r m pf ch where pa: "prefetch_all_on cu src ?n ?rq ?st = ((r, m), pf, ch)" by (metis prod.exhaust)
  have ks: "\<forall>k \<in> fst ` set ?rq. key_ok k" "length (p_inflight (e_pf en)) + length ?rq < 2 ^ 31"
    unfolding requests_keys using l e32 len by (simp_all add: key_ok_def requests_def)
  have p: "cuda_inv good pend due s src ?n ?sp ((r, m), pf, ch)" "pf = prefetch_all src ?n ?rq (e_pf en)"
    "\<forall>x \<in> - span (fst ?sp) (snd ?sp). m x = e_mem en x" "\<forall>k. k \<in> fst ` set ?rq \<longrightarrow> issued pf k"
    using streaming.prefetch_all_on_inv [OF st inv ks pa] by blast+
  have pf: "e_pf (stage_all env en layer experts) = pf" using stage_all_warm [OF sg, of env] p(2) by simp
  let ?ce1 = "ce\<lparr>ce_eng := en\<lparr>e_mem := m, e_pf := pf\<rparr>, ce_rt := r, ce_handles := ch\<rparr>"
  have ce1: "stage_all_on cu env ce layer experts = ?ce1"
    using stage_all_on_warm [of src ce layer experts cu r m pf ch env] en sg pa by simp
  have "\<forall>e \<in> set experts. is_int32 (int e) \<and> issued pf (ExpertKey layer (int e))"
    using p(4) e32 unfolding requests_keys by blast
  then have "loop_ok good pend due s src ?n ?sp (e_mem en) (cache_region (p_cache pf)) layer experts ?ce1"
    unfolding loop_ok_def Let_def using p(1,3) n w by simp
  then show ?thesis using ce1 pf w by (simp add: same_dims_def)
qed

text \<open>Once all of its work has run, the compute stream has left each expert's output in its row.\<close>

lemma layer_rows:
  assumes st: "streaming good pend due cu s" and ok: "loop_ok good pend due s src n sp m0 rg layer experts ce" and l: "is_int32 layer"
    and w: "ce_work ce = []" and d: "en = ce_eng ce" "e_inter en = I" "e_hidden en = H" "e_blob_elems en = elems"
    and g: "gpu_ok I H (length experts) (ce_gpu ce)" and x: "length h_in = H"
    and ce3: "ce3 = foldl (use_expert_on cu sched layer experts) (tick sched (submit (Upload h_in) ce)) [0 ..< length experts]"
  shows "same_dims en (ce_eng ce3) \<and> gpu_ok I H (length experts) (settled ce3) \<and>
    (\<forall>k < length experts. row H (bf_data (g_ybuf (settled ce3))) k =
       (if rg (ExpertKey layer (int (experts ! k))) = None then row H (bf_data (g_ybuf (ce_gpu ce))) k
        else cuda_expert (weights_of src m0 elems layer (int (experts ! k))) h_in I H))"
proof -
  let ?N = "length experts" and ?ce2 = "tick sched (submit (Upload h_in) ce)"
  have l2: "loop_ok good pend due s src n sp m0 rg layer experts ?ce2"
    by (rule loop_ok_tick, rule loop_ok_work [OF ok]) simp_all
  let ?g2 = "(ce_gpu ce)\<lparr>g_h_in := (g_h_in (ce_gpu ce))\<lparr>bf_data := h_in\<rparr>\<rparr>"
  have s2: "settled ?ce2 = ?g2"
    using g x w d by (simp add: settled_def [of ce] run_item_def copy_floats_def gpu_ok_def)
  have g2: "gpu_ok I H ?N ?g2" using g x by (simp add: gpu_ok_def)
  define W where "W = (\<lambda>k. if rg (ExpertKey layer (int (experts ! k))) = None then None
      else Some (weights_of src m0 (e_blob_elems (ce_eng ?ce2)) layer (int (experts ! k))))"
  have u: "same_dims en (ce_eng ce3)" "settled ce3 = run_rows I H W ?g2 ?N"
    using streaming.use_all_on_ok [OF st l2 l le_refl W_def, of sched] s2 d by (simp_all add: ce3)
  note R = run_rows_ok [OF g2 le_refl, of W]
  have "row H (bf_data (g_ybuf (settled ce3))) k =
      (if rg (ExpertKey layer (int (experts ! k))) = None then row H (bf_data (g_ybuf (ce_gpu ce))) k
       else cuda_expert (weights_of src m0 elems layer (int (experts ! k))) h_in I H)" if k: "k < ?N" for k
    using R k d by (simp add: u(2) W_def)
  then show ?thesis using u R by simp
qed

text \<open>The combination of the rows and the transfer of the result end the layer.\<close>

lemma layer_finished:
  assumes g: "gpu_ok I H N (settled ce)" and H: "e_hidden (ce_eng ce) = H"
    and rows: "\<forall>k < N. row H (bf_data (g_ybuf (settled ce))) k = rows ! k"
    and ce5: "ce5 = tick sched (submit Download (tick sched (submit (Combine_rows N) ce)))"
  shows "g_out (ce_gpu (run_work (length (ce_work ce5)) ce5)) = map (\<lambda>i. (\<Sum>k < N. rows ! k ! i) / real N) [0 ..< H]"
    "ce_work (run_work (length (ce_work ce5)) ce5) = []" "e_hidden (ce_eng (run_work (length (ce_work ce5)) ce5)) = H"
proof -
  let ?ce6 = "run_work (length (ce_work ce5)) ce5"
  let ?out = "combine_cuda (bf_data (g_ybuf (settled ce))) (bf_data (g_h_out (settled ce))) N H"
  show w: "ce_work ?ce6 = []" and "e_hidden (ce_eng ?ce6) = H" using H by (simp_all add: run_work_def ce5)
  have out: "?out = map (\<lambda>i. (\<Sum>k < N. rows ! k ! i) / real N) [0 ..< H]"
    using combine_rows [of N H "bf_data (g_ybuf (settled ce))" "bf_data (g_h_out (settled ce))"] g rows by (simp add: gpu_ok_def)
  have "ce_gpu ?ce6 = settled ?ce6" using w by (simp add: settled_def)
  also have "\<dots> = run_item (ce_eng ce) (run_item (ce_eng ce) (settled ce) (Combine_rows N)) Download" by (simp add: ce5)
  finally have "g_out (ce_gpu ?ce6) = copy_floats H ?out (g_out (settled ce))" using H by (simp add: run_item_def)
  also have "\<dots> = ?out" using g out by (simp add: copy_floats_def gpu_ok_def)
  finally show "g_out (ce_gpu ?ce6) = map (\<lambda>i. (\<Sum>k < N. rows ! k ! i) / real N) [0 ..< H]" using out by simp
qed

section \<open>Properties\<close>

text \<open>
  C9: what a forward pass computes in the CUDA build. On every runtime that keeps the contract of its copy stream, in every reachable state of
  the prefetcher in which the blobs of the predicted experts are staged, and however the compute stream and the copy stream advance, the
  pass returns the rescaled mean over \<open>K\<close> rows. The row of an expert that is still resident after the layer's prefetches is the
  output of the CUDA kernels on exactly its staged weights; the row of an evicted one is whatever the output buffer held at that place before
  the pass, which the mean still counts.
\<close>

theorem forward_layer_cuda_correct:
  assumes "streaming good pend due cu s" and "en = ce_eng ce"
    and "cuda_reachable good pend due cu s src (e_blob_bytes en) cap ((ce_rt ce, e_mem en), e_pf en, ce_handles ce)"
    and "e_blob_bytes en = 4 * e_blob_elems en" and "is_int32 layer"
    and "oracle_predict (env_sort env) (e_oracle en) layer h_in (cfg_topk (e_cfg en)) = Inr experts" and "experts \<noteq> []"
    and "staged src en layer experts" and "\<forall>e \<in> set experts. is_int32 (int e)"
    and "length (p_inflight (e_pf en)) + length experts < 2 ^ 31"
    and "ce_work ce = []" and "gpu_ok (e_inter en) (e_hidden en) (length experts) ((ce_gpu ce)\<lparr>g_out := h_out\<rparr>)" and "length h_in = e_hidden en"
    and "rows = map (\<lambda>k. if cache_is_resident (p_cache (e_pf (stage_all env en layer experts))) layer (int (experts ! k))
        then cuda_expert (load_floats (e_mem en) (src (ExpertKey layer (int (experts ! k)))) (e_blob_elems en)) h_in (e_inter en) (e_hidden en)
        else row (e_hidden en) (bf_data (g_ybuf (ce_gpu ce))) k) [0 ..< length experts]"
  shows "\<exists>ce'. forward_layer_cuda cu env sched ce layer h_in h_out = Inr (stabilize (e_hidden en)
      (map (\<lambda>i. (\<Sum>k < length experts. rows ! k ! i) / real (length experts)) [0 ..< e_hidden en]), ce') \<and> ce_work ce' = []"
proof -
  let ?N = "length experts" and ?H = "e_hidden en" and ?I = "e_inter en" and ?pf = "e_pf (stage_all env en layer experts)"
  define ce0 where "ce0 = ce\<lparr>ce_gpu := (ce_gpu ce)\<lparr>g_out := h_out\<rparr>\<rparr>"
  have ce0: "ce_eng ce0 = en" "ce_rt ce0 = ce_rt ce" "ce_handles ce0 = ce_handles ce" "ce_work ce0 = []" "ce_gpu ce0 = (ce_gpu ce)\<lparr>g_out := h_out\<rparr>"
    using assms(2,11) by (simp_all add: ce0_def)
  obtain ce1 where c1: "stage_all_on cu env ce0 layer experts = ce1" "same_dims en (ce_eng ce1)" "ce_work ce1 = []" "ce_gpu ce1 = ce_gpu ce0"
    and l1: "loop_ok good pend due s src (e_blob_bytes en) (cache_space (p_cache (e_pf en))) (e_mem en) (cache_region (p_cache ?pf)) layer experts ce1"
    using layer_staged [OF assms(1) ce0(1) _ assms(4,5,8-10) ce0(4), of cap env] assms(3) ce0(2,3) by auto
  have d1: "e_inter (ce_eng ce1) = ?I" "e_hidden (ce_eng ce1) = ?H" "e_blob_elems (ce_eng ce1) = e_blob_elems en"
    using c1(2) by (simp_all add: same_dims_def)
  have g1: "gpu_ok ?I ?H ?N (ce_gpu ce1)" using assms(12) c1(4) ce0(5) by simp
  define ce3 where "ce3 = foldl (use_expert_on cu sched layer experts) (tick sched (submit (Upload h_in) ce1)) [0 ..< ?N]"
  note R = layer_rows [OF assms(1) l1 assms(5) c1(3) refl d1 g1 assms(13) ce3_def]
  have H3: "e_hidden (ce_eng ce3) = ?H" using R d1 by (simp add: same_dims_def)
  have rows: "\<forall>k < ?N. row ?H (bf_data (g_ybuf (settled ce3))) k = rows ! k"
    using R c1(4) ce0(5) by (auto simp: assms(14) cache_data_region(3) weights_of_def)
  define ce5 where "ce5 = tick sched (submit Download (tick sched (submit (Combine_rows ?N) ce3)))"
  note F = layer_finished [OF _ H3 rows ce5_def, of ?I]
  have "forward_layer_cuda cu env sched ce layer h_in h_out =
      (let ce6 = run_work (length (ce_work ce5)) ce5 in Inr (stabilize (e_hidden (ce_eng ce6)) (g_out (ce_gpu ce6)), ce6))"
    using assms(2,6,7) c1(1) by (simp add: forward_layer_cuda_def Let_def ce0_def [symmetric] ce3_def ce5_def)
  then show ?thesis using F R by (simp add: Let_def)
qed

definition example_cuda_engine :: "(nat \<times> MockCudaDevice) CudaEngine" where
  "example_cuda_engine = (cuda_engine_new example_memory (fst (fst example_cuda)))\<lparr>
     ce_eng := example_engine\<lparr>e_cfg := default_config\<lparr>cfg_topk := 3, cfg_use_cuda := True\<rparr>, e_pf := fst (snd example_cuda),
       e_staging := [(0, 100000), (1, 200000), (2, 300000)]\<rparr>,
     ce_handles := snd (snd example_cuda),
     ce_gpu := \<lparr>g_h_in = \<lparr>bf_ptr = 1, bf_data = [0]\<rparr>, g_h_out = \<lparr>bf_ptr = 2, bf_data = [0]\<rparr>, g_hbuf = \<lparr>bf_ptr = 3, bf_data = [0]\<rparr>,
       g_ybuf = \<lparr>bf_ptr = 4, bf_data = [7, 7, 7]\<rparr>, g_out = []\<rparr>\<rparr>"

lemma example_cuda_parts:
  "fst (snd example_cuda) = (prefetcher_new example_cache 64)\<lparr>p_use_cuda := True\<rparr>" "snd (fst example_cuda) = example_memory"
  by (auto simp: example_cuda_def prefetcher_init_on_def cuda_init_on_def mock_runtime_def mock_fresh_def)

theorem forward_layer_cuda_correct_witness:
  "\<exists>ce'. forward_layer_cuda (mock_runtime id) example_env (\<lambda>_. 1) example_cuda_engine 0 [1] [0] = Inr (stabilize 1
     [(cuda_expert (load_floats example_memory 200000 64) [1] 1 1 ! 0 + 7 + cuda_expert (load_floats example_memory 100000 64) [1] 1 1 ! 0) / 3], ce')"
proof -
  let ?ce = example_cuda_engine and ?en = "ce_eng example_cuda_engine"
  have en: "e_blob_bytes ?en = 256" "e_blob_elems ?en = 64" "e_hidden ?en = 1" "e_inter ?en = 1" "e_mem ?en = example_memory" "ce_work ?ce = []"
    by (simp_all add: example_cuda_engine_def example_engine_def engine_new_def cuda_engine_new_def)
  have r: "mock_reach ((ce_rt ?ce, e_mem ?en), e_pf ?en, ce_handles ?ce)"
    using example_cuda_reachable example_cuda_parts(2) en(5) by (simp add: example_cuda_engine_def cuda_engine_new_def) (metis prod.collapse)
  have pr: "oracle_predict (env_sort example_env) (e_oracle ?en) 0 [1] (cfg_topk (e_cfg ?en)) = Inr [1, 2, 0]"
    by (simp add: example_env_def example_cuda_engine_def example_engine_def oracle_predict_def oracle_forward_def example_oracle_def Let_def linear_def
        relu_def insertion_sort_def upt_rec [of _ 3] upt_rec [of _ 1] default_config_def)
  have st: "staged example_src ?en 0 [1, 2, 0]" by (simp add: staged_def example_cuda_engine_def example_src_def)
  have res: "cache_is_resident (p_cache (e_pf (stage_all example_env ?en 0 [1, 2, 0]))) 0 1 \<and>
     \<not> cache_is_resident (p_cache (e_pf (stage_all example_env ?en 0 [1, 2, 0]))) 0 2 \<and> 
     cache_is_resident (p_cache (e_pf (stage_all example_env ?en 0 [1, 2, 0]))) 0 0"
    unfolding stage_all_warm [OF st] en
    by (simp add: example_cuda_engine_def example_cuda_parts default_config_def requests_def prefetcher_eval cuda_submit_def example_src_def)
  have "\<exists>ce'. forward_layer_cuda (mock_runtime id) example_env (\<lambda>_. 1) ?ce 0 [1] [0] = Inr (stabilize (e_hidden ?en)
      (map (\<lambda>i. (\<Sum>k < length [1, 2, 0 :: nat]. map (\<lambda>k. if cache_is_resident (p_cache (e_pf (stage_all example_env ?en 0 [1, 2, 0]))) 0 (int ([1, 2, 0] ! k))
        then cuda_expert (load_floats (e_mem ?en) (example_src (ExpertKey 0 (int ([1, 2, 0] ! k)))) (e_blob_elems ?en)) [1] (e_inter ?en) (e_hidden ?en)
        else row (e_hidden ?en) (bf_data (g_ybuf (ce_gpu ?ce))) k) [0 ..< length [1, 2, 0 :: nat]] ! k ! i) / real (length [1, 2, 0 :: nat])) [0 ..< e_hidden ?en]), ce') \<and> ce_work ce' = []"
    by (rule forward_layer_cuda_correct [OF mock_streaming.streaming_axioms refl r [folded en(1)] _ _ pr _ st _ _ en(6) _ _ refl])
      (simp_all add: en is_int32_def example_cuda_engine_def example_engine_def example_cuda_parts prefetcher_new_def gpu_ok_def)
  moreover have "bf_data (g_ybuf (ce_gpu ?ce)) = [7, 7, 7]" by (simp add: example_cuda_engine_def)
  ultimately show ?thesis using res by (auto simp: en numeral_3_eq_3 row_def example_src_def)
qed

end
