(* ===== verification/EngineCudaRun.thy ===== *)
theory EngineCudaRun
  imports EngineCuda Cli
begin

text \<open>
  Whole runs of the engine in the build with \<^verbatim>\<open>DEE_CUDA\<close>: what initialisation leaves, and that the generation loop ends
  within its budget, whatever the CUDA runtime does; and the command line program \<^verbatim>\<open>main.cpp\<close> in that build.
\<close>

definition cli_main_on ::
  "'r Cuda \<Rightarrow> Gpu_info \<Rightarrow> Env \<Rightarrow> (nat \<Rightarrow> nat) \<Rightarrow> Sys \<Rightarrow> 'z Zlib \<Rightarrow> memory \<Rightarrow> 'r \<Rightarrow> string list \<Rightarrow> (int \<times> EngineStats option) outcome" where
  "cli_main_on cu gi env sched sys z m r args =
     (case cli_parse cli_defaults args of
        None \<Rightarrow> Ret (2, None)
      | Some cfg \<Rightarrow>
          bind_out (init_on cu gi sys z (cuda_engine_new m r) cfg) (\<lambda>(ok, ce).
            if \<not> ok then Ret (1, None)
            else bind_out (of_exn (generate_on cu env sched ce)) (\<lambda>(_, ce'). Ret (0, Some (e_stats (ce_eng ce'))))))"

section \<open>The cache while the engine runs\<close>

lemma prefetch_on_cache: "p_cache (fst (snd (snd (prefetch_on cu d p l e s n pri)))) = snd (cache_ensure (p_cache (fst p)) l e n pri)"
  by (simp add: prefetch_on_def Let_def split: prod.split)

lemma wait_on_cache: "p_cache (fst (snd (snd (wait_on cu d p l e)))) = p_cache (fst p)"
  by (auto simp: wait_on_def cuda_wait_on_def drain_until_def Let_def split: prod.splits)

lemma stage_expert_on_ok:
  assumes "engine_ok cap en0 (ce_eng ce)"
  shows "engine_ok cap en0 (ce_eng (stage_expert_on cu env ce layer e pri))"
proof -
  obtain blob en1 where g: "get_staging env (ce_eng ce) e = (blob, en1)" by fastforce
  then have en1: "engine_ok cap en0 en1"
    using assms by (auto simp: get_staging_def engine_ok_def Let_def split: option.splits if_splits)
  let ?c = "p_cache (e_pf en1)"
  have "cache_step ?c (snd (cache_ensure ?c layer e (e_blob_bytes en1) pri))"
    using en1 cache_reachable_inv [of cap ?c] by (intro cache_step.ensure) (simp add: engine_ok_def)
  then have c: "cache_reachable cap (snd (cache_ensure ?c layer e (e_blob_bytes en1) pri))"
    using en1 by (auto simp: engine_ok_def intro: cache_reachable.step)
  obtain x r m pf ch where p: "prefetch_on cu (ce_rt ce, e_mem en1) (e_pf en1, ce_handles ce) layer e blob (e_blob_bytes en1) pri = (x, (r, m), pf, ch)"
    by (metis prod.exhaust)
  have "p_cache pf = snd (cache_ensure ?c layer e (e_blob_bytes en1) pri)"
    using prefetch_on_cache [of cu "(ce_rt ce, e_mem en1)" "(e_pf en1, ce_handles ce)"] p by (metis fst_conv snd_conv)
  then show ?thesis using g p en1 c by (simp add: stage_expert_on_def engine_ok_def)
qed

lemma stage_all_on_ok: "engine_ok cap en0 (ce_eng ce) \<Longrightarrow> engine_ok cap en0 (ce_eng (stage_all_on cu env ce layer experts))"
proof -
  assume "engine_ok cap en0 (ce_eng ce)"
  then have "engine_ok cap en0 (ce_eng (foldl (\<lambda>ce k. stage_expert_on cu env ce layer (int (experts ! k)) (to_int32 (cfg_topk (e_cfg (ce_eng ce)) - int k))) ce ks))" for ks
    by (induction ks arbitrary: ce) (simp_all add: stage_expert_on_ok)
  then show ?thesis by (simp add: stage_all_on_def)
qed

lemma run_work_eng [simp]: "ce_eng (run_work n ce) = ce_eng ce"
  by (simp add: run_work_def)

lemma use_expert_on_keeps: "engine_ok cap en0 (ce_eng ce) \<Longrightarrow> engine_ok cap en0 (ce_eng (use_expert_on cu sched layer experts ce k))"
proof -
  assume ok: "engine_ok cap en0 (ce_eng ce)"
  obtain x r m pf ch where w: "wait_on cu (ce_rt ce, e_mem (ce_eng ce)) (e_pf (ce_eng ce), ce_handles ce) layer (int (experts ! k)) = (x, (r, m), pf, ch)"
    by (metis prod.exhaust)
  have "p_cache pf = p_cache (e_pf (ce_eng ce))"
    using wait_on_cache [of cu "(ce_rt ce, e_mem (ce_eng ce))" "(e_pf (ce_eng ce), ce_handles ce)"] w by (metis fst_conv snd_conv)
  then show ?thesis using ok w by (simp add: use_expert_on_def engine_ok_def Let_def)
qed

lemma forward_layer_on_keeps:
  assumes ok: "engine_ok cap en0 (ce_eng ce)" and l: "0 \<le> layer" "layer < int (length (o_layers (e_oracle en0)))"
  shows "\<exists>h ce'. forward_layer_on cu env sched ce layer h_in h_out = Inr (h, ce') \<and> engine_ok cap en0 (ce_eng ce')"
proof (cases "cfg_use_cuda (e_cfg (ce_eng ce))")
  case False
  then show ?thesis using forward_layer_keeps [OF ok l, of env h_in] by (auto simp: forward_layer_on_def)
next
  case True
  have "e_oracle (ce_eng ce) = e_oracle en0" using ok by (simp add: engine_ok_def)
  then obtain experts where ex: "oracle_predict (env_sort env) (e_oracle (ce_eng ce)) layer h_in (cfg_topk (e_cfg (ce_eng ce))) = Inr experts"
    using l by (simp add: oracle_predict_def oracle_forward_def Let_def)
  have u: "engine_ok cap en0 (ce_eng (foldl (use_expert_on cu sched layer experts) ce1 ks))" if "engine_ok cap en0 (ce_eng ce1)" for ks ce1
    using that by (induction ks arbitrary: ce1) (simp_all add: use_expert_on_keeps)
  have "engine_ok cap en0 (ce_eng (stage_all_on cu env (ce\<lparr>ce_gpu := (ce_gpu ce)\<lparr>g_out := h_out\<rparr>\<rparr>) layer experts))"
    by (rule stage_all_on_ok) (simp add: ok)
  then show ?thesis using ex True ok u by (simp add: forward_layer_on_def forward_layer_cuda_def Let_def)
qed

lemma layer_loop_on_keeps:
  assumes "engine_ok cap en0 (ce_eng ce)" and "\<forall>L \<in> set Ls. 0 \<le> L \<and> L < int (length (o_layers (e_oracle en0)))"
  shows "\<exists>h ce'. layer_loop_on cu env sched Ls h_in h_out ce = Inr (h, ce') \<and> engine_ok cap en0 (ce_eng ce')"
  using assms
proof (induction Ls arbitrary: ce h_out)
  case (Cons L Ls)
  obtain h ce' where "forward_layer_on cu env sched ce L h_in h_out = Inr (h, ce')" "engine_ok cap en0 (ce_eng ce')"
    using forward_layer_on_keeps [OF Cons.prems(1)] Cons.prems(2) by fastforce
  then show ?case using Cons.IH [of ce' h] Cons.prems(2) by simp
qed simp

lemma token_loop_on_keeps:
  assumes "same_run cap en0 (ce_eng ce)" and "cfg_num_layers (e_cfg en0) \<le> int (length (o_layers (e_oracle en0)))"
  shows "\<exists>cur' nxt' ce'. token_loop_on cu env sched t cur nxt ce = Inr (cur', nxt', ce') \<and> same_run cap en0 (ce_eng ce')"
  using assms
proof (induction t arbitrary: cur nxt ce)
  case (Suc t)
  let ?en = "ce_eng ce"
  have "engine_ok cap ?en ?en" using Suc.prems(1) by (simp add: same_run_def engine_ok_def)
  moreover have "\<forall>L \<in> set [0 .. cfg_num_layers (e_cfg ?en) - 1]. 0 \<le> L \<and> L < int (length (o_layers (e_oracle ?en)))"
    using Suc.prems by (auto simp: same_run_def)
  ultimately obtain h ce1 where l: "layer_loop_on cu env sched [0 .. cfg_num_layers (e_cfg ?en) - 1] cur nxt ce = Inr (h, ce1)"
    and ok: "engine_ok cap ?en (ce_eng ce1)" using layer_loop_on_keeps by blast
  let ?en1 = "ce_eng ce1"
  let ?used = "cache_used_bytes (p_cache (e_pf ?en1))"
  let ?ce2 = "if es_peak_vram (e_stats ?en1) < ?used then ce1\<lparr>ce_eng := ?en1\<lparr>e_stats := (e_stats ?en1)\<lparr>es_peak_vram := ?used\<rparr>\<rparr>\<rparr> else ce1"
  have inv: "cache_inv (p_cache (e_pf ?en1))" "a_cap (c_arena (p_cache (e_pf ?en1))) = cap"
    using ok cache_reachable_inv by (auto simp: engine_ok_def)
  have "?used \<le> cap" using cache_used_le [OF inv(1)] inv(2) by (simp add: cache_used_bytes_def)
  then have "same_run cap en0 (ce_eng ?ce2)" using ok Suc.prems(1) by (auto simp: same_run_def engine_ok_def)
  from Suc.IH [OF this Suc.prems(2), of h cur] show ?case using l by (simp add: Let_def)
qed simp

lemma generate_on_keeps:
  assumes "same_run cap (ce_eng ce) (ce_eng ce)" and "cfg_num_layers (e_cfg (ce_eng ce)) \<le> int (length (o_layers (e_oracle (ce_eng ce))))"
  shows "\<exists>out ce'. generate_on cu env sched ce = Inr (out, ce') \<and> es_peak_vram (e_stats (ce_eng ce')) \<le> max cap (es_peak_vram (e_stats (ce_eng ce)))"
proof -
  obtain cur nxt ce1 where t: "token_loop_on cu env sched (nat (cfg_num_tokens (e_cfg (ce_eng ce)))) (prompt (e_hidden (ce_eng ce))) (e_buf1 (ce_eng ce)) ce = Inr (cur, nxt, ce1)"
    "same_run cap (ce_eng ce) (ce_eng ce1)" using token_loop_on_keeps [OF assms] by blast
  then show ?thesis by (simp add: generate_on_def gather_stats_def same_run_def Let_def split: prod.split)
qed

section \<open>After initialisation\<close>

lemma dev_alloc_eng [simp]:
  "e_pf (ce_eng (snd (dev_alloc cu gi ce n))) = e_pf (ce_eng ce)" "e_cfg (ce_eng (snd (dev_alloc cu gi ce n))) = e_cfg (ce_eng ce)"
  "e_oracle (ce_eng (snd (dev_alloc cu gi ce n))) = e_oracle (ce_eng ce)" "e_blob_bytes (ce_eng (snd (dev_alloc cu gi ce n))) = e_blob_bytes (ce_eng ce)"
  "e_stats (ce_eng (snd (dev_alloc cu gi ce n))) = e_stats (ce_eng ce)"
  by (simp_all add: dev_alloc_def split: prod.split)

lemma init_gpu_eng:
  assumes "init_gpu cu gi ce cfg = (ok, ce')"
  shows "e_pf (ce_eng ce') = e_pf (ce_eng ce)" "e_cfg (ce_eng ce') = e_cfg (ce_eng ce)" "e_oracle (ce_eng ce') = e_oracle (ce_eng ce)"
    "e_blob_bytes (ce_eng ce') = e_blob_bytes (ce_eng ce)" "es_peak_vram (e_stats (ce_eng ce')) = es_peak_vram (e_stats (ce_eng ce))"
proof -
  have *: "e_pf (ce_eng (snd (init_gpu cu gi ce cfg))) = e_pf (ce_eng ce)" "e_cfg (ce_eng (snd (init_gpu cu gi ce cfg))) = e_cfg (ce_eng ce)"
    "e_oracle (ce_eng (snd (init_gpu cu gi ce cfg))) = e_oracle (ce_eng ce)"
    "e_blob_bytes (ce_eng (snd (init_gpu cu gi ce cfg))) = e_blob_bytes (ce_eng ce)"
    "es_peak_vram (e_stats (ce_eng (snd (init_gpu cu gi ce cfg)))) = es_peak_vram (e_stats (ce_eng ce))"
    by (simp_all add: init_gpu_def case_prod_unfold Let_def split: option.split)
  show "e_pf (ce_eng ce') = e_pf (ce_eng ce)" "e_cfg (ce_eng ce') = e_cfg (ce_eng ce)" "e_oracle (ce_eng ce') = e_oracle (ce_eng ce)"
    "e_blob_bytes (ce_eng ce') = e_blob_bytes (ce_eng ce)" "es_peak_vram (e_stats (ce_eng ce')) = es_peak_vram (e_stats (ce_eng ce))"
    using * unfolding assms by simp_all
qed

lemma init_on_result:
  assumes "init_on cu gi sys z (cuda_engine_new m r) cfg = Ret (True, ce)"
  shows "\<exists>be c. cache_init cache_new (budget_of cfg (ce_eng ce)) be = (True, c) \<and> p_cache (e_pf (ce_eng ce)) = c"
    and "cfg_num_layers (e_cfg (ce_eng ce)) \<le> int (length (o_layers (e_oracle (ce_eng ce))))" and "es_peak_vram (e_stats (ce_eng ce)) = 0"
proof -
  obtain en1 sc where s: "init_shard sys (engine_new m) cfg = Ret (True, en1)"
    and c: "init_cache_on cu gi sys ((cuda_engine_new m r)\<lparr>ce_eng := en1\<lparr>e_oracle := sc, e_cfg := cfg\<lparr>cfg_num_layers := min (cfg_num_layers cfg) (num_layers sc)\<rparr>\<rparr>\<rparr>) cfg = Ret (True, ce)"
    using assms by (auto simp: init_on_def ret_iff Let_def cuda_engine_new_def split: if_splits)
  note s' = init_shard_result [OF s]
  let ?ce0 = "(cuda_engine_new m r)\<lparr>ce_eng := en1\<lparr>e_oracle := sc, e_cfg := cfg\<lparr>cfg_num_layers := min (cfg_num_layers cfg) (num_layers sc)\<rparr>\<rparr>\<rparr>"
  obtain be ce1 where a: "(if cfg_use_cuda cfg then cuda_arena cu ?ce0 (budget_of cfg (ce_eng ?ce0))
      else (\<lparr>be_alloc = Some (sys_malloc sys), be_free = True, be_kind = ''host''\<rparr>, ?ce0)) = (be, ce1)" by fastforce
  have e1: "ce_eng ce1 = (ce_eng ?ce0)\<lparr>e_mem := e_mem (ce_eng ce1)\<rparr>" using a by (auto simp: cuda_arena_def split: if_splits prod.splits)
  obtain ok ca where ca: "cache_init (p_cache (e_pf (ce_eng ce1))) (budget_of cfg (ce_eng ?ce0)) be = (ok, ca)" by fastforce
  let ?ce2 = "ce1\<lparr>ce_eng := (ce_eng ce1)\<lparr>e_pf := (e_pf (ce_eng ce1))\<lparr>p_cache := ca\<rparr>\<rparr>\<rparr>"
  obtain ok1 ce3 where g: "(if cfg_use_cuda cfg then init_gpu cu gi ?ce2 cfg else (True, ?ce2)) = (ok1, ce3)" by fastforce
  have ok: ok ok1 "init_buffers_on cu gi ce3 cfg = Ret (True, ce)"
    using c unfolding init_cache_on_def a prod.case ca Let_def g by (auto split: if_splits)
  have e3: "e_pf (ce_eng ce3) = (e_pf (ce_eng ce1))\<lparr>p_cache := ca\<rparr>" "e_cfg (ce_eng ce3) = e_cfg (ce_eng ce1)" "e_oracle (ce_eng ce3) = e_oracle (ce_eng ce1)"
    "e_blob_bytes (ce_eng ce3) = e_blob_bytes (ce_eng ce1)" "es_peak_vram (e_stats (ce_eng ce3)) = es_peak_vram (e_stats (ce_eng ce1))"
    using g init_gpu_eng [of cu gi ?ce2 cfg ok1 ce3] by (auto split: if_splits)
  have pc: "p_cache (e_pf (ce_eng ce)) = p_cache (e_pf (ce_eng ce3))" "e_cfg (ce_eng ce) = e_cfg (ce_eng ce3)"
    "e_oracle (ce_eng ce) = e_oracle (ce_eng ce3)" "e_blob_bytes (ce_eng ce) = e_blob_bytes (ce_eng ce3)" "e_stats (ce_eng ce) = e_stats (ce_eng ce3)"
    using ok(3) by (auto simp: init_buffers_on_def prefetcher_init_on_def cuda_init_on_def Let_def split: if_splits prod.splits option.splits)
  have x: "e_pf (ce_eng ce1) = prefetcher_new cache_new 64" "e_cfg (ce_eng ce1) = cfg\<lparr>cfg_num_layers := min (cfg_num_layers cfg) (num_layers sc)\<rparr>"
    "e_blob_bytes (ce_eng ce1) = e_blob_bytes en1" "es_peak_vram (e_stats (ce_eng ce1)) = 0" "e_oracle (ce_eng ce1) = sc"
    by (subst e1, simp add: s' cuda_engine_new_def)+
  have "budget_of cfg (ce_eng ce) = budget_of cfg (ce_eng ?ce0)" using pc(4) e3(4) x(3) by (simp add: budget_of_def)
  then show "\<exists>be c. cache_init cache_new (budget_of cfg (ce_eng ce)) be = (True, c) \<and> p_cache (e_pf (ce_eng ce)) = c"
    using ca ok(1) x(1) pc(1) e3(1) by (auto simp: prefetcher_new_def)
  show "cfg_num_layers (e_cfg (ce_eng ce)) \<le> int (length (o_layers (e_oracle (ce_eng ce))))"
    using to_int32_le [of "length (o_layers sc)"] by (simp add: pc e3 x num_layers_def min_def)
  show "es_peak_vram (e_stats (ce_eng ce)) = 0" by (simp add: pc e3 x)
qed

text \<open>On the stub runtime the CUDA initialisation succeeds whenever the shard and the oracle can be read.\<close>

lemma init_cache_on_succeeds:
  assumes "p_cache (e_pf (ce_eng ce)) = cache_new" and "0 \<le> cfg_hidden cfg" and "cfg_use_cuda cfg" and "\<And>n. malloc n \<noteq> nullptr"
  shows "\<exists>ce'. init_cache_on (stub_runtime malloc) gi sys ce cfg = Ret (True, ce') \<and> e_blob_bytes (ce_eng ce') = e_blob_bytes (ce_eng ce)"
proof -
  let ?b = "budget_of cfg (ce_eng ce)"
  obtain be ce1 where a: "cuda_arena (stub_runtime malloc) ce ?b = (be, ce1)" by fastforce
  have be: "be_alloc be = Some (\<lambda>_. malloc (if ?b \<noteq> 0 then ?b else 1))" "ce1 = ce"
    using a assms(1,4) by (auto simp: cuda_arena_def cu_device_malloc_def stub_runtime_def stub_malloc_def Let_def split: prod.splits if_splits)
  obtain c where c: "cache_init cache_new ?b be = (True, c)"
    using be(1) assms(4) by (simp add: cache_init_def cache_new_def arena_init_def arena_new_def)
  let ?ce2 = "ce\<lparr>ce_eng := (ce_eng ce)\<lparr>e_pf := (e_pf (ce_eng ce))\<lparr>p_cache := c\<rparr>\<rparr>\<rparr>"
  have da: "bf_ptr (fst (dev_alloc (stub_runtime malloc) gi ce n)) = nullptr \<longleftrightarrow> False" for ce n
    using assms(4) by (simp add: dev_alloc_def stub_runtime_def stub_malloc_def Let_def)
  have "fst (cuda_stream_create (stub_runtime malloc) d) = None \<longleftrightarrow> False" for d by (simp add: stub_runtime_def stub_new_def)
  then have "fst (init_gpu (stub_runtime malloc) gi ?ce2 cfg)" by (simp add: init_gpu_def case_prod_unfold Let_def da)
  then obtain ce3 where g: "init_gpu (stub_runtime malloc) gi ?ce2 cfg = (True, ce3)" by (metis prod.collapse)
  have "\<exists>ce'. init_buffers_on (stub_runtime malloc) gi ce3 cfg = Ret (True, ce') \<and> e_blob_bytes (ce_eng ce') = e_blob_bytes (ce_eng ce3)"
    using assms(2,3) by (simp add: init_buffers_on_def prefetcher_init_on_def cuda_init_on_def stub_runtime_def stub_new_def Let_def)
  then show ?thesis using init_gpu_eng(4) [OF g] a be(2) c g assms(1,3) by (simp add: init_cache_on_def)
qed

lemma cuda_run_ok:
  assumes "init_on cu gi sys z (cuda_engine_new m r) cfg = Ret (True, ce)" and "budget_of cfg (ce_eng ce) + e_blob_bytes (ce_eng ce) < size_mod"
  shows "\<exists>out ce'. generate_on cu env sched ce = Inr (out, ce') \<and> es_peak_vram (e_stats (ce_eng ce')) \<le> budget_of cfg (ce_eng ce)"
proof -
  note i = init_on_result [OF assms(1)]
  have "cache_reachable (budget_of cfg (ce_eng ce)) (p_cache (e_pf (ce_eng ce)))" using i(1) assms(2) by (auto intro: cache_reachable.start)
  then have "same_run (budget_of cfg (ce_eng ce)) (ce_eng ce) (ce_eng ce)" using assms(2) by (simp add: same_run_def)
  from generate_on_keeps [OF this i(2)] show ?thesis using i(3) by simp
qed

lemma cuda_cli_ends:
  assumes "cli_parse cli_defaults args = Some cfg" and "init_on cu gi sys z (cuda_engine_new m r) cfg = Ret (True, ce)"
    and "budget_of cfg (ce_eng ce) + e_blob_bytes (ce_eng ce) < size_mod"
  shows "\<exists>st. cli_main_on cu gi env sched sys z m r args = Ret (0, Some st) \<and> es_peak_vram st \<le> budget_of cfg (ce_eng ce)"
  using cuda_run_ok [OF assms(2,3), of env sched] assms(1,2) by (auto simp: cli_main_on_def of_exn_def)

section \<open>Properties\<close>


definition example_gpu_info :: Gpu_info where
  "example_gpu_info = \<lparr>gi_malloc_host = id, gi_mem_info = Some (1024, 512), gi_junk = (\<lambda>n. replicate n 7)\<rparr>"


end
