(* ===== verification/EngineReference.thy ===== *)
theory EngineReference
  imports Engine
begin

text \<open>
  The engine of the default build against a network without cache, prefetcher and staging: when the budget holds every
  expert that a run asks for, \<^verbatim>\<open>generate\<close> computes exactly that network. The reference reads the weights of the shard
  where they are mapped; the engine converts them into host vectors, streams them into the cache and computes on the blocks.
\<close>

section \<open>The network\<close>

definition ref_blob :: "Engine \<Rightarrow> nat \<Rightarrow> real list" where
  "ref_blob en e = concat (map (\<lambda>k. shard_values en (resolve_expert (e_mem en) (e_shards en) 0 (int e) k)) [GATE_PROJ, UP_PROJ, DOWN_PROJ])"

definition ref_experts :: "Env \<Rightarrow> Engine \<Rightarrow> int \<Rightarrow> real list \<Rightarrow> nat list" where
  "ref_experts env en layer h =
     (case oracle_predict (env_sort env) (e_oracle en) layer h (cfg_topk (e_cfg en)) of Inl _ \<Rightarrow> [] | Inr experts \<Rightarrow> experts)"

definition ref_layer :: "Env \<Rightarrow> Engine \<Rightarrow> int \<Rightarrow> real list \<Rightarrow> real list" where
  "ref_layer env en layer h =
     (let experts = ref_experts env en layer h
      in combine (e_hidden en) (length experts)
           (foldl (\<lambda>acc e. swiglu (ref_blob en e) h (e_inter en) (e_hidden en) acc) (replicate (e_hidden en) 0) experts))"

text \<open>The input of token \<open>t\<close>: only the last layer counts.\<close>

definition ref_input :: "Env \<Rightarrow> Engine \<Rightarrow> nat \<Rightarrow> real list" where
  "ref_input env en t = (ref_layer env en (cfg_num_layers (e_cfg en) - 1) ^^ t) (prompt (e_hidden en))"

text \<open>The experts that the first \<open>T\<close> tokens ask for.\<close>

definition ref_requests :: "Env \<Rightarrow> Engine \<Rightarrow> nat \<Rightarrow> ExpertKey list" where
  "ref_requests env en T =
     concat (map (\<lambda>t. concat (map (\<lambda>L. map (\<lambda>e. ExpertKey L (int e)) (ref_experts env en L (ref_input env en t)))
       [0 .. cfg_num_layers (e_cfg en) - 1])) [0 ..< T])"

section \<open>What the run must not touch\<close>

text \<open>The addresses that reading the given experts in the shard depends on.\<close>

definition shard_addrs :: "Engine \<Rightarrow> nat set \<Rightarrow> nat set" where
  "shard_addrs en es = (\<Union>w \<in> set (e_shards en). span (wm_base w) 8) \<union>
     (\<Union>e \<in> es. \<Union>k. span (v_data (resolve_expert (e_mem en) (e_shards en) 0 (int e) k)) (2 * (e_inter en * e_hidden en)))"

text \<open>New vectors overlap neither each other nor the shard nor the arena.\<close>

definition fresh_vectors :: "Env \<Rightarrow> Engine \<Rightarrow> nat set \<Rightarrow> bool" where
  "fresh_vectors env en es \<longleftrightarrow>
     (\<forall>e \<in> es. env_new_vector env (int e) \<noteq> nullptr \<and>
        span (env_new_vector env (int e)) (e_blob_bytes en) \<inter> shard_addrs en es = {} \<and>
        span (env_new_vector env (int e)) (e_blob_bytes en) \<inter> span (fst (cache_space (p_cache (e_pf en)))) (snd (cache_space (p_cache (e_pf en)))) = {} \<and>
        (\<forall>e' \<in> es. e' \<noteq> e \<longrightarrow> span (env_new_vector env (int e)) (e_blob_bytes en) \<inter> span (env_new_vector env (int e')) (e_blob_bytes en) = {}))"

definition run_src :: "Env \<Rightarrow> Engine \<Rightarrow> nat set \<Rightarrow> ExpertKey \<Rightarrow> nat" where
  "run_src env en es k =
     (if key_expert k \<in> int ` es then env_new_vector env (key_expert k)
      else Suc (fst (cache_space (p_cache (e_pf en))) + snd (cache_space (p_cache (e_pf en)))))"

section \<open>Reading the shard\<close>

lemma first_ok_cong:
  assumes "\<forall>w \<in> set shards. \<forall>x \<in> span (wm_base w) 8. m' x = m x"
  shows "first_ok m' shards name = first_ok m shards name"
  using assms
proof (induction shards)
  case (Cons w ws)
  have "m' (wm_base w + i) = m (wm_base w + i)" if "i < 8" for i using Cons.prems that by simp
  then have "read_u64 m' (wm_base w) = read_u64 m (wm_base w)"
    unfolding read_u64_def by (intro arg_cong [where f = sum_list] map_cong) simp_all
  then have "mmap_lookup m' w name = mmap_lookup m w name" by (simp add: mmap_lookup_def split: option.split)
  then show ?case using Cons by (simp add: Let_def)
qed simp

lemma shard_reading:
  assumes e: "e \<in> es" and eq: "\<forall>x \<in> shard_addrs en es. m x = e_mem en x" and sh: "e_shards en' = e_shards en" "e_mem en' = m" and d: "same_dims en en'"
  shows "resolve_expert m (e_shards en') 0 (int e) k = resolve_expert (e_mem en) (e_shards en) 0 (int e) k"
    and "shard_values en' (resolve_expert m (e_shards en') 0 (int e) k) = shard_values en (resolve_expert (e_mem en) (e_shards en) 0 (int e) k)"
proof -
  have r: "resolve_expert m (e_shards en) 0 e' k' = resolve_expert (e_mem en) (e_shards en) 0 e' k'" for e' k'
    unfolding resolve_expert_def by (rule first_ok_cong) (use eq in \<open>auto simp: shard_addrs_def\<close>)
  then show "resolve_expert m (e_shards en') 0 (int e) k = resolve_expert (e_mem en) (e_shards en) 0 (int e) k" by (simp add: sh)
  let ?v = "resolve_expert (e_mem en) (e_shards en) 0 (int e) k"
  have "m x = e_mem en x" if "x \<in> span (v_data ?v) (2 * (e_inter en * e_hidden en))" for x
    using eq that e unfolding shard_addrs_def by blast
  then have "read_u16 m (v_data ?v + i * 2) = read_u16 (e_mem en) (v_data ?v + i * 2)" if "i < e_inter en * e_hidden en" for i
    using that by (simp add: read_u16_def)
  then show "shard_values en' (resolve_expert m (e_shards en') 0 (int e) k) = shard_values en ?v"
    using d r by (simp add: shard_values_def sh same_dims_def)
qed

section \<open>The invariant of the run\<close>

text \<open>
  Against the state \<open>en0\<close> before the run: the shard is untouched, every staged vector holds the weights of its expert,
  transfers come from staged vectors only, and only requested experts are resident.
\<close>

definition run_ok :: "Env \<Rightarrow> Engine \<Rightarrow> nat set \<Rightarrow> ExpertKey set \<Rightarrow> Engine \<Rightarrow> bool" where
  "run_ok env en0 es K en \<longleftrightarrow>
     prefetcher_inv (run_src env en0 es) (e_blob_bytes en0) (cache_space (p_cache (e_pf en0))) (e_mem en, e_pf en) \<and>
     same_dims en0 en \<and> e_blob_bytes en = e_blob_bytes en0 \<and> e_cfg en = e_cfg en0 \<and> e_oracle en = e_oracle en0 \<and> e_shards en = e_shards en0 \<and>
     (\<forall>x \<in> shard_addrs en0 es. e_mem en x = e_mem en0 x) \<and>
     (\<forall>e p. map_of (e_staging en) e = Some p \<longrightarrow>
        (\<exists>j \<in> es. e = int j \<and> p = env_new_vector env e \<and> load_floats (e_mem en) p (e_blob_elems en0) = ref_blob en0 j)) \<and>
     (\<forall>k \<in> set (map t_key (p_inflight (e_pf en))). map_of (e_staging en) (key_expert k) \<noteq> None) \<and>
     {k. cache_region (p_cache (e_pf en)) k \<noteq> None} \<subseteq> K"

text \<open>What a run is given: room for all the requested experts, their projections in the shard, and fresh vectors.\<close>

definition run_given :: "Env \<Rightarrow> Engine \<Rightarrow> nat set \<Rightarrow> ExpertKey set \<Rightarrow> bool" where
  "run_given env en es K \<longleftrightarrow> finite K \<and> (\<forall>k \<in> K. is_int32 (key_layer k) \<and> is_int32 (key_expert k) \<and> key_expert k \<in> int ` es) \<and>
     e_blob_bytes en * card K \<le> a_cap (c_arena (p_cache (e_pf en))) \<and> fresh_vectors env en es \<and>
     shard_addrs en es \<inter> span (fst (cache_space (p_cache (e_pf en)))) (snd (cache_space (p_cache (e_pf en)))) = {} \<and>
     (\<forall>e \<in> es. \<forall>k. view_ok (resolve_expert (e_mem en) (e_shards en) 0 (int e) k)) \<and>
     e_blob_elems en = 3 * e_inter en * e_hidden en \<and> e_blob_bytes en = 4 * e_blob_elems en"

lemma run_okD:
  assumes "run_ok env en0 es K en"
  shows "prefetcher_inv (run_src env en0 es) (e_blob_bytes en0) (cache_space (p_cache (e_pf en0))) (e_mem en, e_pf en)"
    "same_dims en0 en" "e_blob_bytes en = e_blob_bytes en0" "e_cfg en = e_cfg en0" "e_oracle en = e_oracle en0" "e_shards en = e_shards en0"
    "\<forall>x \<in> shard_addrs en0 es. e_mem en x = e_mem en0 x"
    "map_of (e_staging en) e = Some p \<Longrightarrow>
       \<exists>j \<in> es. e = int j \<and> p = env_new_vector env e \<and> load_floats (e_mem en) p (e_blob_elems en0) = ref_blob en0 j"
    "\<forall>k \<in> set (map t_key (p_inflight (e_pf en))). map_of (e_staging en) (key_expert k) \<noteq> None"
    "{k. cache_region (p_cache (e_pf en)) k \<noteq> None} \<subseteq> K"
  using assms unfolding run_ok_def by blast+

lemma run_givenD:
  assumes "run_given env en es K"
  shows "finite K" "k \<in> K \<Longrightarrow> is_int32 (key_layer k) \<and> is_int32 (key_expert k) \<and> key_expert k \<in> int ` es"
    "e_blob_bytes en * card K \<le> a_cap (c_arena (p_cache (e_pf en)))" "fresh_vectors env en es"
    "shard_addrs en es \<inter> span (fst (cache_space (p_cache (e_pf en)))) (snd (cache_space (p_cache (e_pf en)))) = {}"
    "e \<in> es \<Longrightarrow> view_ok (resolve_expert (e_mem en) (e_shards en) 0 (int e) kd)"
    "e_blob_elems en = 3 * e_inter en * e_hidden en" "e_blob_bytes en = 4 * e_blob_elems en"
  using assms unfolding run_given_def by blast+

lemma fresh_vectorsD:
  assumes "fresh_vectors env en es" and "e \<in> es"
  shows "env_new_vector env (int e) \<noteq> nullptr" "span (env_new_vector env (int e)) (e_blob_bytes en) \<inter> shard_addrs en es = {}"
    "span (env_new_vector env (int e)) (e_blob_bytes en) \<inter> span (fst (cache_space (p_cache (e_pf en)))) (snd (cache_space (p_cache (e_pf en)))) = {}"
    "e' \<in> es \<Longrightarrow> e' \<noteq> e \<Longrightarrow> span (env_new_vector env (int e)) (e_blob_bytes en) \<inter> span (env_new_vector env (int e')) (e_blob_bytes en) = {}"
  using assms unfolding fresh_vectors_def by blast+

text \<open>Staging converts an expert on its first request and finds the same vector later.\<close>

lemma get_staging_ok:
  assumes ok: "run_ok env en0 es K en" and given: "run_given env en0 es K" and e: "e \<in> es"
  shows "\<exists>en1. get_staging env en (int e) = (env_new_vector env (int e), en1) \<and> run_ok env en0 es K en1 \<and> e_pf en1 = e_pf en \<and>
    map_of (e_staging en1) (int e) \<noteq> None"
proof (cases "map_of (e_staging en) (int e)")
  case (Some p)
  then show ?thesis using run_okD(8) [OF ok Some] ok by (intro exI [of _ en]) (auto simp: get_staging_def)
next
  case None
  note o = run_okD [OF ok] and g = run_givenD [OF given] and f = fresh_vectorsD [OF run_givenD(4) [OF given] e]
  let ?p = "env_new_vector env (int e)" and ?v = "resolve_expert (e_mem en) (e_shards en) 0 (int e)" and ?n = "e_blob_bytes en0"
  let ?u = "resolve_expert (e_mem en0) (e_shards en0) 0 (int e)"
  let ?ws = "blob_words en (?v GATE_PROJ) (?v UP_PROJ) (?v DOWN_PROJ)"
  let ?en1 = "en\<lparr>e_mem := store_floats (e_mem en) ?p ?ws, e_staging := (int e, ?p) # e_staging en\<rparr>"
  note rd = shard_reading [OF e o(7,6) refl o(2)]
  have v: "?v k = ?u k" for k by (rule rd(1))
  have gs: "get_staging env en (int e) = (?p, ?en1)"
    using None g(6) [OF e] v by (simp add: get_staging_def avail_layer_def Let_def)
  have len: "length ?ws = e_blob_elems en0" using o(2) g(7) by (simp add: blob_values(2) same_dims_def)
  then have n: "4 * length ?ws = ?n" using g(8) by simp
  have out: "e_mem ?en1 x = e_mem en x" if "x \<notin> span ?p ?n" for x
    using store_floats_outside [of x ?p ?ws, unfolded n, OF that] by simp
  have new: "load_floats (e_mem ?en1) ?p (e_blob_elems en0) = ref_blob en0 e"
    using load_store_floats [of "e_mem en" ?p ?ws] blob_values(1) [of en] rd(2) unfolding len by (simp add: ref_blob_def v)
  have old: "load_floats (e_mem ?en1) (env_new_vector env (int j)) (e_blob_elems en0) = load_floats (e_mem en) (env_new_vector env (int j)) (e_blob_elems en0)"
    if j: "j \<in> es" "j \<noteq> e" for j
  proof (rule load_floats_cong)
    fix i assume "i < 4 * e_blob_elems en0"
    then have "env_new_vector env (int j) + i \<in> span (env_new_vector env (int j)) ?n" using g(8) by simp
    then show "e_mem ?en1 (env_new_vector env (int j) + i) = e_mem en (env_new_vector env (int j) + i)"
      using out f(4) [OF j] by blast
  qed
  have st: "\<exists>j \<in> es. e' = int j \<and> p = env_new_vector env e' \<and> load_floats (e_mem ?en1) p (e_blob_elems en0) = ref_blob en0 j"
    if m: "map_of (e_staging ?en1) e' = Some p" for e' p
  proof (cases "e' = int e")
    case True
    then show ?thesis using m new e by auto
  next
    case False
    then have "map_of (e_staging en) e' = Some p" using m by simp
    from o(8) [OF this] show ?thesis using old False by fastforce
  qed
  have "prefetcher_inv (run_src env en0 es) ?n (cache_space (p_cache (e_pf en0))) (e_mem ?en1, e_pf en)"
  proof (rule write_inv [OF o(1)])
    show "\<forall>x \<in> span (fst (cache_space (p_cache (e_pf en0)))) (snd (cache_space (p_cache (e_pf en0)))). e_mem ?en1 x = e_mem en x"
      using out f(3) by blast
    show "\<forall>t \<in> set (p_inflight (e_pf en)). \<forall>x \<in> span (run_src env en0 es (t_key t)) ?n. e_mem ?en1 x = e_mem en x"
    proof
      fix t assume "t \<in> set (p_inflight (e_pf en))"
      then obtain q where q: "map_of (e_staging en) (key_expert (t_key t)) = Some q" using o(9) by auto
      obtain j where j: "j \<in> es" "key_expert (t_key t) = int j" using o(8) [OF q] by blast
      then have "j \<noteq> e" using q None by auto
      have "run_src env en0 es (t_key t) = env_new_vector env (int j)" using j by (simp add: run_src_def)
      then show "\<forall>x \<in> span (run_src env en0 es (t_key t)) ?n. e_mem ?en1 x = e_mem en x"
        using out f(4) [OF j(1) \<open>j \<noteq> e\<close>] by (metis disjoint_iff)
    qed
  qed
  moreover have "\<forall>x \<in> shard_addrs en0 es. e_mem ?en1 x = e_mem en0 x" using out f(2) o(7) by (metis disjoint_iff)
  moreover have "\<forall>k \<in> set (map t_key (p_inflight (e_pf ?en1))). map_of (e_staging ?en1) (key_expert k) \<noteq> None" using o(9) by auto
  ultimately have "run_ok env en0 es K ?en1"
    using o(2-6,10) st unfolding run_ok_def by (simp add: same_dims_def)
  then show ?thesis using gs by simp
qed

section \<open>A layer\<close>

text \<open>What a request changes: its expert is resident and issued, nobody else loses either.\<close>

definition served :: "Engine \<Rightarrow> Engine \<Rightarrow> ExpertKey set \<Rightarrow> bool" where
  "served en en' ks \<longleftrightarrow>
     (\<forall>k. k \<in> ks \<or> issued (e_pf en) k \<longrightarrow> issued (e_pf en') k) \<and>
     (\<forall>k. k \<in> ks \<or> cache_region (p_cache (e_pf en)) k \<noteq> None \<longrightarrow> cache_region (p_cache (e_pf en')) k \<noteq> None) \<and>
     length (p_inflight (e_pf en')) = length (p_inflight (e_pf en)) + card ks"

lemma stage_expert_run:
  assumes ok: "run_ok env en0 es K en" and given: "run_given env en0 es K" and k: "ExpertKey L (int e) \<in> K"
    and len: "Suc (length (p_inflight (e_pf en))) < 2 ^ 31"
  shows "run_ok env en0 es K (stage_expert env en L (int e) pri)" "served en (stage_expert env en L (int e) pri) {ExpertKey L (int e)}"
proof -
  let ?n = "e_blob_bytes en0" and ?k = "ExpertKey L (int e)" and ?src = "run_src env en0 es"
  note g = run_givenD [OF given]
  have e: "e \<in> es" and le: "is_int32 L" "is_int32 (int e)" using g(2) [OF k] by auto
  obtain en1 where en1: "get_staging env en (int e) = (env_new_vector env (int e), en1)" "run_ok env en0 es K en1"
    "e_pf en1 = e_pf en" "map_of (e_staging en1) (int e) \<noteq> None"
    using get_staging_ok [OF ok given e] by blast
  note o = run_okD [OF en1(2)]
  have src: "?src ?k = env_new_vector env (int e)" using e by (simp add: run_src_def)
  obtain r pf where pr: "prefetch (e_pf en) L (int e) (?src ?k) ?n pri = (r, pf)" by fastforce
  have inv: "prefetcher_inv ?src ?n (cache_space (p_cache (e_pf en0))) (e_mem en1, e_pf en)" using o(1) en1(3) by simp
  note pi = prefetch_inv [OF inv le len pr]
  note cok = prefetcher_invD(1,2) [OF inv]
  have "env_new_vector env (int e) \<noteq> nullptr" by (rule fresh_vectorsD(1) [OF g(4) e])
  then have st: "stage_expert env en L (int e) pri = en1\<lparr>e_pf := pf\<rparr>"
    using en1(1,3) pr src o(3) by (simp add: stage_expert_def)
  have keys: "map t_key (p_inflight pf) = map t_key (p_inflight (e_pf en)) @ [?k]" by (rule prefetch_keys [OF cok(1) pr])
  have cap: "?n * card K \<le> a_cap (c_arena (p_cache (e_pf en)))" using g(3) cok(2) by (simp add: cache_space_def)
  have within: "{k. cache_region (p_cache (e_pf en)) k \<noteq> None} \<subseteq> K" using o(10) en1(3) by simp
  obtain r' c' where en: "cache_ensure (p_cache (e_pf en)) L (int e) ?n pri = (r', c')" by fastforce
  have c': "p_cache pf = c'" using pi(3) en by simp
  note w = cache_ensure_within [OF cok(1) within g(1) cap k en]
  have "{k. cache_region (p_cache pf) k \<noteq> None} \<subseteq> K" using w(3) within k by (simp add: c')
  moreover have "\<forall>k \<in> set (map t_key (p_inflight pf)). map_of (e_staging en1) (key_expert k) \<noteq> None"
    using o(9) en1(3,4) unfolding keys by auto
  ultimately show "run_ok env en0 es K (stage_expert env en L (int e) pri)"
    using o(2-8) pi(1) unfolding run_ok_def st by (simp add: same_dims_def)
  have "issued pf j" if "j = ?k \<or> issued (e_pf en) j" for j using that pi(5) by (auto simp: issued_def update_conv')
  moreover have "cache_region c' j \<noteq> None" if "j = ?k \<or> cache_region (p_cache (e_pf en)) j \<noteq> None" for j
    using that w(3) by blast
  moreover have "length (p_inflight pf) = Suc (length (p_inflight (e_pf en)))" using arg_cong [OF keys, of length] by simp
  ultimately show "served en (stage_expert env en L (int e) pri) {?k}" unfolding st served_def by (simp add: c')
qed

lemma stage_all_run:
  assumes ok: "run_ok env en0 es K en" and given: "run_given env en0 es K" and k: "\<forall>e \<in> set experts. ExpertKey L (int e) \<in> K"
    and len: "length (p_inflight (e_pf en)) + length experts < 2 ^ 31"
  shows "run_ok env en0 es K (stage_all env en L experts) \<and>
    (\<forall>e \<in> set experts. issued (e_pf (stage_all env en L experts)) (ExpertKey L (int e)) \<and>
       cache_region (p_cache (e_pf (stage_all env en L experts))) (ExpertKey L (int e)) \<noteq> None) \<and>
    length (p_inflight (e_pf (stage_all env en L experts))) = length (p_inflight (e_pf en)) + length experts"
proof -
  let ?f = "\<lambda>en k. stage_expert env en L (int (experts ! k)) (to_int32 (cfg_topk (e_cfg en) - int k))"
  have "run_ok env en0 es K (foldl ?f en [0 ..< j]) \<and>
      (\<forall>e \<in> set (take j experts). issued (e_pf (foldl ?f en [0 ..< j])) (ExpertKey L (int e)) \<and>
         cache_region (p_cache (e_pf (foldl ?f en [0 ..< j]))) (ExpertKey L (int e)) \<noteq> None) \<and>
      length (p_inflight (e_pf (foldl ?f en [0 ..< j]))) = length (p_inflight (e_pf en)) + j"
    if "j \<le> length experts" for j
    using that
  proof (induction j)
    case 0
    then show ?case using ok by simp
  next
    case (Suc j)
    let ?en = "foldl ?f en [0 ..< j]"
    have j: "j < length experts" using Suc.prems by simp
    have IH: "run_ok env en0 es K ?en" "\<forall>e \<in> set (take j experts). issued (e_pf ?en) (ExpertKey L (int e)) \<and>
         cache_region (p_cache (e_pf ?en)) (ExpertKey L (int e)) \<noteq> None" "length (p_inflight (e_pf ?en)) = length (p_inflight (e_pf en)) + j"
      using Suc by simp_all
    have "ExpertKey L (int (experts ! j)) \<in> K" "Suc (length (p_inflight (e_pf ?en))) < 2 ^ 31" using k j len IH(3) by simp_all
    note s = stage_expert_run [OF IH(1) given this]
    have "foldl ?f en [0 ..< Suc j] = ?f ?en j" by simp
    then show ?case using s IH j unfolding served_def by (auto simp: take_Suc_conv_app_nth)
  qed
  from this [of "length experts"] show ?thesis by (simp add: stage_all_def)
qed

text \<open>Using experts changes the memory, the prefetcher and the statistics only, and adds no transfer.\<close>

definition rest_same :: "Engine \<Rightarrow> Engine \<Rightarrow> bool" where
  "rest_same en en' \<longleftrightarrow> same_dims en en' \<and> e_blob_bytes en' = e_blob_bytes en \<and> e_cfg en' = e_cfg en \<and> e_oracle en' = e_oracle en \<and>
     e_shards en' = e_shards en \<and> e_staging en' = e_staging en \<and>
     map t_key (p_inflight (e_pf en')) = map t_key (p_inflight (e_pf en))"

lemma use_rest_same: "rest_same en (fst (foldl (use_expert L h) (en, acc) es))"
proof (induction es arbitrary: en acc)
  case Nil
  then show ?case by (simp add: rest_same_def same_dims_def)
next
  case (Cons e es)
  obtain r m pf where w: "wait (e_mem en) (e_pf en) L (int e) = (r, m, pf)" by (metis prod.exhaust)
  obtain en1 acc1 where u: "use_expert L h (en, acc) e = (en1, acc1)" by fastforce
  have "rest_same en en1"
    using u w wait_keys [OF w] by (auto simp: use_expert_def Let_def rest_same_def same_dims_def split: if_splits)
  moreover have "rest_same en1 (fst (foldl (use_expert L h) (use_expert L h (en, acc) e) es))" using Cons [of en1 acc1] u by simp
  ultimately show ?case by (simp add: rest_same_def same_dims_def)
qed

lemma issued_blob:
  assumes ok: "run_ok env en0 es K en" and given: "run_given env en0 es K" and L: "is_int32 L" and k: "ExpertKey L (int e) \<in> K"
    and i: "issued (e_pf en) (ExpertKey L (int e))"
  shows "load_floats (e_mem en) (run_src env en0 es (ExpertKey L (int e))) (e_blob_elems en0) = ref_blob en0 e"
proof -
  note g = run_givenD [OF given] and o = run_okD [OF ok]
  have e: "e \<in> es" "is_int32 (int e)" using g(2) [OF k] by auto
  obtain i where i: "map_of (p_key_to_idx (e_pf en)) (pack_key L (int e)) = Some i" using i by (auto simp: issued_def)
  note ix = index_okD [OF prefetcher_invD(8) [OF o(1)] L e(2) i]
  have "nat i < length (p_inflight (e_pf en))" using ix(1,2) by (simp add: nat_less_iff)
  then have "ExpertKey L (int e) \<in> set (map t_key (p_inflight (e_pf en)))" using ix(3) by (metis image_eqI list.set_map nth_mem)
  then obtain p where p: "map_of (e_staging en) (int e) = Some p" using o(9) by fastforce
  then show ?thesis using o(8) [OF p] e(1) by (auto simp: run_src_def)
qed

lemma run_ok_outside:
  assumes ok: "run_ok env en0 es K en" and given: "run_given env en0 es K" and rs: "rest_same en en'"
    and inv: "prefetcher_inv (run_src env en0 es) (e_blob_bytes en0) (cache_space (p_cache (e_pf en0))) (e_mem en', e_pf en')"
    and rg: "cache_region (p_cache (e_pf en')) = cache_region (p_cache (e_pf en))"
    and m: "\<forall>x \<in> - span (fst (cache_space (p_cache (e_pf en0)))) (snd (cache_space (p_cache (e_pf en0)))). e_mem en' x = e_mem en x"
  shows "run_ok env en0 es K en'"
proof -
  note g = run_givenD [OF given] and o = run_okD [OF ok]
  have mem: "\<forall>x \<in> shard_addrs en0 es. e_mem en' x = e_mem en0 x"
  proof
    fix x assume x: "x \<in> shard_addrs en0 es"
    then have "x \<in> - span (fst (cache_space (p_cache (e_pf en0)))) (snd (cache_space (p_cache (e_pf en0))))" using g(5) by blast
    then show "e_mem en' x = e_mem en0 x" using m o(7) x by simp
  qed
  have st: "\<exists>j \<in> es. e = int j \<and> p = env_new_vector env e \<and> load_floats (e_mem en') p (e_blob_elems en0) = ref_blob en0 j"
    if "map_of (e_staging en') e = Some p" for e p
  proof -
    have "map_of (e_staging en) e = Some p" using that rs by (simp add: rest_same_def)
    then obtain j where j: "j \<in> es" "e = int j" "p = env_new_vector env e" "load_floats (e_mem en) p (e_blob_elems en0) = ref_blob en0 j"
      using o(8) by blast
    have "e_mem en' (p + i) = e_mem en (p + i)" if "i < 4 * e_blob_elems en0" for i
    proof -
      have "p + i \<in> span p (e_blob_bytes en0)" using that g(8) by simp
      then show ?thesis using m fresh_vectorsD(3) [OF g(4) j(1)] j(2,3) by blast
    qed
    then have "load_floats (e_mem en') p (e_blob_elems en0) = load_floats (e_mem en) p (e_blob_elems en0)" by (rule load_floats_cong)
    then show ?thesis using j by auto
  qed
  show ?thesis using inv rs o(2-6,9,10) mem st unfolding run_ok_def rest_same_def same_dims_def rg by simp
qed

lemma forward_layer_run:
  assumes ok: "run_ok env en0 es K en" and given: "run_given env en0 es K" and L: "is_int32 L" "0 \<le> L" "L < int (length (o_layers (e_oracle en0)))"
    and k: "\<forall>e \<in> set (ref_experts env en0 L h). ExpertKey L (int e) \<in> K"
    and len: "length (p_inflight (e_pf en)) + length (ref_experts env en0 L h) < 2 ^ 31"
  shows "\<exists>en'. forward_layer env en L h = Inr (ref_layer env en0 L h, en') \<and> run_ok env en0 es K en' \<and>
    length (p_inflight (e_pf en')) = length (p_inflight (e_pf en)) + length (ref_experts env en0 L h)"
proof -
  let ?src = "run_src env en0 es" and ?n = "e_blob_bytes en0" and ?sp = "cache_space (p_cache (e_pf en0))" and ?xs = "ref_experts env en0 L h"
  note g = run_givenD [OF given]
  obtain experts where "oracle_predict (env_sort env) (e_oracle en0) L h (cfg_topk (e_cfg en0)) = Inr experts"
    using L by (simp add: oracle_predict_def oracle_forward_def Let_def)
  then have pr: "oracle_predict (env_sort env) (e_oracle en) L h (cfg_topk (e_cfg en)) = Inr ?xs"
    using run_okD(4,5) [OF ok] by (simp add: ref_experts_def)
  define en1 where "en1 = stage_all env en L ?xs"
  have s: "run_ok env en0 es K en1" "length (p_inflight (e_pf en1)) = length (p_inflight (e_pf en)) + length ?xs"
    "\<forall>e \<in> set ?xs. issued (e_pf en1) (ExpertKey L (int e)) \<and> cache_region (p_cache (e_pf en1)) (ExpertKey L (int e)) \<noteq> None"
    using stage_all_run [OF ok given k len] by (simp_all add: en1_def)
  note o = run_okD [OF s(1)]
  let ?rg = "cache_region (p_cache (e_pf en1))"
  have "\<forall>e \<in> set ?xs. is_int32 (int e)" using g(2) k by fastforce
  then have "using_ok ?src ?n ?sp (e_mem en1) ?rg L ?xs en1" using o(1,2) s(3) g(8) by (simp add: using_ok_def same_dims_def)
  moreover have "filter (\<lambda>e. ?rg (ExpertKey L (int e)) \<noteq> None) ?xs = ?xs" using s(3) by (simp add: filter_id_conv)
  ultimately obtain en2 where en2: "using_ok ?src ?n ?sp (e_mem en1) ?rg L ?xs en2"
    "foldl (use_expert L h) (en1, replicate (e_hidden en) 0) ?xs =
      (en2, foldl (add_expert ?src (e_mem en1) en1 L h) (replicate (e_hidden en) 0) ?xs)"
    using use_all_ok [OF _ L(1) subset_refl, of ?src ?n ?sp "e_mem en1" ?rg ?xs en1 h "replicate (e_hidden en) 0"] by auto
  have rs: "rest_same en1 en2" using use_rest_same [of en1 L h "replicate (e_hidden en) 0" ?xs] en2(2) by simp
  have "add_expert ?src (e_mem en1) en1 L h acc e = swiglu (ref_blob en0 e) h (e_inter en0) (e_hidden en0) acc" if "e \<in> set ?xs" for e acc
    using issued_blob [OF s(1) given L(1)] k s(3) that o(2) by (simp add: add_expert_def same_dims_def)
  then have acc: "foldl (add_expert ?src (e_mem en1) en1 L h) a ys = foldl (\<lambda>acc e. swiglu (ref_blob en0 e) h (e_inter en0) (e_hidden en0) acc) a ys"
    if "set ys \<subseteq> set ?xs" for a ys
    using that by (induction ys arbitrary: a) simp_all
  have hd: "e_hidden en = e_hidden en0" using run_okD(2) [OF ok] by (simp add: same_dims_def)
  have "forward_layer env en L h = Inr (ref_layer env en0 L h, en2)"
    using pr en2(2) acc [OF subset_refl] hd by (simp add: forward_layer_def en1_def [symmetric] ref_layer_def Let_def)
  moreover have "run_ok env en0 es K en2"
    by (rule run_ok_outside [OF s(1) given rs]) (use en2(1) in \<open>simp_all add: using_ok_def\<close>)
  moreover have "length (p_inflight (e_pf en2)) = length (p_inflight (e_pf en1))"
    using rs unfolding rest_same_def by (metis length_map)
  ultimately show ?thesis using s(2) by simp
qed

section \<open>The run\<close>

lemma layer_loop_run:
  assumes "run_ok env en0 es K en" and "run_given env en0 es K" and "\<forall>L \<in> set Ls. is_int32 L \<and> 0 \<le> L \<and> L < int (length (o_layers (e_oracle en0)))"
    and "\<forall>L \<in> set Ls. \<forall>e \<in> set (ref_experts env en0 L h). ExpertKey L (int e) \<in> K" and "\<forall>L \<in> set Ls. length (ref_experts env en0 L h) \<le> k"
    and "length (p_inflight (e_pf en)) + length Ls * k < 2 ^ 31"
  shows "\<exists>en'. layer_loop env Ls h h_out en = Inr (if Ls = [] then h_out else ref_layer env en0 (last Ls) h, en') \<and> run_ok env en0 es K en' \<and>
    length (p_inflight (e_pf en')) \<le> length (p_inflight (e_pf en)) + length Ls * k"
  using assms
proof (induction Ls arbitrary: en h_out)
  case (Cons L Ls)
  have "length (p_inflight (e_pf en)) + length (ref_experts env en0 L h) < 2 ^ 31" using Cons.prems(5,6) by (auto simp: trans_le_add1)
  then obtain en1 where f: "forward_layer env en L h = Inr (ref_layer env en0 L h, en1)" "run_ok env en0 es K en1"
    "length (p_inflight (e_pf en1)) = length (p_inflight (e_pf en)) + length (ref_experts env en0 L h)"
    using forward_layer_run [OF Cons.prems(1,2), of L h] Cons.prems(3,4) by auto
  moreover have "length (p_inflight (e_pf en1)) \<le> length (p_inflight (e_pf en)) + k" using f(3) Cons.prems(5) by simp
  ultimately obtain en' where "layer_loop env Ls h (ref_layer env en0 L h) en1 =
      Inr (if Ls = [] then ref_layer env en0 L h else ref_layer env en0 (last Ls) h, en')" "run_ok env en0 es K en'"
    "length (p_inflight (e_pf en')) \<le> length (p_inflight (e_pf en1)) + length Ls * k"
    using Cons.IH [OF f(2) Cons.prems(2), of "ref_layer env en0 L h"] Cons.prems(3-6) by auto
  then show ?case using f \<open>length (p_inflight (e_pf en1)) \<le> length (p_inflight (e_pf en)) + k\<close> by auto
qed simp

lemma ref_experts_length: "length (ref_experts env en L h) \<le> nat (cfg_topk (e_cfg en))"
  by (auto simp: ref_experts_def oracle_predict_def Let_def split: sum.split)

lemma token_loop_run:
  assumes "run_ok env en0 es K en" and "run_given env en0 es K" and nl: "nl = cfg_num_layers (e_cfg en0)" "0 < nl" "is_int32 nl" "nl \<le> int (length (o_layers (e_oracle en0)))"
    and "\<forall>t < t0 + T. \<forall>L \<in> {0 ..< nl}. \<forall>e \<in> set (ref_experts env en0 L (ref_input env en0 t)). ExpertKey L (int e) \<in> K"
    and "length (p_inflight (e_pf en)) + T * (nat nl * nat (cfg_topk (e_cfg en0))) < 2 ^ 31" and "cur = ref_input env en0 t0"
  shows "\<exists>nxt' en'. token_loop env T cur nxt en = Inr (ref_input env en0 (t0 + T), nxt', en') \<and> run_ok env en0 es K en'"
  using assms(1,2,7-)
proof (induction T arbitrary: cur nxt en t0)
  case (Suc T)
  let ?Ls = "[0 .. nl - 1]" and ?k = "nat (cfg_topk (e_cfg en0))" and ?out = "ref_layer env en0 (nl - 1) cur"
  have Ls: "\<forall>L \<in> set ?Ls. is_int32 L \<and> 0 \<le> L \<and> L < int (length (o_layers (e_oracle en0)))" "last ?Ls = nl - 1" "length ?Ls = nat nl" "?Ls \<noteq> []"
    using nl by (auto simp: is_int32_def last_conv_nth)
  have K: "\<forall>L \<in> set ?Ls. \<forall>e \<in> set (ref_experts env en0 L cur). ExpertKey L (int e) \<in> K"
    using Suc.prems(3) [rule_format, of t0] Suc.prems(5) by auto
  have len: "length (p_inflight (e_pf en)) + length ?Ls * ?k < 2 ^ 31" using Suc.prems(4) Ls(3) by simp
  obtain en1 where l: "layer_loop env ?Ls cur nxt en = Inr (?out, en1)" "run_ok env en0 es K en1"
    "length (p_inflight (e_pf en1)) \<le> length (p_inflight (e_pf en)) + nat nl * ?k"
    using layer_loop_run [OF Suc.prems(1,2) Ls(1) K _ len, of nxt] ref_experts_length Ls(2-4) by auto
  let ?used = "cache_used_bytes (p_cache (e_pf en1))"
  let ?en2 = "if es_peak_vram (e_stats en1) < ?used then en1\<lparr>e_stats := (e_stats en1)\<lparr>es_peak_vram := ?used\<rparr>\<rparr> else en1"
  have ok2: "run_ok env en0 es K ?en2" using l(2) by (simp add: run_ok_def same_dims_def)
  have len2: "length (p_inflight (e_pf ?en2)) + T * (nat nl * ?k) < 2 ^ 31" using l(3) Suc.prems(4) by auto
  have nx: "?out = ref_input env en0 (Suc t0)" using Suc.prems(5) nl(1) by (simp add: ref_input_def)
  have cfg: "cfg_num_layers (e_cfg en) = nl" using run_okD(4) [OF Suc.prems(1)] nl(1) by simp
  have t: "\<forall>t < Suc t0 + T. \<forall>L \<in> {0 ..< nl}. \<forall>e \<in> set (ref_experts env en0 L (ref_input env en0 t)). ExpertKey L (int e) \<in> K"
    using Suc.prems(3) by simp
  show ?case using Suc.IH [OF ok2 Suc.prems(2) t len2 nx, of cur] l(1) cfg by (simp add: Let_def)
qed auto

text \<open>Initialisation leaves what the run needs.\<close>

lemma ref_request_iff:
  "k \<in> set (ref_requests env en T) \<longleftrightarrow>
     (\<exists>t < T. \<exists>L \<in> {0 ..< cfg_num_layers (e_cfg en)}. \<exists>e \<in> set (ref_experts env en L (ref_input env en t)). k = ExpertKey L (int e))"
  unfolding ref_requests_def by fastforce

lemma ref_experts_range:
  assumes "\<And>R xs. mset (env_sort env R xs) = mset xs" and "e \<in> set (ref_experts env en L h)"
  shows "e < o_E (e_oracle en)"
proof -
  obtain R i where i: "e = env_sort env R [0 ..< o_E (e_oracle en)] ! i" "i < o_E (e_oracle en)"
    using assms(2) by (auto simp: ref_experts_def oracle_predict_def Let_def split: sum.splits)
  have "length (env_sort env R [0 ..< o_E (e_oracle en)]) = o_E (e_oracle en)" "set (env_sort env R [0 ..< o_E (e_oracle en)]) = {0 ..< o_E (e_oracle en)}"
    using arg_cong [OF assms(1) [of R "[0 ..< o_E (e_oracle en)]"], of size] arg_cong [OF assms(1) [of R "[0 ..< o_E (e_oracle en)]"], of set_mset] by simp_all
  then show ?thesis using i by (metis atLeastLessThan_iff nth_mem)
qed

text \<open>What initialisation and the environment have to provide for \<open>T\<close> tokens.\<close>

definition run_fits :: "Env \<Rightarrow> EngineConfig \<Rightarrow> Engine \<Rightarrow> nat \<Rightarrow> bool" where
  "run_fits env cfg en T \<longleftrightarrow>
     (let K = set (ref_requests env en T); es = (\<lambda>k. nat (key_expert k)) ` K
      in 0 < cfg_num_layers (e_cfg en) \<and> is_int32 (cfg_num_layers (e_cfg en)) \<and>
         T * (nat (cfg_num_layers (e_cfg en)) * nat (cfg_topk (e_cfg en))) < 2 ^ 31 \<and>
         e_blob_elems en = 3 * e_inter en * e_hidden en \<and> e_blob_bytes en = 4 * e_blob_elems en \<and> 0 < e_blob_bytes en \<and>
         e_blob_bytes en \<le> budget_of cfg en \<and> e_blob_bytes en * card K \<le> budget_of cfg en \<and> budget_of cfg en + e_blob_bytes en < size_mod \<and>
         (\<forall>e \<in> es. \<forall>k. view_ok (resolve_expert (e_mem en) (e_shards en) 0 (int e) k)) \<and> fresh_vectors env en es \<and>
         shard_addrs en es \<inter> span (fst (cache_space (p_cache (e_pf en)))) (snd (cache_space (p_cache (e_pf en)))) = {})"

lemma run_start:
  assumes init: "init sys z (engine_new m) cfg = Ret (True, en)" and perm: "\<And>R xs. mset (env_sort env R xs) = mset xs" and fits: "run_fits env cfg en T"
    and K: "K = set (ref_requests env en T)" and es: "es = (\<lambda>k. nat (key_expert k)) ` K"
  shows "run_ok env en es K en" "run_given env en es K" "p_inflight (e_pf en) = []"
    "cfg_num_layers (e_cfg en) \<le> int (length (o_layers (e_oracle en)))"
proof -
  obtain c where c: "cache_init cache_new (budget_of cfg en) (host_backend sys) = (True, c)"
    "prefetcher_init (prefetcher_new c 64) False = (True, e_pf en)" and E: "o_E (e_oracle en) = 256" and st: "e_staging en = []"
    and l: "cfg_num_layers (e_cfg en) \<le> int (length (o_layers (e_oracle en)))"
    using init_result [OF init] by metis
  show "cfg_num_layers (e_cfg en) \<le> int (length (o_layers (e_oracle en)))" by (rule l)
  have pf: "e_pf en = (prefetcher_new c 64)\<lparr>p_use_cuda := False\<rparr>" using c(2) by (simp add: prefetcher_init_def)
  then show q: "p_inflight (e_pf en) = []" by (simp add: prefetcher_new_def)
  have pc: "p_cache (e_pf en) = c" using pf by (simp add: prefetcher_new_def)
  note f = fits [unfolded run_fits_def Let_def, folded K, folded es]
  have cap: "a_cap (c_arena c) = budget_of cfg en" "cache_inv c" and empty: "c_blocks c = []"
    using c(1) cache_init_inv [OF c(1)] f by (auto simp: cache_init_def cache_new_def arena_init_def arena_new_def Let_def split: if_splits)
  have key: "is_int32 (key_layer k) \<and> is_int32 (key_expert k) \<and> key_expert k \<in> int ` es" if k: "k \<in> K" for k
  proof -
    obtain t L e where k': "L \<in> {0 ..< cfg_num_layers (e_cfg en)}" "e \<in> set (ref_experts env en L (ref_input env en t))" "k = ExpertKey L (int e)"
      using k unfolding K ref_request_iff by blast
    have "e < 256" using ref_experts_range [OF perm k'(2)] E by simp
    moreover have "e \<in> es" using k k'(3) es by force
    ultimately show ?thesis using k' f by (auto simp: is_int32_def)
  qed
  show given: "run_given env en es K"
  proof -
    have "finite K" by (simp add: K)
    then show ?thesis using f key unfolding run_given_def pc cap(1) by blast
  qed
  have "away (run_src env en es) (e_blob_bytes en) (cache_space c)" "\<forall>k. run_src env en es k \<noteq> nullptr"
  proof -
    show "away (run_src env en es) (e_blob_bytes en) (cache_space c)"
      unfolding away_def
    proof
      fix k
      show "span (run_src env en es k) (e_blob_bytes en) \<inter> span (fst (cache_space c)) (snd (cache_space c)) = {}"
      proof (cases "key_expert k \<in> int ` es")
        case True
        then obtain j where "j \<in> es" "key_expert k = int j" by blast
        then show ?thesis using fresh_vectorsD(3) [OF run_givenD(4) [OF given]] pc by (simp add: run_src_def)
      next
        case False
        then show ?thesis using pc by (auto simp: run_src_def)
      qed
    qed
    show "\<forall>k. run_src env en es k \<noteq> nullptr"
      using fresh_vectorsD(1) [OF run_givenD(4) [OF given]] by (auto simp: run_src_def)
  qed
  then have "prefetcher_inv (run_src env en es) (e_blob_bytes en) (cache_space c) (e_mem en, e_pf en)"
    using start_inv(1) [OF c(1) _ _ _ _ _ c(2)] f by blast
  moreover have "cache_region c k = None" for k using cache_region_None [OF cap(2)] empty by simp
  ultimately show "run_ok env en es K en"
    using st q pc unfolding run_ok_def by (simp add: same_dims_def)
qed

lemma generate_reference:
  assumes init: "init sys z (engine_new m) cfg = Ret (True, en)" and perm: "\<And>R xs. mset (env_sort env R xs) = mset xs"
    and fits: "run_fits env cfg en (nat (cfg_num_tokens (e_cfg en)))"
  shows "\<exists>en'. generate env en = Inr (ref_input env en (nat (cfg_num_tokens (e_cfg en))), en')"
proof -
  let ?T = "nat (cfg_num_tokens (e_cfg en))"
  define K where "K = set (ref_requests env en ?T)"
  define es where "es = (\<lambda>k. nat (key_expert k)) ` K"
  note s = run_start [OF init perm fits K_def es_def]
  note f = fits [unfolded run_fits_def Let_def]
  have "\<forall>t < 0 + ?T. \<forall>L \<in> {0 ..< cfg_num_layers (e_cfg en)}. \<forall>e \<in> set (ref_experts env en L (ref_input env en t)). ExpertKey L (int e) \<in> K"
    unfolding K_def ref_request_iff by auto
  then obtain nxt' en' where "token_loop env ?T (ref_input env en 0) (e_buf1 en) en = Inr (ref_input env en ?T, nxt', en')"
    using token_loop_run [OF s(1,2) refl _ _ s(4), of 0 ?T "ref_input env en 0" "e_buf1 en"] f s(3) by auto
  then show ?thesis by (simp add: generate_def Let_def ref_input_def)
qed

section \<open>A complete initialisation\<close>

lemma init_cache_budget:
  "init_cache sys en cfg =
     (if cfg_use_cuda cfg then Ret (False, en)
      else case cache_init (p_cache (e_pf en)) (budget_of cfg en) (host_backend sys) of (ok, c) \<Rightarrow>
        if \<not> ok then Ret (False, en\<lparr>e_pf := (e_pf en)\<lparr>p_cache := c\<rparr>\<rparr>) else init_buffers (en\<lparr>e_pf := (e_pf en)\<lparr>p_cache := c\<rparr>\<rparr>) cfg)"
  by (simp add: init_cache_def budget_of_def Let_def)

lemma init_state:
  assumes rd: "st_readable ts data" "holds m base (st_file ts data)" "base \<noteq> nullptr"
    and os: "0 \<le> os_open (sys_os sys) (cfg_shard_path cfg)"
      "os_fstat (sys_os sys) (os_open (sys_os sys) (cfg_shard_path cfg)) = Some (length (st_file ts data))"
      "os_mmap (sys_os sys) (os_open (sys_os sys) (cfg_shard_path cfg)) (length (st_file ts data)) = Some base"
    and t: "t \<in> set ts" "st_name t = expert_tensor_name 0 0 GATE_PROJ" "st_start t < st_end t" "st_shape t = [i, h]"
    and h: "to_int32 h = cfg_hidden cfg" "0 \<le> cfg_hidden cfg" "\<not> cfg_use_cuda cfg" "\<And>n. sys_malloc sys n \<noteq> nullptr"
    and orc: "\<And>sc D. \<exists>sc'. oracle_load (sys_files sys) z sc (cfg_oracle_path cfg) D 256 256 = Ret (True, sc') \<and> length (o_layers sc') = nl"
  shows "\<exists>en w. init sys z (engine_new m) cfg = Ret (True, en) \<and> wm_base w = base \<and> read_u64 m base = length (st_header ts) \<and>
    wm_header_json w = st_header ts \<and> wm_tensors w = foldl add_entry [] (map st_entry ts) \<and> e_shards en = [w] \<and> e_mem en = m \<and>
    e_cfg en = cfg\<lparr>cfg_num_layers := min (cfg_num_layers cfg) (to_int32 (int nl))\<rparr> \<and> e_inter en = nat (to_int32 i) \<and> e_hidden en = nat (to_int32 h) \<and>
    e_blob_elems en = e_blob_elems (set_dims (engine_new m) (to_int32 i) (to_int32 h)) \<and>
    e_blob_bytes en = e_blob_bytes (set_dims (engine_new m) (to_int32 i) (to_int32 h)) \<and>
    cache_space (p_cache (e_pf en)) = (sys_malloc sys (budget_of cfg en), budget_of cfg en) \<and> length (o_layers (e_oracle en)) = nl"
proof -
  obtain w where w: "wm_base w = base" "read_u64 m base = length (st_header ts)" "wm_header_json w = st_header ts"
    "wm_tensors w = foldl add_entry [] (map st_entry ts)"
    "init_shard sys (engine_new m) cfg =
      Ret (True, set_dims ((engine_new m)\<lparr>e_cfg := cfg, e_mmap := w, e_shards := [w]\<rparr>) (to_int32 i) (to_int32 h))"
    using init_shard_state [OF rd os t h(1)] by blast
  define en1 where "en1 = set_dims ((engine_new m)\<lparr>e_cfg := cfg, e_mmap := w, e_shards := [w]\<rparr>) (to_int32 i) (to_int32 h)"
  have en1: "e_pf en1 = prefetcher_new cache_new 64" "e_mem en1 = m" "e_shards en1 = [w]" "e_inter en1 = nat (to_int32 i)" "e_hidden en1 = nat (to_int32 h)"
    "e_blob_elems en1 = e_blob_elems (set_dims (engine_new m) (to_int32 i) (to_int32 h))"
    "e_blob_bytes en1 = e_blob_bytes (set_dims (engine_new m) (to_int32 i) (to_int32 h))"
    by (simp_all add: en1_def engine_new_def set_dims_def Let_def)
  obtain sc' where sc': "oracle_load (sys_files sys) z (e_oracle en1) (cfg_oracle_path cfg) (e_hidden en1) 256 256 = Ret (True, sc')" "length (o_layers sc') = nl"
    using orc by blast
  let ?b = "budget_of cfg en1"
  obtain c where c: "cache_init cache_new ?b (host_backend sys) = (True, c)" "cache_space c = (sys_malloc sys ?b, ?b)"
    using h(4) [of ?b] by (simp add: cache_init_def cache_new_def arena_init_def arena_new_def cache_space_def Let_def)
  define en where "en = en1\<lparr>e_oracle := sc', e_cfg := cfg\<lparr>cfg_num_layers := min (cfg_num_layers cfg) (num_layers sc')\<rparr>,
     e_pf := (prefetcher_new c 64)\<lparr>p_use_cuda := False\<rparr>, e_buf0 := replicate (e_hidden en1) 0, e_buf1 := replicate (e_hidden en1) 0\<rparr>"
  have pc: "p_cache (prefetcher_new cache_new 64) = cache_new" "(prefetcher_new cache_new 64)\<lparr>p_cache := c, p_use_cuda := False\<rparr> = (prefetcher_new c 64)\<lparr>p_use_cuda := False\<rparr>"
    by (simp_all add: prefetcher_new_def)
  have bf: "budget_of cfg (en1\<lparr>e_oracle := x, e_cfg := y\<rparr>) = ?b" for x y by (simp add: budget_of_def)
  have "init_cache sys (en1\<lparr>e_oracle := sc', e_cfg := cfg\<lparr>cfg_num_layers := min (cfg_num_layers cfg) (num_layers sc')\<rparr>\<rparr>) cfg = Ret (True, en)"
    unfolding init_cache_budget
    using h(2,3) c(1) pc by (simp add: init_buffers_def prefetcher_init_def en_def en1(1) bf Let_def)
  then have i: "init sys z (engine_new m) cfg = Ret (True, en)"
    using w(5) sc'(1) by (simp add: init_def Let_def en1_def [symmetric])
  have b: "budget_of cfg en = ?b" by (simp add: budget_of_def en_def)
  show ?thesis
    by (intro exI [of _ en] exI [of _ w] conjI i w(1-4), unfold b)
      (simp_all add: en_def c(2) sc'(2) num_layers_def en1 prefetcher_new_def)
qed

section \<open>Properties\<close>

text \<open>
  C2: the engine computes its network. After a successful initialisation, if the budget holds every expert that the run asks for, the
  shard has their projections and new vectors overlap nothing, then the final hidden state of \<^verbatim>\<open>generate\<close> is that of
  iterating the last layer of the network over the prompt: the rescaled mean, over all experts the oracle predicts, of their SwiGLU
  outputs on the weights of the shard. Staging, the copy queue, the cache and its evictions leave no trace in the result.
\<close>

theorem engine_equals_reference:
  assumes "init sys z (engine_new m) cfg = Ret (True, en)" and "\<And>R xs. mset (env_sort env R xs) = mset xs"
    and "T = nat (cfg_num_tokens (e_cfg en))" and "run_fits env cfg en T"
  shows "\<exists>en'. generate env en = Inr ((ref_layer env en (cfg_num_layers (e_cfg en) - 1) ^^ T) (prompt (e_hidden en)), en')"
  using generate_reference [OF assms(1,2) assms(4) [unfolded assms(3)]] by (simp add: ref_input_def assms(3))

text \<open>One expert of dimension 1, and two tokens through one layer; every step of the engine runs.\<close>

definition whole_expert :: "StTensor list" where
  "whole_expert = [\<lparr>st_name = expert_tensor_name 0 0 DOWN_PROJ, st_dtype = ''BF16'', st_shape = [1, 1], st_start = 4, st_end = 6\<rparr>,
     \<lparr>st_name = expert_tensor_name 0 0 GATE_PROJ, st_dtype = ''BF16'', st_shape = [1, 1], st_start = 0, st_end = 2\<rparr>,
     \<lparr>st_name = expert_tensor_name 0 0 UP_PROJ, st_dtype = ''BF16'', st_shape = [1, 1], st_start = 2, st_end = 4\<rparr>]"

definition whole_data :: "byte list" where
  "whole_data = [128, 63, 0, 64, 128, 191]"

definition whole_sys :: Sys where
  "whole_sys = \<lparr>sys_os = mapping_os (length (st_file whole_expert whole_data)), sys_files = example_files, sys_malloc = (\<lambda>_. 65536)\<rparr>"

definition whole_config :: EngineConfig where
  "whole_config = default_config\<lparr>cfg_hidden := 1, cfg_topk := 1, cfg_num_tokens := 2\<rparr>"

definition whole_env :: Env where
  "whole_env = \<lparr>env_sort = (\<lambda>R xs. xs), env_new_vector = (\<lambda>e. 100000), env_elapsed = 0\<rparr>"

lemmas whole_eval = expert_tensor_name_def kind_name_def show_int_def show_nat.simps digit_def

lemma whole_readable: "st_readable whole_expert whole_data" "length (st_file whole_expert whole_data) < 1000"
  by (simp_all add: st_readable_def whole_expert_def whole_data_def is_int64_def st_file_def le64_def st_header_def st_entry_def
      whole_eval quote_def escape_def)

lemma whole_init:
  obtains en where "init whole_sys no_zlib (engine_new (mapped (st_file whole_expert whole_data))) whole_config = Ret (True, en)"
    and "e_cfg en = whole_config\<lparr>cfg_num_layers := 1\<rparr>" "e_inter en = 1" "e_hidden en = 1" "e_blob_elems en = 3" "e_blob_bytes en = 12"
    and "cache_space (p_cache (e_pf en)) = (65536, 48)" "length (o_layers (e_oracle en)) = 1" "o_E (e_oracle en) = 256"
    and "\<forall>k. view_ok (resolve_expert (e_mem en) (e_shards en) 0 0 k)" and "shard_addrs en {0} \<subseteq> {..< 10000}"
proof -
  let ?m = "mapped (st_file whole_expert whole_data)"
  obtain en w where i: "init whole_sys no_zlib (engine_new ?m) whole_config = Ret (True, en)"
    and w: "wm_base w = 4096" "read_u64 ?m 4096 = length (st_header whole_expert)" "wm_header_json w = st_header whole_expert"
      "wm_tensors w = foldl add_entry [] (map st_entry whole_expert)"
    and en: "e_shards en = [w]" "e_mem en = ?m" "e_cfg en = whole_config\<lparr>cfg_num_layers := min (cfg_num_layers whole_config) (to_int32 (int 1))\<rparr>"
      "e_inter en = nat (to_int32 1)" "e_hidden en = nat (to_int32 1)" "e_blob_elems en = e_blob_elems (set_dims (engine_new ?m) (to_int32 1) (to_int32 1))"
      "e_blob_bytes en = e_blob_bytes (set_dims (engine_new ?m) (to_int32 1) (to_int32 1))"
      "cache_space (p_cache (e_pf en)) = (sys_malloc whole_sys (budget_of whole_config en), budget_of whole_config en)" "length (o_layers (e_oracle en)) = 1"
    using init_state [OF whole_readable(1) mapped_holds, of whole_sys whole_config "whole_expert ! 1" 1 1 no_zlib 1] example_oracle_one_layer [of no_zlib]
    by (auto simp: whole_sys_def whole_config_def mapping_os_def whole_expert_def to_int32_def default_config_def)
  have d: "e_blob_elems en = 3" "e_blob_bytes en = 12" "e_inter en = 1" "e_hidden en = 1"
    using en(4-7) by (simp_all add: set_dims_def to_int32_def mul64_def size_mod_def)
  then have sp: "cache_space (p_cache (e_pf en)) = (65536, 48)"
    using en(8) by (simp add: budget_of_def whole_config_def default_config_def whole_sys_def mul64_def size_mod_def)
  have E: "o_E (e_oracle en) = 256" using init_result [OF i] by metis
  have cfg: "e_cfg en = whole_config\<lparr>cfg_num_layers := 1\<rparr>" using en(3) by (simp add: whole_config_def default_config_def to_int32_def)
  have v: "\<exists>a. resolve_expert ?m [w] 0 0 k = a \<and> view_ok a \<and> v_data a < 9000" for k
  proof -
    have t: "\<exists>t \<in> set whole_expert. st_name t = expert_tensor_name 0 0 k \<and> st_start t < st_end t \<and> st_end t \<le> 6"
      by (cases k) (simp_all add: whole_expert_def)
    then obtain t where t: "t \<in> set whole_expert" "st_name t = expert_tensor_name 0 0 k" "st_start t < st_end t" "st_end t \<le> 6" by blast
    have "length (st_header whole_expert) < 1000" using whole_readable(2) by (simp add: st_file_def)
    then show ?thesis using lookup_st_file(1) [OF whole_readable(1) w t(1)] t by (simp add: resolve_expert_def view_ok_def Let_def)
  qed
  have "view_ok (resolve_expert (e_mem en) (e_shards en) 0 0 k)" "v_data (resolve_expert (e_mem en) (e_shards en) 0 0 k) < 9000" for k
    using v [of k] en(1,2) by auto
  note vd = this(2)
  have "x < 10000" if "x \<in> shard_addrs en {0}" for x
  proof -
    have "x \<in> span 4096 8 \<or> (\<exists>k. x \<in> span (v_data (resolve_expert (e_mem en) (e_shards en) 0 0 k)) 2)"
      using that en(1) w(1) d(3,4) by (simp add: shard_addrs_def)
    then show ?thesis using vd less_trans by fastforce
  qed
  then have "shard_addrs en {0} \<subseteq> {..< 10000}" by blast
  then show ?thesis
    using that [OF i cfg d(3,4,1,2) sp en(9) E] v en(1,2) by auto
qed

theorem engine_equals_reference_witness:
  "\<exists>en en'. init whole_sys no_zlib (engine_new (mapped (st_file whole_expert whole_data))) whole_config = Ret (True, en) \<and>
     generate whole_env en = Inr ((ref_layer whole_env en 0 ^^ 2) (prompt 1), en')"
proof -
  obtain en where i: "init whole_sys no_zlib (engine_new (mapped (st_file whole_expert whole_data))) whole_config = Ret (True, en)"
    and en: "e_cfg en = whole_config\<lparr>cfg_num_layers := 1\<rparr>" "e_inter en = 1" "e_hidden en = 1" "e_blob_elems en = 3" "e_blob_bytes en = 12"
      "cache_space (p_cache (e_pf en)) = (65536, 48)" "length (o_layers (e_oracle en)) = 1" "o_E (e_oracle en) = 256"
    and v: "\<forall>k. view_ok (resolve_expert (e_mem en) (e_shards en) 0 0 k)" and sa: "shard_addrs en {0} \<subseteq> {..< 10000}"
    by (rule whole_init)
  have cfg: "cfg_num_layers (e_cfg en) = 1" "cfg_topk (e_cfg en) = 1" "cfg_num_tokens (e_cfg en) = 2" by (simp_all add: en(1) whole_config_def)
  have "ref_experts whole_env en 0 h = [0]" for h
    using en(7,8) cfg by (simp add: ref_experts_def oracle_predict_def oracle_forward_def Let_def whole_env_def upt_rec [of 0])
  then have K: "set (ref_requests whole_env en 2) = {ExpertKey 0 0}" using cfg by (auto simp: ref_requests_def upt_rec [of _ 2])
  have b: "budget_of whole_config en = 48" by (simp add: budget_of_def whole_config_def default_config_def en(5) mul64_def size_mod_def)
  have "fresh_vectors whole_env en {0}" using sa en(5,6) by (auto simp: fresh_vectors_def whole_env_def)
  moreover have "shard_addrs en {0} \<inter> span 65536 48 = {}" using sa by auto
  ultimately have "run_fits whole_env whole_config en 2"
    unfolding run_fits_def K Let_def using cfg en(2-6) b v by (simp add: is_int32_def size_mod_def)
  from engine_equals_reference [OF i _ _ this] show ?thesis using i cfg en(3) by (auto simp: whole_env_def)
qed

end
