(* ===== verification/Starvation.thy ===== *)
theory Starvation
  imports Engine
begin

text \<open>
  What the eviction policy of \<^verbatim>\<open>vram_cache.cpp\<close> does to the engine's requests. A layer requests its experts with
  descending priorities, and priorities of earlier layers never decay. Once the cache is full of first-ranked experts, the request
  for each further expert of a layer evicts the expert requested just before it.
\<close>

section \<open>A full cache\<close>

definition cache_full :: "nat \<Rightarrow> VramCache \<Rightarrow> bool" where
  "cache_full n c \<longleftrightarrow> cache_ok n c \<and> card (set (c_blocks c)) = a_cap (c_arena c) div n"

text \<open>All blocks but one have priority \<open>K\<close>, and none is older than the weight of a priority.\<close>

definition starved :: "int \<Rightarrow> nat \<Rightarrow> VramCache \<Rightarrow> bool" where
  "starved K d c \<longleftrightarrow>
     (\<exists>low \<in> set (c_blocks c). b_priority low < K \<and> (\<forall>b \<in> set (c_blocks c) - {low}. b_priority b = K)) \<and>
     (\<forall>b \<in> set (c_blocks c). c_tick c + int d < b_last_used b + PRIORITY_WEIGHT)"

lemma full_miss:
  assumes full: "cache_full n c" and miss: "cache_region c (ExpertKey l e) = None"
  obtains v nb c' where "cache_ensure c l e n p = (True, c')" "v \<in> set (c_blocks c)"
    "\<forall>b \<in> set (c_blocks c). eviction_score v \<le> eviction_score b" "set (c_blocks c') = insert nb (set (c_blocks c) - {v})"
    "b_key nb = ExpertKey l e" "b_priority nb = p" "b_last_used nb = c_tick c + 1" "c_tick c' = c_tick c + 1" "cache_full n c'"
    "a_cap (c_arena c') = a_cap (c_arena c)" "nb \<notin> set (c_blocks c)"
proof -
  have ok: "cache_ok n c" and inv: "cache_inv c" using full by (simp_all add: cache_full_def cache_ok_def)
  have none: "\<forall>b \<in> set (c_blocks c). b_key b \<noteq> ExpertKey l e" using miss cache_region_None [OF inv] by blast
  then have f: "find_block c l e = None" by (simp add: find_block_None)
  let ?c1 = "c\<lparr>c_stats := (c_stats c)\<lparr>cs_ensures := Suc (cs_ensures (c_stats c))\<rparr>\<rparr>"
  obtain d off ar where d: "cache_ensure c l e n p = (True, load_block d (ExpertKey l e) n p off ar)" "arena_alloc (c_arena d) n = (off, ar)"
    and "d = ?c1 \<and> n \<le> arena_free_space (c_arena c) \<or>
         (\<exists>v \<in> set (c_blocks c). d = evict_block ?c1 v \<and> arena_free_space (c_arena c) < n \<and>
            (\<forall>b \<in> set (c_blocks c). eviction_score v \<le> eviction_score b))"
    by (rule ensure_uniform_miss [OF ok f, where p = p])
  then obtain v where v: "v \<in> set (c_blocks c)" "d = evict_block ?c1 v" "\<forall>b \<in> set (c_blocks c). eviction_score v \<le> eviction_score b"
    using cache_room_iff(1) [OF ok] full by (auto simp: cache_full_def)
  let ?c' = "load_block d (ExpertKey l e) n p off ar"
  have bd: "set (c_blocks d) = set (c_blocks c) - {v}" using v(1,2) key_inj [OF inv] by (auto simp: evict_block_def)
  have flt: "filter (\<lambda>b. b_key b \<noteq> ExpertKey l e) (c_blocks d) = c_blocks d" using none bd by (auto simp: filter_id_conv)
  have td: "c_tick d = c_tick c" by (simp add: v(2) evict_block_def)
  obtain nb where nb: "set (c_blocks ?c') = insert nb (set (c_blocks d))" "b_key nb = ExpertKey l e" "b_priority nb = p" "b_last_used nb = c_tick c + 1"
    and t: "c_tick ?c' = c_tick c + 1"
    using td by (simp add: load_block_def flt)
  have new: "nb \<notin> set (c_blocks c)" using none nb(2) by blast
  have "cache_ok n ?c'" using cache_ensure_ok(2) [OF ok, of l e p] d(1) by simp
  moreover have cap: "a_cap (c_arena ?c') = a_cap (c_arena c)"
    using vram_store.acquire_space [OF ok, of "ExpertKey l e" p True ?c'] d(1) by (simp add: cache_acquire_def cache_space_def)
  moreover have "card (set (c_blocks ?c')) = card (set (c_blocks c))"
    using new v(1) card_gt_0_iff [of "set (c_blocks c)"] unfolding nb(1) bd by auto
  ultimately have "cache_full n ?c'" using full by (simp add: cache_full_def)
  then show thesis using that d(1) v(1,3) nb(1) bd nb(2-4) t cap new by blast
qed

lemma full_inv: "cache_full n c \<Longrightarrow> cache_ok n c \<and> cache_inv c"
  by (simp add: cache_full_def cache_ok_def)

lemma score_less:
  assumes "b_last_used v < b_last_used b + PRIORITY_WEIGHT" and "b_priority v < b_priority b"
  shows "eviction_score v < eviction_score b"
proof -
  have "b_priority v * PRIORITY_WEIGHT + PRIORITY_WEIGHT \<le> b_priority b * PRIORITY_WEIGHT"
    using mult_right_mono [of "b_priority v + 1" "b_priority b" PRIORITY_WEIGHT] assms(2) by (simp add: PRIORITY_WEIGHT_def algebra_simps)
  then show ?thesis using assms(1) by (simp add: eviction_score_def)
qed

section \<open>The requests of a layer\<close>

text \<open>A request of lower priority than the rest replaces the block of the request before it.\<close>

lemma low_miss:
  assumes full: "cache_full n c" and low: "low \<in> set (c_blocks c)" "b_priority low < K" "\<forall>b \<in> set (c_blocks c) - {low}. b_priority b = K"
    and age: "\<forall>b \<in> set (c_blocks c) - {low}. c_tick c < b_last_used b + PRIORITY_WEIGHT"
    and miss: "cache_region c (ExpertKey l e) = None" and en: "cache_ensure c l e n p = (r, c')"
  obtains nb where "set (c_blocks c') = insert nb (set (c_blocks c) - {low})" "b_key nb = ExpertKey l e" "b_priority nb = p"
    "b_last_used nb = c_tick c + 1" "c_tick c' = c_tick c + 1" "cache_full n c'" "a_cap (c_arena c') = a_cap (c_arena c)" "nb \<notin> set (c_blocks c)"
proof -
  obtain v nb where m: "v \<in> set (c_blocks c)" "\<forall>b \<in> set (c_blocks c). eviction_score v \<le> eviction_score b"
    "set (c_blocks c') = insert nb (set (c_blocks c) - {v})" "b_key nb = ExpertKey l e" "b_priority nb = p"
    "b_last_used nb = c_tick c + 1" "c_tick c' = c_tick c + 1" "cache_full n c'" "a_cap (c_arena c') = a_cap (c_arena c)" "nb \<notin> set (c_blocks c)"
    by (rule full_miss [OF full miss, where p = p]) (use en in auto)
  have "eviction_score low < eviction_score b" if b: "b \<in> set (c_blocks c) - {low}" for b
  proof (rule score_less)
    show "b_priority low < b_priority b" using low(2,3) b by simp
    have "b_last_used low \<le> c_tick c" using cache_invD(8) [of c low] full_inv [OF full] low(1) by simp
    then show "b_last_used low < b_last_used b + PRIORITY_WEIGHT" using bspec [OF age b] by linarith
  qed
  then have "v = low" using m(1,2) low(1) by fastforce
  then show thesis using that m by blast
qed

lemma low_requests:
  assumes "cache_full n c" "low \<in> set (c_blocks c)" "b_priority low < K" "\<forall>b \<in> set (c_blocks c) - {low}. b_priority b = K"
    and "\<forall>b \<in> set (c_blocks c) - {low}. c_tick c + int (length ks) \<le> b_last_used b + PRIORITY_WEIGHT"
    and "distinct (map fst ks)" "\<forall>k \<in> fst ` set ks. cache_region c k = None" "\<forall>x \<in> set ks. snd x < K"
  shows "\<exists>low'. cache_full n (acquire_all (cache_acquire n) ks c) \<and>
    set (c_blocks (acquire_all (cache_acquire n) ks c)) = insert low' (set (c_blocks c) - {low}) \<and> b_priority low' < K \<and>
    low' \<notin> set (c_blocks c) - {low} \<and> c_tick (acquire_all (cache_acquire n) ks c) = c_tick c + int (length ks) \<and>
    (ks = [] \<longrightarrow> low' = low) \<and> (ks \<noteq> [] \<longrightarrow> b_key low' = fst (last ks) \<and> b_priority low' = snd (last ks))"
  using assms
proof (induction ks arbitrary: c low)
  case Nil
  then show ?case by (intro exI [of _ low]) auto
next
  case (Cons x ks)
  obtain l e p where x: "x = (ExpertKey l e, p)" by (metis ExpertKey.exhaust surj_pair)
  obtain r c' where en: "cache_ensure c l e n p = (r, c')" by fastforce
  have age: "\<forall>b \<in> set (c_blocks c) - {low}. c_tick c < b_last_used b + PRIORITY_WEIGHT"
  proof
    fix b assume "b \<in> set (c_blocks c) - {low}"
    from bspec [OF Cons.prems(5) this] show "c_tick c < b_last_used b + PRIORITY_WEIGHT" by simp
  qed
  obtain nb where nb: "set (c_blocks c') = insert nb (set (c_blocks c) - {low})" "b_key nb = ExpertKey l e" "b_priority nb = p"
    "b_last_used nb = c_tick c + 1" "c_tick c' = c_tick c + 1" "cache_full n c'" "a_cap (c_arena c') = a_cap (c_arena c)" "nb \<notin> set (c_blocks c)"
    by (rule low_miss [OF Cons.prems(1-4) age _ en]) (use Cons.prems(7) x in auto)
  have rest: "set (c_blocks c') - {nb} = set (c_blocks c) - {low}" using nb(1,8) by blast
  have miss: "\<forall>k \<in> fst ` set ks. cache_region c' k = None"
  proof
    fix k assume k: "k \<in> fst ` set ks"
    have "ExpertKey l e \<notin> fst ` set ks" using Cons.prems(6) x by simp
    then have "k \<noteq> ExpertKey l e" using k by blast
    moreover have "cache_region c k = None" using Cons.prems(7) k by auto
    ultimately show "cache_region c' k = None"
      using nb(1,2) full_inv [OF nb(6)] full_inv [OF Cons.prems(1)] cache_region_None by auto
  qed
  have step: "acquire_all (cache_acquire n) (x # ks) c = acquire_all (cache_acquire n) ks c'" using en by (simp add: x cache_acquire_def)
  let ?R = "acquire_all (cache_acquire n) ks c'"
  have pK: "b_priority nb < K" using Cons.prems(8) nb(3) x by simp
  have age': "\<forall>b \<in> set (c_blocks c') - {nb}. c_tick c' + int (length ks) \<le> b_last_used b + PRIORITY_WEIGHT"
    unfolding rest nb(5) using Cons.prems(5) by (simp add: add.assoc)
  have "distinct (map fst ks)" "\<forall>x \<in> set ks. snd x < K" using Cons.prems(6,8) by simp_all
  from Cons.IH [OF nb(6) _ pK _ age' this(1) miss this(2)] obtain low' where low': "cache_full n ?R"
    "set (c_blocks ?R) = insert low' (set (c_blocks c) - {low})" "b_priority low' < K"
    "low' \<notin> set (c_blocks c) - {low}" "c_tick ?R = c_tick c' + int (length ks)"
    "ks = [] \<longrightarrow> low' = nb" "ks \<noteq> [] \<longrightarrow> b_key low' = fst (last ks) \<and> b_priority low' = snd (last ks)"
    unfolding rest using nb(1) Cons.prems(4) by blast
  have "b_key low' = fst (last (x # ks)) \<and> b_priority low' = snd (last (x # ks))"
    using low'(6,7) nb(2,3) x by (cases ks) simp_all
  moreover have "c_tick ?R = c_tick c + int (length (x # ks))" using low'(5) nb(5) by simp
  ultimately show ?case unfolding step using low'(1-4) by blast
qed

text \<open>
  The first request evicts the block of low priority, the second the oldest of the others, and each further one the block of the request
  before it: two of the layer's experts remain.
\<close>

lemma starved_requests:
  assumes full: "cache_full n c" and two: "2 \<le> a_cap (c_arena c) div n" and st: "starved K (length ks) c"
    and ks: "ks = (k0, K) # (k1, p1) # rest" "distinct (map fst ks)" "\<forall>k \<in> fst ` set ks. cache_region c k = None" "\<forall>x \<in> set (tl ks). snd x < K"
  defines "c' \<equiv> acquire_all (cache_acquire n) ks c"
  shows "cache_full n c'" "\<forall>k \<in> fst ` set ks. cache_region c' k \<noteq> None \<longleftrightarrow> k = k0 \<or> k = fst (last ks)"
    "\<exists>low \<in> set (c_blocks c'). b_key low = fst (last ks) \<and> b_priority low = snd (last ks) \<and> (\<forall>b \<in> set (c_blocks c') - {low}. b_priority b = K)"
proof -
  obtain low where low: "low \<in> set (c_blocks c)" "b_priority low < K" "\<forall>b \<in> set (c_blocks c) - {low}. b_priority b = K"
    and age: "\<forall>b \<in> set (c_blocks c). c_tick c + int (length ks) < b_last_used b + PRIORITY_WEIGHT"
    using st unfolding starved_def by blast
  obtain l0 e0 l1 e1 where k: "k0 = ExpertKey l0 e0" "k1 = ExpertKey l1 e1" by (metis ExpertKey.exhaust)
  obtain r1 c1 where en1: "cache_ensure c l0 e0 n K = (r1, c1)" by fastforce
  have a0: "\<forall>b \<in> set (c_blocks c) - {low}. c_tick c < b_last_used b + PRIORITY_WEIGHT" using age ks(1) by fastforce
  obtain b0 where b0: "set (c_blocks c1) = insert b0 (set (c_blocks c) - {low})" "b_key b0 = k0" "b_priority b0 = K"
    "b_last_used b0 = c_tick c + 1" "c_tick c1 = c_tick c + 1" "cache_full n c1" "a_cap (c_arena c1) = a_cap (c_arena c)" "b0 \<notin> set (c_blocks c)"
    by (rule low_miss [OF full low a0 _ en1]) (use ks(1,3) k in auto)
  note inv0 = full_inv [OF full, THEN conjunct2] and inv1 = full_inv [OF b0(6), THEN conjunct2]
  have old: "b_last_used b \<le> c_tick c" if "b \<in> set (c_blocks c)" for b using cache_invD(8) [OF inv0 that] by simp
  have sat: "\<forall>b \<in> set (c_blocks c1). b_priority b = K" using b0(1,3) low(3) by auto
  have absent: "\<forall>b \<in> set (c_blocks c). b_key b \<notin> fst ` set ks" using ks(3) cache_region_None [OF inv0] by blast
  have m1: "cache_region c1 k = None" if "k \<in> fst ` set (tl ks)" for k
  proof -
    have "k \<noteq> k0" "k \<in> fst ` set ks" using that ks(1,2) by auto
    then show ?thesis using absent b0(1,2) cache_region_None [OF inv1] by auto
  qed
  obtain r2 c2 where en2: "cache_ensure c1 l1 e1 n p1 = (r2, c2)" by fastforce
  obtain v b1 where m: "v \<in> set (c_blocks c1)" "\<forall>b \<in> set (c_blocks c1). eviction_score v \<le> eviction_score b"
    "set (c_blocks c2) = insert b1 (set (c_blocks c1) - {v})" "b_key b1 = k1" "b_priority b1 = p1"
    "b_last_used b1 = c_tick c1 + 1" "c_tick c2 = c_tick c1 + 1" "cache_full n c2" "b1 \<notin> set (c_blocks c1)"
    by (rule full_miss [OF b0(6), of l1 e1 p1]) (use m1 [of k1] ks(1) k en2 in auto)
  have "v \<noteq> b0"
  proof
    assume v: "v = b0"
    have "2 \<le> card (set (c_blocks c1))" using b0(6,7) two by (simp add: cache_full_def)
    then have "set (c_blocks c1) \<noteq> {b0}" by auto
    then obtain b where b: "b \<in> set (c_blocks c1)" "b \<noteq> b0" using b0(1) by blast
    then have "b_last_used b \<le> c_tick c" using b0(1) old by auto
    then show False using m(2) b sat v b0(3,4) by (auto simp: eviction_score_def)
  qed
  define H where "H = set (c_blocks c1) - {v}"
  have H: "b0 \<in> H" "\<forall>b \<in> H. b_priority b = K" "b1 \<notin> H" "H \<subseteq> insert b0 (set (c_blocks c))"
    using b0(1) \<open>v \<noteq> b0\<close> sat m(9) by (auto simp: H_def)
  have c2: "set (c_blocks c2) - {b1} = H" "b1 \<in> set (c_blocks c2)" "b_priority b1 < K" using m(3,5) H(3) ks(1,4) by (auto simp: H_def)
  have age2: "\<forall>b \<in> set (c_blocks c2) - {b1}. c_tick c2 + int (length rest) \<le> b_last_used b + PRIORITY_WEIGHT"
  proof
    fix b assume "b \<in> set (c_blocks c2) - {b1}"
    then have "b = b0 \<or> b \<in> set (c_blocks c)" using c2(1) H(4) by blast
    moreover have "int (length ks) < PRIORITY_WEIGHT" using bspec [OF age low(1)] old [OF low(1)] by linarith
    moreover have "c_tick c2 + int (length rest) = c_tick c + int (length ks)" using b0(5) m(7) ks(1) by simp
    ultimately show "c_tick c2 + int (length rest) \<le> b_last_used b + PRIORITY_WEIGHT"
      using age b0(4) by fastforce
  qed
  have keyH: "b_key b \<notin> fst ` set (tl ks)" if "b \<in> H" for b
  proof -
    have "b = b0 \<or> b_key b \<notin> fst ` set ks" using that H(4) absent by blast
    then show ?thesis using b0(2) ks(1,2) by auto
  qed
  note inv2 = full_inv [OF m(8), THEN conjunct2]
  have m2: "\<forall>k \<in> fst ` set rest. cache_region c2 k = None"
  proof
    fix k assume k: "k \<in> fst ` set rest"
    then have "k \<noteq> k1" "k \<in> fst ` set (tl ks)" using ks(1,2) by auto
    then have "\<forall>b \<in> set (c_blocks c2). b_key b \<noteq> k" using keyH m(3,4) by (auto simp: H_def)
    then show "cache_region c2 k = None" using cache_region_None [OF inv2] by simp
  qed
  have c': "c' = acquire_all (cache_acquire n) rest c2" using en1 en2 by (simp add: c'_def ks(1) k cache_acquire_def)
  obtain low' where L: "cache_full n c'" "set (c_blocks c') = insert low' H" "b_priority low' < K" "low' \<notin> H"
    "rest = [] \<longrightarrow> low' = b1" "rest \<noteq> [] \<longrightarrow> b_key low' = fst (last rest) \<and> b_priority low' = snd (last rest)"
    using low_requests [OF m(8) c2(2,3) _ age2 _ m2] c2(1) H(2) ks(1,2,4) unfolding c' by auto
  have last: "b_key low' = fst (last ks)" "b_priority low' = snd (last ks)" using L(5,6) m(4,5) ks(1) by (cases rest; simp)+
  show "cache_full n c'" by (rule L(1))
  show "\<exists>low \<in> set (c_blocks c'). b_key low = fst (last ks) \<and> b_priority low = snd (last ks) \<and> (\<forall>b \<in> set (c_blocks c') - {low}. b_priority b = K)"
    using L(2) H(2) last by (intro bexI [of _ low']) auto
  have fks: "fst ` set ks = insert k0 (fst ` set (tl ks))" by (simp add: ks(1))
  have only: "k = k0" if "b \<in> H" "b_key b = k" "k \<in> fst ` set ks" for b k using keyH [OF that(1)] that(2,3) fks by blast
  show "\<forall>k \<in> fst ` set ks. cache_region c' k \<noteq> None \<longleftrightarrow> k = k0 \<or> k = fst (last ks)"
  proof
    fix k assume k: "k \<in> fst ` set ks"
    have region: "cache_region c' k \<noteq> None \<longleftrightarrow> (\<exists>b \<in> insert low' H. b_key b = k)"
      using cache_region_None [OF full_inv [OF L(1), THEN conjunct2], of k] unfolding L(2) by auto
    show "cache_region c' k \<noteq> None \<longleftrightarrow> k = k0 \<or> k = fst (last ks)"
    proof
      assume "cache_region c' k \<noteq> None"
      then obtain b where b: "b = low' \<or> b \<in> H" "b_key b = k" unfolding region by blast
      show "k = k0 \<or> k = fst (last ks)"
      proof (cases "b = low'")
        case True then show ?thesis using b(2) last(1) by simp
      next
        case False then show ?thesis using only [OF _ b(2) k] b(1) by simp
      qed
    next
      assume "k = k0 \<or> k = fst (last ks)"
      then show "cache_region c' k \<noteq> None" unfolding region using H(1) b0(2) last(1) by blast
    qed
  qed
qed

lemma requests_first_last:
  assumes "0 < k" "is_int32 k" "2 \<le> length experts" "length experts \<le> nat k" "distinct experts"
  obtains k1 p1 rest where "requests k l experts = (ExpertKey l (int (hd experts)), k) # (k1, p1) # rest"
    and "\<forall>x \<in> set (tl (requests k l experts)). snd x < k" and "distinct (map fst (requests k l experts))"
    and "fst (last (requests k l experts)) = ExpertKey l (int (last experts))"
proof -
  have len: "length (requests k l experts) = length experts" by (simp add: requests_def)
  have pr: "to_int32 (k - int i) = k - int i" if "i < length experts" for i
    using that assms(1,2,4) by (intro to_int32_id) (auto simp: is_int32_def)
  have nth: "requests k l experts ! i = (ExpertKey l (int (experts ! i)), k - int i)" if "i < length experts" for i
    using that pr by (simp add: requests_def)
  have lst: "fst (last (requests k l experts)) = ExpertKey l (int (last experts))"
  proof -
    have "requests k l experts \<noteq> []" "experts \<noteq> []" "length experts - 1 < length experts" using len assms(3) by auto
    then show ?thesis using nth [of "length experts - 1"] len by (simp add: last_conv_nth)
  qed
  obtain x y r where r: "requests k l experts = x # y # r" using len assms(3) by (metis Suc_le_length_iff numeral_2_eq_2)
  have "x = (ExpertKey l (int (hd experts)), k)" using nth [of 0] r assms(3) by (cases experts) simp_all
  moreover have "snd z < k" if z: "z \<in> set (tl (requests k l experts))" for z
  proof -
    obtain i where "i < length (tl (requests k l experts))" "z = tl (requests k l experts) ! i"
      using z unfolding in_set_conv_nth by blast
    then have "Suc i < length experts" "z = requests k l experts ! Suc i" using len by (auto simp: nth_tl)
    then show ?thesis using nth by simp
  qed
  moreover have "map fst (requests k l experts) = map (\<lambda>e. ExpertKey l (int e)) experts"
    by (rule nth_equalityI) (simp_all add: requests_def)
  then have "distinct (map fst (requests k l experts))" using assms(5) by (simp add: distinct_map inj_on_def)
  moreover note lst
  ultimately show thesis using that [of "fst y" "snd y" r] r by auto
qed

lemma filter_first_last:
  assumes "distinct xs" "2 \<le> length xs" "\<forall>x \<in> set xs. P x \<longleftrightarrow> x = hd xs \<or> x = last xs"
  shows "filter P xs = [hd xs, last xs]"
proof -
  obtain x ys y where xs: "xs = x # ys @ [y]"
    using assms(2) by (metis One_nat_def Suc_1 Suc_le_length_iff append_butlast_last_id list.discI list.size(3) not_less_eq_eq zero_le)
  have "\<forall>z \<in> set ys. \<not> P z" using assms(1,3) unfolding xs by auto
  then have "filter P ys = []" by simp
  then show ?thesis using assms(3) unfolding xs by simp
qed

section \<open>Properties\<close>


text \<open>Three slots hold the three experts of a layer, and yet the third layer of the first token computes with two.\<close>

definition three_src :: "ExpertKey \<Rightarrow> nat" where
  "three_src k = 100000 + 1000 * nat (key_expert k)"

definition three_cache :: VramCache where
  "three_cache = snd (cache_init cache_new 768 example_backend)"

definition three_prefetcher :: AsyncPrefetcher where
  "three_prefetcher = snd (prefetcher_init (prefetcher_new three_cache 64) False)"

definition three_warm :: AsyncPrefetcher where
  "three_warm = prefetch_all three_src 256 (requests 3 1 [1, 2, 0] @ requests 3 2 [1, 2, 0]) three_prefetcher"

lemmas three_eval = three_cache_def three_prefetcher_def prefetcher_eval

lemma three_reachable:
  "prefetcher_reachable three_src 256 768 (m, three_prefetcher)" "p_inflight three_prefetcher = []"
  "prefetcher_reachable three_src 256 768 (m, three_warm)"
proof -
  have sp: "away three_src 256 (cache_space three_cache)" by (auto simp: away_def three_src_def cache_space_def three_eval)
  have c: "cache_init cache_new 768 example_backend = (True, three_cache)" by (simp add: three_eval)
  show r: "prefetcher_reachable three_src 256 768 (m, three_prefetcher)"
    by (rule prefetcher_reachable.start [OF c _ _ _ sp, of 64 True])
      (simp_all add: size_mod_def three_src_def three_prefetcher_def prefetcher_init_def)
  show e: "p_inflight three_prefetcher = []" by (simp add: three_eval)
  show "prefetcher_reachable three_src 256 768 (m, three_warm)"
    unfolding three_warm_def
    by (rule prefetch_all_reachable [OF r]) (simp_all add: e requests_def key_ok_def is_int32_def upt_rec [of _ 3])
qed

lemma three_warm_eval:
  "c_blocks (p_cache three_warm) =
     [\<lparr>b_key = ExpertKey 1 1, b_ptr = 4096, b_offset = 0, b_size = 256, b_last_used = 1, b_priority = 3, b_resident = True\<rparr>,
      \<lparr>b_key = ExpertKey 2 1, b_ptr = 4608, b_offset = 512, b_size = 256, b_last_used = 4, b_priority = 3, b_resident = True\<rparr>,
      \<lparr>b_key = ExpertKey 2 0, b_ptr = 4352, b_offset = 256, b_size = 256, b_last_used = 6, b_priority = 1, b_resident = True\<rparr>]"
  "c_tick (p_cache three_warm) = 6" "a_cap (c_arena (p_cache three_warm)) = 768" "length (p_inflight three_warm) = 6"
  by (simp_all add: three_warm_def requests_def upt_rec [of _ 3] three_eval three_src_def)

definition three_engine :: Engine where
  "three_engine = (engine_new example_memory)\<lparr>e_cfg := default_config\<lparr>cfg_topk := 3\<rparr>,
     e_oracle := example_oracle\<lparr>o_layers := replicate 3 (hd (o_layers example_oracle))\<rparr>, e_pf := three_warm,
     e_hidden := 1, e_inter := 1, e_blob_elems := 64, e_blob_bytes := 256, e_staging := [(1, 101000), (2, 102000), (0, 100000)]\<rparr>"


end
