(* ===== verification/Report.thy ===== *)
theory Report
  imports Cli Bench EngineReference CudaDevice
begin

text \<open>
  What the two programs print. The command line program \<^verbatim>\<open>main.cpp\<close> prints a banner, and after the run the
  statistics and the budget; the driver \<^verbatim>\<open>dee_bench.cpp\<close> prints its dimensions, the throughput, the counters of the
  generator and the first tokens. The text is what \<^verbatim>\<open>printf\<close> writes: \<^verbatim>\<open>%d\<close>, \<^verbatim>\<open>%ld\<close> and \<^verbatim>\<open>%llu\<close> in decimal, \<^verbatim>\<open>%.Nf\<close>
  rounded to the nearest multiple of \<open>1 / 10 ^ N\<close>, ties to even.
\<close>

section \<open>Formatting\<close>

definition newline :: char where
  "newline = CHR 0x0A"

definition line :: "string \<Rightarrow> string" where
  "line s = s @ [newline]"

definition round_even :: "real \<Rightarrow> int" where
  "round_even x =
     (let f = \<lfloor>x\<rfloor>; r = x - real_of_int f
      in if r < 1 / 2 then f else if 1 / 2 < r then f + 1 else if even f then f else f + 1)"

text \<open>\<^verbatim>\<open>%.df\<close> of a finite number that is not a negative zero.\<close>

definition show_fixed :: "nat \<Rightarrow> real \<Rightarrow> string" where
  "show_fixed d x =
     (let n = nat (round_even (\<bar>x\<bar> * 10 ^ d)); frac = show_nat (n mod 10 ^ d)
      in (if x < 0 then ''-'' else []) @ show_nat (n div 10 ^ d) @
         (if d = 0 then [] else ''.'' @ replicate (d - length frac) CHR ''0'' @ frac))"

definition show_size :: "nat \<Rightarrow> string" where
  "show_size n = show_int (int n)"

definition megabytes :: "nat \<Rightarrow> real" where
  "megabytes n = real n / (1024 * 1024)"

section \<open>The command line program\<close>

definition cli_usage :: "string \<Rightarrow> string" where
  "cli_usage argv0 =
     line (''usage: '' @ argv0 @ '' [options]'') @
     line ''  --shard  PATH   safetensors MoE shard            (def: tests/data/ornith_moe256.safetensors)'' @
     line ''  --oracle PATH   PyTorch .pt Oracle              (def: /mnt/c/Users/carth/Downloads/dynamic_expert_eviction/oracle.pt)'' @
     line ''  --tokens N      autoregressive steps            (def: 32)'' @
     line ''  --topk   K      experts / layer (top-K)         (def: 8)'' @
     line ''  --layers L      decoder depth (clamped to 40)    (def: 40)'' @
     line ''  --budget BYTES  VRAM budget (0 => 4 experts)     (def: 0)'' @
     line ''  --cuda          use real CUDA path (needs DEE_CUDA build)'' @
     line ''  --verbose''"

text \<open>The argument that ends the loop over the command line, if there is one.\<close>

fun cli_unknown :: "string list \<Rightarrow> string option" where
  "cli_unknown [] = None"
| "cli_unknown (f # args) =
     (if cli_option f \<noteq> None then (case args of [] \<Rightarrow> None | v # args' \<Rightarrow> cli_unknown args')
      else if f = ''--cuda'' \<or> f = ''--verbose'' then cli_unknown args
      else Some f)"

definition em_dash :: string where
  "em_dash = [CHR 0xE2, CHR 0x80, CHR 0x94]"

definition cli_banner :: "EngineConfig \<Rightarrow> string" where
  "cli_banner cfg =
     line (''=== dee.cpp Step 8 '' @ em_dash @ '' MoE forward + DEE loop ==='') @
     line (''  backend     : '' @ (if cfg_use_cuda cfg then ''CUDA'' else ''CPU-mock'')) @
     line (''  shard       : '' @ cfg_shard_path cfg) @
     line (''  oracle      : '' @ cfg_oracle_path cfg) @
     line (''  tokens      : '' @ show_int (cfg_num_tokens cfg)) @
     line (''  topk        : '' @ show_int (cfg_topk cfg)) @
     line (''  hidden       : '' @ show_int (cfg_hidden cfg) @ '' (expert inter derived from shard)'') @
     line ''  expert blob : derived from shard (gate+up+down)''"

definition printed_budget :: "EngineConfig \<Rightarrow> int \<Rightarrow> int \<Rightarrow> nat" where
  "printed_budget cfg hid int_dim =
     (if cfg_budget_bytes cfg \<noteq> 0 then cfg_budget_bytes cfg
      else mul64 (mul64 (mul64 (mul64 4 3) (size_of_int int_dim)) (size_of_int hid)) 4)"

definition vram_lines :: "EngineConfig \<Rightarrow> int \<Rightarrow> int \<Rightarrow> EngineStats \<Rightarrow> string" where
  "vram_lines cfg hid int_dim s =
     (if cfg_use_cuda cfg \<and> 0 < es_cuda_total s
      then line (''  GPU memory       : '' @ show_fixed 0 (megabytes (es_cuda_total s)) @ '' / '' @
             show_fixed 0 (megabytes (es_cuda_free s)) @ '' MB (total / free at start)'') @
           line (''  peak VRAM (work) : '' @ show_fixed 2 (megabytes (es_peak_vram s)) @ '' MB  (expert weights resident)'')
      else line (''  peak VRAM (mock) : '' @ show_fixed 2 (megabytes (es_peak_vram s)) @ '' MB  (budget '' @
             show_fixed 2 (megabytes (printed_budget cfg hid int_dim)) @ '' MB)''))"

definition cli_results :: "EngineConfig \<Rightarrow> int \<Rightarrow> int \<Rightarrow> EngineStats \<Rightarrow> string" where
  "cli_results cfg hid int_dim s =
     [newline] @
     line (''--- results ('' @ (if cfg_use_cuda cfg then ''CUDA GPU'' else ''CPU-mock'') @ '', honest local numbers) ---'') @
     line (''  tokens generated : '' @ show_int (es_tokens s)) @
     line (''  elapsed          : '' @ show_fixed 3 (es_elapsed_sec s) @ '' s'') @
     line (''  THROUGHPUT       : '' @ show_fixed 3 (es_tok_per_sec s) @ '' tok/s'') @
     vram_lines cfg hid int_dim s @
     line (''  cache  hits/loads: '' @ show_size (es_cache_hits s) @ '' / '' @ show_size (es_cache_loads s)) @
     line (''  evictions       : '' @ show_size (es_evictions s)) @
     line (''  sync fallbacks  : '' @ show_size (es_fallbacks s) @ '' (cache) / '' @ show_size (es_prefetch_fallbacks s) @ '' (prefetch)'') @
     line (''  prefetch issued : '' @ show_size (es_prefetch_issued s)) @
     line (''  output finite   : '' @ (if es_hidden_finite s then ''yes'' else ''NO (!)'')) @
     (if cfg_verbose cfg then ''  final hidden[0..7] ='' else []) @
     line ''=================================================''"

text \<open>The exit code, the standard output and the standard error of \<^verbatim>\<open>main\<close> itself; what the engine logs is not part of it.\<close>

definition cli_output :: "Env \<Rightarrow> Sys \<Rightarrow> 'z Zlib \<Rightarrow> memory \<Rightarrow> string \<Rightarrow> string list \<Rightarrow> (int \<times> string \<times> string) outcome" where
  "cli_output env sys z m argv0 args =
     (case cli_parse cli_defaults args of
        None \<Rightarrow> Ret (2, [], line (''unknown arg: '' @ the (cli_unknown args)) @ cli_usage argv0)
      | Some cfg \<Rightarrow>
          bind_out (init sys z (engine_new m) cfg) (\<lambda>(ok, en).
            if \<not> ok then Ret (1, cli_banner cfg, line ''[main] engine init FAILED'')
            else bind_out (of_exn (generate env en)) (\<lambda>(_, en').
                   Ret (0, cli_banner cfg @ cli_results cfg (int (e_hidden en)) (int (e_inter en)) (e_stats en'), []))))"

section \<open>The benchmark driver\<close>

definition bench_usage :: "string \<Rightarrow> string" where
  "bench_usage prog =
     line (''usage: '' @ prog @ '' [--layers N] [--experts N] [--hidden N] [--inter N]'') @
     line ''            [--topk N] [--slots N] [--prompt TOK] [--max-new N] [--eos N] [--vocab N]'' @
     line ''            [--weights-dir DIR]'' @
     line ''  Runs the autoregressive Generation loop and reports decode throughput +'' @
     line ''  cache/miss telemetry. With --weights-dir DIR the real BF16 MoE shards in'' @
     line ''  DIR are used (decoded to FP32 on prefetch); otherwise a synthetic model'' @
     line ''  is used. Dims are taken from the weight files when --weights-dir is set.''"

definition bench_banner :: "string \<Rightarrow> BenchArgs \<Rightarrow> Loaded \<Rightarrow> string" where
  "bench_banner backend a ld =
     line (''dee_bench: backend='' @ backend @ '' mode='' @ (if ba_weights_dir a \<noteq> [] then ''real'' else ''synth'') @
       '' layers='' @ show_int (ld_NL ld) @ '' experts='' @ show_int (ld_E ld) @ '' hidden='' @ show_int (ld_H ld) @
       '' inter='' @ show_int (ld_I ld) @ '' topk='' @ show_int (ba_topk a) @ '' slots='' @ show_int (ba_slots a) @
       '' prompt='' @ show_int (ba_prompt a) @ '' max_new='' @ show_int (ba_max_new a))"

definition bench_results :: "real \<Rightarrow> BenchReport \<Rightarrow> string" where
  "bench_results ms r =
     (let sec = ms / 1000
      in line (''tokens generated : '' @ show_int (br_tokens r)) @
         line (''decode time      : '' @ show_fixed 2 ms @ '' ms ('' @
           show_fixed 1 (if sec > 0 then real (br_out_size r) / sec else 0) @ '' tok/s)'') @
         line (''cache hits       : '' @ show_size (br_hits r)) @
         line (''cache misses     : '' @ show_size (br_misses r)) @
         line (''reactive prefetch: '' @ show_size (br_reactive r)) @
         line (''oracle calls     : '' @ show_size (br_oracle_calls r)) @
         line (''first tokens     :'' @ concat (map (\<lambda>t. CHR '' '' # show_int t) (br_first r))))"

text \<open>\<open>what\<close> is the message of the exception that ended the loading of real weights.\<close>

definition bench_output ::
  "'p BenchEnv \<Rightarrow> string \<Rightarrow> real \<Rightarrow> string \<Rightarrow> string \<Rightarrow> string list \<Rightarrow> (int \<times> string \<times> string) outcome" where
  "bench_output env backend ms what prog args =
     bind_out (bench_parse bench_defaults args) (\<lambda>p. case p of None \<Rightarrow> Ret (2, [], bench_usage prog) | Some a \<Rightarrow>
       if ba_max_new a \<le> 0 then Ret (2, [], bench_usage prog)
       else bind_out (load_weights (bv_open_dir env) (bv_at_gu env) (bv_at_dn env) a) (\<lambda>l.
              case l of
                None \<Rightarrow> Ret (2, [], line (''failed to load weights from '' @ ba_weights_dir a @ '': '' @ what))
              | Some ld \<Rightarrow> bind_out (bench_run env a ld) (\<lambda>r. Ret (0, bench_banner backend a ld @ bench_results ms r, []))))"

section \<open>Rounding\<close>

lemma round_even_range: "\<lfloor>x\<rfloor> \<le> round_even x" "round_even x \<le> \<lfloor>x\<rfloor> + 1"
  by (simp_all add: round_even_def Let_def)

lemma round_even_mono:
  assumes "x \<le> y"
  shows "round_even x \<le> round_even y"
proof (cases "\<lfloor>x\<rfloor> = \<lfloor>y\<rfloor>")
  case True
  then show ?thesis using assms by (simp add: round_even_def Let_def)
next
  case False
  then have "\<lfloor>x\<rfloor> + 1 \<le> \<lfloor>y\<rfloor>" using floor_mono [OF assms] by linarith
  then show ?thesis using round_even_range(2) [of x] round_even_range(1) [of y] by linarith
qed

section \<open>The arguments\<close>

lemma cli_parse_unknown: "cli_parse c args = None \<longleftrightarrow> cli_unknown args \<noteq> None"
  by (induction c args rule: cli_parse.induct) (auto split: option.splits list.splits)

section \<open>The budget\<close>

lemma init_dims:
  assumes "init sys z (engine_new m) cfg = Ret (True, en)"
  shows "\<not> cfg_use_cuda cfg" "\<exists>i. e_inter en = nat i \<and> e_hidden en = nat (cfg_hidden cfg) \<and>
    e_blob_bytes en = e_blob_bytes (set_dims en i (cfg_hidden cfg))"
proof -
  obtain en1 sc where s: "init_shard sys (engine_new m) cfg = Ret (True, en1)"
    and c: "init_cache sys (en1\<lparr>e_oracle := sc, e_cfg := cfg\<lparr>cfg_num_layers := min (cfg_num_layers cfg) (num_layers sc)\<rparr>\<rparr>) cfg = Ret (True, en)"
    using assms by (auto simp: init_def ret_iff Let_def split: if_splits)
  obtain en0 where "check_dims en0 cfg = (True, en1)" using s by (auto simp: init_shard_def Let_def ret_iff split: if_splits)
  then obtain i where "en1 = set_dims en0 i (cfg_hidden cfg)" using check_dims_True by blast
  moreover have "e_inter en = e_inter en1 \<and> e_hidden en = e_hidden en1 \<and> e_blob_bytes en = e_blob_bytes en1"
    using c by (auto simp: init_cache_def init_buffers_def Let_def split: if_splits prod.splits)
  ultimately show "\<exists>i. e_inter en = nat i \<and> e_hidden en = nat (cfg_hidden cfg) \<and>
    e_blob_bytes en = e_blob_bytes (set_dims en i (cfg_hidden cfg))" by (auto simp: set_dims_def Let_def)
  show "\<not> cfg_use_cuda cfg" using c by (auto simp: init_cache_def init_buffers_def Let_def split: if_splits)
qed

lemma printed_budget_of:
  assumes "init sys z (engine_new m) cfg = Ret (True, en)" and "0 < e_inter en"
  shows "printed_budget cfg (int (e_hidden en)) (int (e_inter en)) = budget_of cfg en"
proof -
  obtain i where i: "e_inter en = nat i" "e_hidden en = nat (cfg_hidden cfg)" "e_blob_bytes en = e_blob_bytes (set_dims en i (cfg_hidden cfg))"
    using init_dims(2) [OF assms(1)] by blast
  have "int (e_inter en) = i" using i(1) assms(2) by simp
  moreover have "int (e_hidden en) = cfg_hidden cfg" by (rule init_result [OF assms(1)])
  moreover have "mul64 (mul64 (mul64 (mul64 4 3) a) b) 4 = mul64 4 (mul64 (mul64 (mul64 3 a) b) 4)" for a b
    by (simp add: mul64_def mod_simps mult_ac)
  ultimately show ?thesis
    using i(3) by (simp add: printed_budget_def budget_of_def size_of_int_def set_dims_def Let_def)
qed

section \<open>Reading a report back\<close>

fun split_on :: "char \<Rightarrow> string \<Rightarrow> string list" where
  "split_on c [] = [[]]"
| "split_on c (x # xs) = (if x = c then [] # split_on c xs else (x # hd (split_on c xs)) # tl (split_on c xs))"

lemma split_on_line: "c \<notin> set w \<Longrightarrow> split_on c (w @ c # s) = w # split_on c s"
  by (induction w) auto

lemma split_on_end: "c \<notin> set w \<Longrightarrow> split_on c w = [w]"
  by (induction w) auto

text \<open>The text after the first colon of a line, and the numbers that it holds.\<close>

definition after_colon :: "string \<Rightarrow> string" where
  "after_colon s = tl (dropWhile (\<lambda>x. x \<noteq> CHR '':'') s)"

definition numbers :: "string \<Rightarrow> int list" where
  "numbers s = map strtol (tl (split_on CHR '' '' s))"

definition read_bench :: "string \<Rightarrow> int list" where
  "read_bench s = concat (map (\<lambda>i. numbers (after_colon (split_on newline s ! i))) [0, 2, 3, 4, 5, 6])"

lemma int_chars: "c \<in> set (show_int i) \<Longrightarrow> isdigit c \<or> c = CHR ''-''"
  using show_nat_digits by (auto simp: show_int_def split: if_splits)

lemma int_no_space [simp]: "CHR '' '' \<notin> set (show_int i)" "newline \<notin> set (show_int i)"
  using int_chars [of _ i] by (force simp: isdigit_def newline_def)+

lemma size_no_space [simp]: "CHR '' '' \<notin> set (show_size i)" "newline \<notin> set (show_size i)"
  by (simp_all add: show_size_def)

lemma nat_no_newline [simp]: "newline \<notin> set (show_nat n)"
  using show_nat_digits [of n] by (force simp: isdigit_def newline_def)

lemma fixed_no_newline [simp]: "newline \<notin> set (show_fixed d x)"
  by (auto simp: show_fixed_def Let_def newline_def [symmetric] split: if_splits) (simp_all add: newline_def)

lemma numbers_append: "CHR '' '' \<notin> set w \<Longrightarrow> numbers (CHR '' '' # w) = [strtol w]"
  by (simp add: numbers_def split_on_end)

lemma numbers_list: "numbers (concat (map (\<lambda>t. CHR '' '' # show_int t) ts)) = map strtol (map show_int ts)"
proof -
  have "split_on CHR '' '' (show_int t @ concat (map (\<lambda>t. CHR '' '' # show_int t) ts)) = show_int t # map show_int ts" for t ts
    by (induction ts arbitrary: t) (simp_all add: split_on_line split_on_end)
  then show ?thesis by (cases ts) (simp_all add: numbers_def)
qed

lemma char_not_newline [simp]: "CHR '' '' \<noteq> newline" "CHR ''-'' \<noteq> newline" "CHR ''.'' \<noteq> newline" "newline \<noteq> CHR '' ''"
  by (simp_all add: newline_def)

lemma label_no_newline:
  "\<forall>w \<in> {''tokens generated : '', ''decode time      : '', '' ms ('', '' tok/s)'', ''cache hits       : '', ''cache misses     : '',
     ''reactive prefetch: '', ''oracle calls     : '', ''first tokens     :''}. newline \<notin> set w"
  by (simp add: newline_def)

lemma ints_no_newline [simp]: "newline \<notin> set (concat (map (\<lambda>t. CHR '' '' # show_int t) ts))"
  by (induction ts) auto

lemma bench_results_lines:
  "split_on newline (bench_results ms r) =
     [''tokens generated : '' @ show_int (br_tokens r),
      ''decode time      : '' @ show_fixed 2 ms @ '' ms ('' @
        show_fixed 1 (if ms / 1000 > 0 then real (br_out_size r) / (ms / 1000) else 0) @ '' tok/s)'',
      ''cache hits       : '' @ show_size (br_hits r), ''cache misses     : '' @ show_size (br_misses r),
      ''reactive prefetch: '' @ show_size (br_reactive r), ''oracle calls     : '' @ show_size (br_oracle_calls r),
      ''first tokens     :'' @ concat (map (\<lambda>t. CHR '' '' # show_int t) (br_first r)), []]"
proof -
  have lines: "split_on newline (line w @ s) = w # split_on newline s" if "newline \<notin> set w" for w s
    using that by (simp add: line_def split_on_line)
  have last: "split_on newline (line w) = [w, []]" if "newline \<notin> set w" for w
    using that split_on_line [of newline w "[]"] by (simp add: line_def)
  show ?thesis
    using label_no_newline by (simp add: bench_results_def Let_def lines last del: concat_map_singleton)
qed

text \<open>The texts go with the exit codes and the statistics of \<open>cli_main\<close>.\<close>

lemma cli_output_main:
  assumes "cli_main env sys z m args = Ret (code, st)"
  shows "\<exists>out err. cli_output env sys z m argv0 args = Ret (code, out, err) \<and> (err = [] \<longleftrightarrow> code = 0)"
proof -
  have "cli_parse cli_defaults args = None \<and> code = 2 \<or>
      (\<exists>cfg en. cli_parse cli_defaults args = Some cfg \<and> init sys z (engine_new m) cfg = Ret (False, en) \<and> code = 1) \<or>
      (\<exists>cfg en v en'. cli_parse cli_defaults args = Some cfg \<and> init sys z (engine_new m) cfg = Ret (True, en) \<and>
         of_exn (generate env en) = Ret (v, en') \<and> code = 0)"
    using assms by (auto simp: cli_main_def ret_iff split: option.splits if_splits prod.splits)
  then show ?thesis by (auto simp: cli_output_def line_def)
qed

section \<open>Properties\<close>

lemma bench_output_report:
  assumes "bench_main env args = Ret (0, Some r)"
  shows "\<exists>banner. bench_output env backend ms what prog args = Ret (0, line banner @ bench_results ms r, [])"
proof -
  obtain a ld where "bench_parse bench_defaults args = Ret (Some a)" "\<not> ba_max_new a \<le> 0"
    "load_weights (bv_open_dir env) (bv_at_gu env) (bv_at_dn env) a = Ret (Some ld)" "bench_run env a ld = Ret r"
    using assms by (auto simp: bench_main_def ret_iff split: option.splits if_splits)
  then show ?thesis by (auto simp: bench_output_def bench_banner_def)
qed

lemma read_bench_results:
  assumes "list_all is_int64 ([br_tokens r, int (br_hits r), int (br_misses r), int (br_reactive r), int (br_oracle_calls r)] @ br_first r)"
  shows "read_bench (bench_results ms r) =
    [br_tokens r, int (br_hits r), int (br_misses r), int (br_reactive r), int (br_oracle_calls r)] @ br_first r"
proof -
  have "map strtol (map show_int (br_first r)) = br_first r"
    using assms by (simp add: list_all_iff strtol_show map_idI)
  then show ?thesis
    using assms by (simp add: read_bench_def bench_results_lines after_colon_def numbers_append numbers_list show_size_def strtol_show)
qed

text \<open>
  C26: the report of the benchmark driver is faithful. When the run succeeds the driver prints its banner and a text from which
  the number of tokens, the four counters of the generator and the first tokens can be read back, as long as they fit \<^verbatim>\<open>long\<close>.
\<close>

theorem bench_report_reads_back:
  assumes "bench_main env args = Ret (0, Some r)"
    and "list_all is_int64 ([br_tokens r, int (br_hits r), int (br_misses r), int (br_reactive r), int (br_oracle_calls r)] @ br_first r)"
  shows "\<exists>banner report. bench_output env backend ms what prog args = Ret (0, line banner @ report, []) \<and>
    read_bench report = [br_tokens r, int (br_hits r), int (br_misses r), int (br_reactive r), int (br_oracle_calls r)] @ br_first r"
  using bench_output_report [OF assms(1), of backend ms what prog] read_bench_results [OF assms(2), of ms] by blast

theorem bench_report_reads_back_witness:
  "\<exists>banner report rest. bench_output example_bench_env backend_name 250 [] ''dee_bench'' (bench_line example_args) =
     Ret (0, line banner @ report, []) \<and> read_bench report = 3 # rest"
proof -
  obtain r where r: "bench_main example_bench_env (bench_line example_args) = Ret (0, Some r)" "br_tokens r = 3"
    "set (br_first r) \<subseteq> {0 ..< 1000}" "br_oracle_calls r = 4" "br_hits r + br_misses r = 4" "br_reactive r \<le> br_misses r"
    using bench_run_complete [OF example_bench_facts(1) _ _ _ _ _ _ _ _ _ _ example_bench_facts(2-5)]
    by (simp add: example_args_def bench_defaults_def is_int32_def example_synth_fields, metis)
  have "is_int64 t" if "t \<in> set (br_first r)" for t
  proof -
    have "0 \<le> t" "t < 1000" using r(3) that by auto
    then show ?thesis by (simp add: is_int64_def)
  qed
  then have "list_all is_int64 ([br_tokens r, int (br_hits r), int (br_misses r), int (br_reactive r), int (br_oracle_calls r)] @ br_first r)"
    using r(2,4-6) by (simp add: list_all_iff is_int64_def)
  from bench_report_reads_back [OF r(1) this, of backend_name 250 "[]" "''dee_bench''"] show ?thesis
    using r(2) by auto
qed



end
