(* ===== verification/Spec2Isabelle.thy ===== *)
theory Spec2Isabelle
  imports Cli Bench BuildsAgree EngineCudaRun EngineReference Starvation Report
begin

text \<open>
  A verification development for \<^verbatim>\<open>dee.cpp\<close>, an inference engine for mixture-of-experts networks that streams
  expert weights from a file into a small device memory ("dynamic expert eviction"). All paths below are
  under \<^verbatim>\<open>src/dee.cpp/\<close>.

  \<^bold>\<open>The program.\<close> The repository holds two implementations of the same idea.

  The first one is the engine. \<^verbatim>\<open>main.cpp\<close> reads options into an \<^verbatim>\<open>EngineConfig\<close> and runs \<^verbatim>\<open>Engine\<close>
  (\<^verbatim>\<open>src/engine.cpp\<close>). The engine maps a safetensors shard (\<^verbatim>\<open>src/weight_mmap.cpp\<close>, which parses the header
  with \<^verbatim>\<open>src/json_min.cpp\<close>) and loads an oracle, a small MLP per layer (\<^verbatim>\<open>src/oracle.cpp\<close>), from a PyTorch archive
  (\<^verbatim>\<open>src/pt_loader.cpp\<close>). For each token and layer the oracle predicts experts; the engine converts their weights to
  32-bit floats, asks the prefetcher (\<^verbatim>\<open>src/async_prefetcher.cpp\<close>) to copy them into blocks of the cache
  (\<^verbatim>\<open>src/vram_cache.cpp\<close>, on a first-fit arena with LRU and priority eviction), waits for them and adds up their outputs.

  The second one is the generator. \<^verbatim>\<open>tools/dee_bench.cpp\<close> builds a synthetic model and runs \<^verbatim>\<open>Generator\<close>
  (\<^verbatim>\<open>src/generation.cpp\<close>) over a cache of fixed slots (\<^verbatim>\<open>src/vram_cache_manager.cpp\<close>), a scheduler
  (\<^verbatim>\<open>src/oracle_scheduler.cpp\<close>), the expert MLP (\<^verbatim>\<open>src/moe_forward.cpp\<close>) and a device with streams and events
  (\<^verbatim>\<open>src/cuda_backend_mock.cpp\<close>, or \<^verbatim>\<open>src/cuda_backend_cuda.cpp\<close> over the CUDA runtime). The prefetcher class and the \<^verbatim>\<open>ExpertOracle\<close> that this half names are not in the repository.

  With \<^verbatim>\<open>DEE_CUDA\<close> the engine and its prefetcher are compiled differently: the copies of weights go over a CUDA stream, an
  event per transfer says when one has arrived, and the layer is computed by kernels on a second stream. Both builds are modelled.

  \<^bold>\<open>The theories.\<close>

  \<^item> \<open>Prelude\<close>: \<^verbatim>\<open>size_t\<close> and \<^verbatim>\<open>int\<close> arithmetic with its wrap-around, exceptions, address ranges, memory.
  \<^item> \<open>Arena\<close>, \<open>VramCache\<close>: the classes of \<^verbatim>\<open>vram_cache.cpp\<close>. Blocks never overlap and never leave the budget;
    allocation fails exactly when it should, up to the overflow of its bump test; victims have minimal scores; for experts of one size the
    cache refines an abstract scored cache and always serves.
  \<^item> \<open>ExpertStore\<close>: the locale \<open>expert_store\<close>, what a cache of weight blocks promises (residents are disjoint, an acquired block is
    inside the space, others keep their place), with the lemmas on filling such a store; interpreted by \<open>VramCache\<close> and by \<open>SlotCache\<close>.
  \<^item> \<open>Prefetcher\<close>: the copy queue as a FIFO of transfers. After any history a successful wait delivers exactly the
    weights of a resident expert; streaming refines loading the experts one by one.
  \<^item> \<open>JsonMin\<close>, \<open>Dtype\<close>, \<open>Floats\<close>, \<open>CText\<close>, \<open>WeightMmap\<close>: the JSON parser (total, with fuel that is shown to be
    enough, and inverse to printing), the conversions from 16-bit floats, floats in memory, the C library's number parsing, outcomes of
    operations that can throw, be undefined or diverge, and the shard: opening a well-formed file yields every tensor's bytes.
  \<^item> \<open>PtLoader\<close>, \<open>OracleMLP\<close>, \<open>OracleLoad\<close>: the archive reader (round trip with a writer, termination of
    the scan, and two defects of its loops), the oracle's forward pass and top-k selection, and the typing of what is loaded.
  \<^item> \<open>Kernels\<close>: the three expert kernels and how they relate.
  \<^item> \<open>Engine\<close>, \<open>Cli\<close>: initialisation, staging, forward pass and generation of the engine, and the program around it.
    A layer computes the normalised mean of the experts that are resident; generation after a successful initialisation
    returns within the memory budget.
  \<^item> \<open>EngineReference\<close>: a reference evaluation of the engine's network directly on the weights of the shard, with no staging, queue
    or cache. If the budget holds the experts that a run asks for, generation returns exactly the reference's hidden state.
  \<^item> \<open>Starvation\<close>: what happens if the budget does not. Priorities of earlier layers never decay; once first-ranked experts
    fill the cache, each request of a layer evicts the one before it, and the layer computes with two experts whatever the budget.
  \<^item> \<open>Report\<close>: what both programs print, character by character. The printed budget is the one in force, the
    printed peak is below it, and the driver's report can be read back.
  \<^item> \<open>SlotCache\<close>, \<open>CudaDevice\<close>: the cache of slots and the mock device. Acquisition always succeeds and evicts an
    expert of lowest priority, least recently used; synchronising an event completes exactly the copies queued before it.
  \<^item> \<open>CopyStream\<close>, \<open>CudaBackend\<close>: the locales \<open>copy_stream\<close> and \<open>event_runtime\<close>, the contract of a stream of asynchronous
    copies and of the events on it; the CUDA device as calls of a runtime (the record \<open>Cuda\<close>), the repository's stub of that runtime, and
    the mock device as a second runtime that defers its copies. Both keep the contract, and the two backends leave the same memory.
  \<^item> \<open>PrefetcherCuda\<close>, \<open>BuildsAgree\<close>: the prefetcher of the CUDA build over any such runtime. The locale \<open>streaming\<close> says what it
    asks of the runtime and proves that a successful wait delivers a resident expert's weights while other copies are pending. A client of
    the prefetcher cannot tell the two builds apart.
  \<^item> \<open>EngineCuda\<close>, \<open>EngineCudaRun\<close>: the engine of the CUDA build. The compute stream is a queue of work that a schedule may
    advance after every call into the runtime. A layer computes what the kernels make of exactly the staged weights on every such runtime and
    schedule, and generation keeps to the budget.
  \<^item> \<open>Generation\<close>, \<open>Bench\<close>: the generator and the benchmark driver. The locale \<open>expert_streams\<close> states what the
    generator relies on of the prefetcher; under it the generator's output equals a reference evaluation of the network without any
    cache. It is interpreted on the slot cache, the synthetic weights and a prefetcher that copies at once.

  \<^bold>\<open>Conventions.\<close> Records and datatypes carry the source's fields and enumerators; operations take and return the
  state. \<^verbatim>\<open>size_t\<close> is a natural number below \<open>2 ^ 64\<close> with explicit wrap-around (\<open>add64\<close>, \<open>mul64\<close>, \<open>sub64\<close>),
  \<^verbatim>\<open>int\<close> is an integer cut by \<open>to_int32\<close> where the code converts, bit patterns are words. Memory is a function from addresses to bytes and
  weights are bytes in it; arithmetic on floats is that of the reals they denote, without rounding, infinities and NaNs. An exception is a value of \<open>exn\<close>, a
  null pointer is address 0, undefined behaviour and non-termination are outcomes (\<open>Undefined\<close>, \<open>Diverges\<close>, or \<open>None\<close>).

  \<^bold>\<open>Loops.\<close> Loops over data are structural. The parser runs on fuel, the length of the text, shown to
  suffice for every text. The loops of the pickle scan, of inflation and of the half-precision conversion are partial functions: the scan is shown to
  return for every pickle below 4 GiB, the conversion for every half, and inflation is shown not to return on truncated input. The loop that counts layers and the eviction
  loop are functions with termination proofs.

  \<^bold>\<open>Parameters.\<close> The operating system's \<^verbatim>\<open>open\<close>, \<^verbatim>\<open>fstat\<close> and \<^verbatim>\<open>mmap\<close>, the file system, zlib, \<^verbatim>\<open>malloc\<close>, the addresses of new vectors,
  \<^verbatim>\<open>std::sort\<close>, the clock, conversions of floats outside the integer range, the CUDA runtime, the progress of
  its compute stream, what fresh device memory holds and the device's properties, and the absent prefetcher and weight loader are
  arguments; a theorem that needs something of them says so and has a witness with a concrete instance.

  \<^bold>\<open>Not modelled.\<close> Timing, and what the engine and the loaders log on the error output; the abstract class declarations and the
  factories that pick a device at build time; threads inside one call of the CUDA runtime (a call takes effect at once, queued work
  runs between calls); \<^verbatim>\<open>third_party/ggml\<close>; the
  Python scripts and the tests.
\<close>

end
